(* ===== verification/Prelude.thy ===== *)
theory Prelude
  imports Complex_Main "HOL-Library.Word" "HOL-Library.Sublist"
begin

text \<open>
  Shared vocabulary of the development: the machine-integer types of the Rust
  source, the \<open>Result\<close> type, the collections of rewrite rules the component proofs
  use, and the generic facts on lists, options and words that several components
  need.

  A Rust \<open>String\<close>/\<open>&str\<close> is a UTF-8 byte sequence and its \<open>len()\<close> counts bytes;
  HOL's \<^typ>\<open>char\<close> is one byte, so a Rust string is a \<^typ>\<open>string\<close> here and
  \<^const>\<open>length\<close> is Rust's \<open>len()\<close>.

  Machine arithmetic is that of the release profile (the workspace sets no
  \<open>overflow-checks\<close>): it wraps. \<open>usize\<close> is 64 bits wide.
\<close>

type_synonym u8 = "8 word"
type_synonym u16 = "16 word"
type_synonym u32 = "32 word"
type_synonym u64 = "64 word"
type_synonym usize = "64 word"

text \<open>\<open>Result<T, E>\<close>: the error on the left.\<close>

type_synonym ('t, 'e) result = "'e + 't"

abbreviation Ok :: "'t \<Rightarrow> ('t, 'e) result" where
  "Ok \<equiv> Inr"

abbreviation Err :: "'e \<Rightarrow> ('t, 'e) result" where
  "Err \<equiv> Inl"

named_theorems inv_intros \<open>operations that keep the invariant of their component\<close>


section \<open>Lists\<close>

text \<open>Rust's checked indexing, \<open>xs.get(i)\<close>; \<open>xs[i]\<close> panics where it is \<^const>\<open>None\<close>.\<close>

definition get_at :: "'a list \<Rightarrow> nat \<Rightarrow> 'a option" where
  "get_at xs i = (if i < length xs then Some (xs ! i) else None)"

lemma get_at_simps [simp]:
  "get_at [] i = None"
  "get_at (x # xs) 0 = Some x"
  "get_at (x # xs) (Suc i) = get_at xs i"
  by (simp_all add: get_at_def)

lemma get_at_Some_iff: "get_at xs i = Some x \<longleftrightarrow> i < length xs \<and> xs ! i = x"
  by (auto simp: get_at_def)

lemma get_at_None_iff: "get_at xs i = None \<longleftrightarrow> length xs \<le> i"
  by (auto simp: get_at_def)

lemma find_map_conv: "find P (map f xs) = map_option f (find (P \<circ> f) xs)"
  by (induction xs) simp_all

lemma find_upt_None_iff: "find P [0..<n] = None \<longleftrightarrow> (\<forall>k < n. \<not> P k)"
  by (auto simp: find_None_iff)

lemma find_upt_SomeD: "find P [0..<n] = Some k \<Longrightarrow> k < n \<and> P k \<and> (\<forall>j < k. \<not> P j)"
  by (auto simp: find_Some_iff)

text \<open>\<open>filter_map\<close> where nothing is filtered out.\<close>

lemma map_filter_total: "(\<And>x. x \<in> set xs \<Longrightarrow> f x = Some (g x)) \<Longrightarrow> List.map_filter f xs = map g xs"
  by (induction xs) (simp_all add: List.map_filter_def)

lemma set_map_filter_iff: "y \<in> set (List.map_filter f xs) \<longleftrightarrow> (\<exists>x \<in> set xs. f x = Some y)"
  by (force simp: List.map_filter_def)

text \<open>A split of a filtered list is a split of the list.\<close>

lemma filter_split:
  "filter P xs = us @ y # vs \<Longrightarrow> \<exists>us' vs'. xs = us' @ y # vs' \<and> us = filter P us' \<and> vs = filter P vs'"
proof (induction xs arbitrary: us)
  case Nil
  then show ?case by simp
next
  case (Cons x xs)
  show ?case
  proof (cases "P x \<and> us = []")
    case True
    with Cons.prems show ?thesis by (intro exI[of _ "[]"] exI[of _ xs]) simp
  next
    case False
    then obtain us2 where "filter P xs = us2 @ y # vs" "us = (if P x then x # us2 else us2)"
      using Cons.prems by (cases "P x"; cases us) auto
    then show ?thesis using Cons.IH[of us2] by (metis append_Cons filter.simps(2))
  qed
qed

text \<open>\<open>Iterator::max_by_key\<close>: of several greatest elements the last one is returned.\<close>

fun max_by_key :: "('a \<Rightarrow> 'k::linorder) \<Rightarrow> 'a list \<Rightarrow> 'a option" where
  "max_by_key k [] = None"
| "max_by_key k (x # xs) =
     (case max_by_key k xs of
        None \<Rightarrow> Some x
      | Some y \<Rightarrow> if k x \<le> k y then Some y else Some x)"

lemma max_by_key_None_iff [simp]: "max_by_key k xs = None \<longleftrightarrow> xs = []"
  by (cases xs) (auto split: option.splits if_splits)

lemma max_by_key_mem: "max_by_key k xs = Some y \<Longrightarrow> y \<in> set xs"
  by (induction xs arbitrary: y) (auto split: option.splits if_splits)

lemma max_by_key_ge: "max_by_key k xs = Some y \<Longrightarrow> x \<in> set xs \<Longrightarrow> k x \<le> k y"
  by (induction xs arbitrary: y) (auto split: option.splits if_splits)

text \<open>The winner is the last of the greatest: everything after it is strictly smaller.\<close>

lemma max_by_key_last:
  "max_by_key k xs = Some y \<Longrightarrow>
     \<exists>us vs. xs = us @ y # vs \<and> (\<forall>u \<in> set us. k u \<le> k y) \<and> (\<forall>v \<in> set vs. k v < k y)"
proof (induction xs arbitrary: y)
  case Nil
  then show ?case by simp
next
  case (Cons x xs)
  show ?case
  proof (cases "max_by_key k xs")
    case None
    with Cons.prems show ?thesis by (intro exI[of _ "[]"]) auto
  next
    case (Some z)
    from Cons.IH[OF Some] obtain us vs
      where split: "xs = us @ z # vs" "\<forall>u \<in> set us. k u \<le> k z" "\<forall>v \<in> set vs. k v < k z"
      by blast
    show ?thesis
    proof (cases "k x \<le> k z")
      case True
      with Cons.prems Some have "y = z" by simp
      with True split show ?thesis
        by (intro exI[of _ "x # us"] exI[of _ vs]) auto
    next
      case False
      with Cons.prems Some have "y = x" by simp
      moreover have "\<forall>v \<in> set xs. k v < k x"
        using False max_by_key_ge[OF Some] by force
      ultimately show ?thesis by (intro exI[of _ "[]"] exI[of _ xs]) auto
    qed
  qed
qed


section \<open>Words\<close>

lemma unat_add_1:
  fixes w :: "'a::len word"
  assumes "unat w + 1 < 2 ^ LENGTH('a)"
  shows "unat (w + 1) = unat w + 1"
  using assms by (simp add: unat_word_ariths)



section \<open>Step relations\<close>

text \<open>
  The contract of a transition system with an inductive invariant: what holds at the
  start and is kept by every step holds in every reachable state.
\<close>

locale invariant_system =
  fixes init :: "'s \<Rightarrow> bool"
    and step :: "'s \<Rightarrow> 's \<Rightarrow> bool"
    and inv :: "'s \<Rightarrow> bool"
  assumes inv_init: "init s \<Longrightarrow> inv s"
    and inv_step: "inv s \<Longrightarrow> step s t \<Longrightarrow> inv t"
begin

lemma inv_steps: "step\<^sup>*\<^sup>* s t \<Longrightarrow> inv s \<Longrightarrow> inv t"
  by (induction rule: rtranclp_induct) (auto intro: inv_step)

lemma inv_reachable: "init s \<Longrightarrow> step\<^sup>*\<^sup>* s t \<Longrightarrow> inv t"
  using inv_steps inv_init by blast

end

end
