(* ===== verification/Health.thy ===== *)
theory Health
  imports Prelude
begin

text \<open>
  Health of one upstream target (\<open>gatepup-proxy/src/health.rs\<close>): the state that
  \<open>HealthState\<close> keeps in atomics, \<open>observe\<close> with its consecutive-count thresholds,
  and the two things the rest of the proxy relies on: which histories of
  observations leave a target healthy, and that the \<open>u32\<close> counters never disturb
  that answer although they wrap.
\<close>

section \<open>State and operations\<close>

record health_state =
  healthy :: bool
  successes :: u32
  failures :: u32
  last_check_ms :: u64
  healthy_threshold :: u32
  unhealthy_threshold :: u32
  managed :: bool

definition HealthState_new :: "bool \<Rightarrow> u32 \<Rightarrow> u32 \<Rightarrow> health_state" where
  "HealthState_new m h u =
     \<lparr> healthy = True, successes = 0, failures = 0, last_check_ms = 0,
       healthy_threshold = max h 1, unhealthy_threshold = max u 1, managed = m \<rparr>"

definition is_healthy :: "health_state \<Rightarrow> bool" where
  "is_healthy s = healthy s"

text \<open>
  \<open>observe\<close>. \<open>now\<close> is the value of \<open>now_ms()\<close> at the call; \<open>fetch_add\<close> wraps, and so
  does the \<open>+ 1\<close> on its result.
\<close>

definition observe :: "u64 \<Rightarrow> bool \<Rightarrow> health_state \<Rightarrow> health_state" where
  "observe now success s =
     (if \<not> managed s then s
      else let s1 = s\<lparr>last_check_ms := now\<rparr> in
        if success then
          let s2 = s1\<lparr>failures := 0\<rparr>;
              streak = successes s2 + 1;
              s3 = s2\<lparr>successes := successes s2 + 1\<rparr>
          in if \<not> is_healthy s3 \<and> healthy_threshold s3 \<le> streak
             then s3\<lparr>healthy := True\<rparr> else s3
        else
          let s2 = s1\<lparr>successes := 0\<rparr>;
              streak = failures s2 + 1;
              s3 = s2\<lparr>failures := failures s2 + 1\<rparr>
          in if is_healthy s3 \<and> unhealthy_threshold s3 \<le> streak
             then s3\<lparr>healthy := False\<rparr> else s3)"

text \<open>A history of observations \<open>(now, outcome)\<close>, oldest first.\<close>

definition observe_all :: "(u64 \<times> bool) list \<Rightarrow> health_state \<Rightarrow> health_state" where
  "observe_all obs s = fold (\<lambda>(now, b). observe now b) obs s"


section \<open>Specification: consecutive runs of a history\<close>

text \<open>
  The abstract target remembers its whole history (newest observation first) and
  counts runs without bound. It leaves the healthy state when a run of failures
  reaches the unhealthy threshold, and returns when a run of successes reaches the
  healthy threshold.
\<close>

definition run_of :: "bool \<Rightarrow> bool list \<Rightarrow> nat" where
  "run_of b hist = length (takeWhile (\<lambda>x. x = b) hist)"

primrec health_spec :: "nat \<Rightarrow> nat \<Rightarrow> bool list \<Rightarrow> bool" where
  "health_spec ht ut [] = True"
| "health_spec ht ut (b # hist) =
     (if health_spec ht ut hist
      then \<not> (\<not> b \<and> ut \<le> run_of False (b # hist))
      else b \<and> ht \<le> run_of True (b # hist))"

lemma run_of_simps [simp]:
  "run_of b [] = 0"
  "run_of b (b # hist) = Suc (run_of b hist)"
  "run_of True (False # hist) = 0"
  "run_of False (True # hist) = 0"
  by (simp_all add: run_of_def)

lemma run_of_replicate: "k \<le> run_of b (replicate k b @ hist)"
  by (induction k) simp_all

lemma health_spec_fail_run:
  assumes "0 < ut" "ut \<le> k"
  shows "\<not> health_spec ht ut (replicate k False @ hist)"
proof -
  from assms obtain j where k: "k = Suc j" by (cases k) auto
  have "ut \<le> run_of False (False # replicate j False @ hist)"
    using run_of_replicate[of k False hist] assms(2) k by simp
  then show ?thesis using k by simp
qed

lemma health_spec_success_run:
  assumes "0 < ht" "ht \<le> k"
  shows "health_spec ht ut (replicate k True @ hist)"
proof -
  from assms obtain j where k: "k = Suc j" by (cases k) auto
  have "ht \<le> run_of True (True # replicate j True @ hist)"
    using run_of_replicate[of k True hist] assms(2) k by simp
  then show ?thesis using k by simp
qed

text \<open>A target is never ejected while every run of failures stays below the threshold.\<close>

lemma health_spec_short_runs:
  assumes "\<And>h1 h2. hist = h1 @ h2 \<Longrightarrow> run_of False h2 < ut"
  shows "health_spec ht ut hist"
  using assms
proof (induction hist)
  case Nil
  show ?case by simp
next
  case (Cons b hist)
  have "health_spec ht ut hist"
  proof (rule Cons.IH)
    fix h1 h2 assume "hist = h1 @ h2"
    then show "run_of False h2 < ut" using Cons.prems[of "b # h1" h2] by simp
  qed
  then show ?case using Cons.prems[of "[]" "b # hist"] by auto
qed


section \<open>The implementation refines the specification\<close>

text \<open>
  The coupling invariant. Only the counter that can still cause a transition is
  tied to the history, and it is below its threshold: so the other counter may wrap
  without being noticed.
\<close>

definition tracks :: "health_state \<Rightarrow> bool list \<Rightarrow> bool" where
  "tracks s hist \<longleftrightarrow>
     managed s \<and> 0 < healthy_threshold s \<and> 0 < unhealthy_threshold s \<and>
     healthy s = health_spec (unat (healthy_threshold s)) (unat (unhealthy_threshold s)) hist \<and>
     (if healthy s
      then unat (failures s) = run_of False hist \<and> failures s < unhealthy_threshold s
      else unat (successes s) = run_of True hist \<and> successes s < healthy_threshold s)"

lemma tracks_new: "tracks (HealthState_new True h u) []"
  by (auto simp: tracks_def HealthState_new_def word_less_nat_alt max_def word_le_nat_alt unat_gt_0)

lemma unat_inc_below:
  fixes w t :: u32
  assumes "w < t"
  shows "unat (w + 1) = Suc (unat w)"
proof -
  have "unat t < 2 ^ 32" using unsigned_less[of t] by simp
  with assms have "unat w + 1 < 2 ^ 32" by (simp add: word_less_nat_alt)
  then show ?thesis using unat_add_1[of w] by simp
qed

lemma tracks_observe [inv_intros]:
  assumes "tracks s hist"
  shows "tracks (observe now b s) (b # hist)"
proof -
  note unfold = tracks_def observe_def is_healthy_def Let_def
  consider (hs) "healthy s" "b" | (hf) "healthy s" "\<not> b"
    | (us) "\<not> healthy s" "b" | (uf) "\<not> healthy s" "\<not> b" by blast
  then show ?thesis
  proof cases
    case hs
    with assms show ?thesis by (simp add: unfold)
  next
    case hf
    with assms have "unat (failures s + 1) = Suc (unat (failures s))"
      by (intro unat_inc_below[of _ "unhealthy_threshold s"]) (simp add: tracks_def)
    with assms hf show ?thesis
      by (auto simp: unfold word_le_nat_alt word_less_nat_alt)
  next
    case us
    with assms have "unat (successes s + 1) = Suc (unat (successes s))"
      by (intro unat_inc_below[of _ "healthy_threshold s"]) (simp add: tracks_def)
    with assms us show ?thesis
      by (auto simp: unfold word_le_nat_alt word_less_nat_alt)
  next
    case uf
    with assms show ?thesis by (simp add: unfold)
  qed
qed

lemma tracks_observe_all:
  "tracks s hist \<Longrightarrow> tracks (observe_all obs s) (rev (map snd obs) @ hist)"
proof (induction obs arbitrary: s hist)
  case Nil
  then show ?case by (simp add: observe_all_def)
next
  case (Cons ob obs)
  from tracks_observe[OF Cons.prems, of "fst ob" "snd ob"]
  have "tracks (observe_all obs (observe (fst ob) (snd ob) s)) (rev (map snd obs) @ snd ob # hist)"
    by (rule Cons.IH)
  then show ?case by (simp add: observe_all_def case_prod_unfold)
qed

lemma observe_thresholds [simp]:
  "healthy_threshold (observe now b s) = healthy_threshold s"
  "unhealthy_threshold (observe now b s) = unhealthy_threshold s"
  "managed (observe now b s) = managed s"
  by (simp_all add: observe_def Let_def)

lemma observe_all_thresholds [simp]:
  "healthy_threshold (observe_all obs s) = healthy_threshold s"
  "unhealthy_threshold (observe_all obs s) = unhealthy_threshold s"
  "managed (observe_all obs s) = managed s"
  by (induction obs arbitrary: s) (simp_all add: observe_all_def case_prod_unfold)

lemma observe_unmanaged [simp]: "\<not> managed s \<Longrightarrow> observe now b s = s"
  by (simp add: observe_def)

lemma observe_all_unmanaged [simp]: "\<not> managed s \<Longrightarrow> observe_all obs s = s"
  by (induction obs arbitrary: s) (simp_all add: observe_all_def case_prod_unfold)

lemma thresholds_new [simp]:
  "unat (healthy_threshold (HealthState_new m h u)) = max (unat h) 1"
  "unat (unhealthy_threshold (HealthState_new m h u)) = max (unat u) 1"
  by (simp_all add: HealthState_new_def max_def word_le_nat_alt)

lemma is_healthy_new [simp]: "is_healthy (HealthState_new m h u)"
  by (simp add: is_healthy_def HealthState_new_def)


section \<open>Properties\<close>

text \<open>C12. After any sequence of observations a managed target is healthy exactly when the
  specification with unbounded run counts says so: the \<open>u32\<close> counters, which wrap, never
  change the answer, and thresholds of 0 behave as 1.\<close>

theorem observe_refines_health_spec:
  "is_healthy (observe_all obs (HealthState_new True h u))
     = health_spec (max (unat h) 1) (max (unat u) 1) (rev (map snd obs))"
  using tracks_observe_all[OF tracks_new, of obs h u]
  by (simp add: tracks_def is_healthy_def)

text \<open>Whatever happened before, as many consecutive failures as the unhealthy threshold
  eject a managed target, and as many consecutive successes as the healthy threshold
  bring it back; an unmanaged target stays healthy through everything.\<close>

lemma eject_and_recover:
  assumes "\<forall>ob \<in> set run. snd ob = b"
    and "(if b then max (unat h) 1 else max (unat u) 1) \<le> length run"
  shows "is_healthy (observe_all (before @ run) (HealthState_new True h u)) = b \<and>
    is_healthy (observe_all (before @ run) (HealthState_new False h u))"
proof
  have "map snd run = replicate (length run) b"
    using assms(1) map_cong[of run run snd "\<lambda>_. b"] by (simp add: map_replicate_const)
  then have hist: "rev (map snd (before @ run)) = replicate (length run) b @ rev (map snd before)"
    by simp
  have "is_healthy (observe_all (before @ run) (HealthState_new True h u))
      = health_spec (max (unat h) 1) (max (unat u) 1)
          (replicate (length run) b @ rev (map snd before))"
    using tracks_observe_all[OF tracks_new, of "before @ run" h u] hist
    by (simp add: tracks_def is_healthy_def)
  then show "is_healthy (observe_all (before @ run) (HealthState_new True h u)) = b"
    using assms(2) health_spec_fail_run health_spec_success_run by (cases b) auto
  show "is_healthy (observe_all (before @ run) (HealthState_new False h u))"
    by (subst observe_all_unmanaged) (simp_all add: HealthState_new_def is_healthy_def)
qed

end
