(* ===== verification/Config_Model.thy ===== *)
theory Config_Model
  imports Prelude "HOL-Library.List_Lexorder" "HOL-Library.Char_ord"
begin

text \<open>
  The configuration document (\<open>gatepup-config/src/model.rs\<close>): one record per struct,
  one datatype per enum, field names prefixed by their struct. A \<open>BTreeMap\<close> is the
  association list that iterating it yields, so its keys are strictly ascending
  (\<open>btree_map\<close>). Deserialization itself is \<open>serde\<close>'s and is a parameter of the
  resolver; the \<open>default_*\<close> functions the struct attributes name are here.
\<close>

section \<open>Floating-point values\<close>

text \<open>
  An \<open>f64\<close> is a rational or one of the three special values. The rounding of its
  operations is in theory \<open>Rust_F64\<close>; configuration values are only compared.
\<close>

datatype f64 = Fin rat | PosInf | NegInf | NaN

fun f64_is_finite :: "f64 \<Rightarrow> bool" where
  "f64_is_finite (Fin _) = True"
| "f64_is_finite _ = False"

text \<open>\<open>x <= y\<close> (false when either side is NaN).\<close>

fun f64_le :: "f64 \<Rightarrow> f64 \<Rightarrow> bool" where
  "f64_le NaN _ = False"
| "f64_le _ NaN = False"
| "f64_le NegInf _ = True"
| "f64_le _ PosInf = True"
| "f64_le (Fin x) (Fin y) = (x \<le> y)"
| "f64_le _ _ = False"


section \<open>Maps in key order\<close>

type_synonym btree = "(string \<times> string) list"

definition btree_map :: "btree \<Rightarrow> bool" where
  "btree_map m = sorted_wrt (<) (map fst m)"

lemma btree_map_distinct: "btree_map m \<Longrightarrow> distinct (map fst m)"
  by (simp add: btree_map_def strict_sorted_iff)


section \<open>The structs\<close>

record LimitsConfig =
  lim_max_body_bytes :: u64
  lim_header_read_timeout_ms :: u64
  lim_max_header_bytes :: usize

definition default_header_read_timeout_ms :: u64 where
  "default_header_read_timeout_ms = 15000"

definition LimitsConfig_default :: LimitsConfig where
  "LimitsConfig_default =
     \<lparr> lim_max_body_bytes = 0,
       lim_header_read_timeout_ms = default_header_read_timeout_ms,
       lim_max_header_bytes = 0 \<rparr>"

record TimeoutConfig =
  tmo_connect_timeout_ms :: u64
  tmo_request_timeout_ms :: u64

definition default_connect_timeout_ms :: u64 where
  "default_connect_timeout_ms = 5000"

definition default_request_timeout_ms :: u64 where
  "default_request_timeout_ms = 30000"

definition TimeoutConfig_default :: TimeoutConfig where
  "TimeoutConfig_default =
     \<lparr> tmo_connect_timeout_ms = default_connect_timeout_ms,
       tmo_request_timeout_ms = default_request_timeout_ms \<rparr>"

record CompressionConfig =
  cmp_enabled :: bool
  cmp_algorithms :: "string list"
  cmp_min_bytes :: u64
  cmp_types :: "string list"

definition default_compression_algorithms :: "string list" where
  "default_compression_algorithms = [''br'', ''gzip'']"

definition default_compression_min_bytes :: u64 where
  "default_compression_min_bytes = 1024"

definition default_compression_types :: "string list" where
  "default_compression_types =
     [''text/html'', ''text/plain'', ''text/css'', ''text/xml'', ''application/json'',
      ''application/javascript'', ''application/xml'', ''image/svg+xml'']"

record AppConfig =
  app_name :: string
  app_log_level :: string

definition default_log_level :: string where
  "default_log_level = ''info''"

datatype Protocol = Http | Https

record TlsConfig =
  tls_cert :: string
  tls_key :: string

record BasicAuthConfig =
  ba_users :: btree

record RateLimitConfig =
  rl_requests_per_second :: f64
  rl_burst :: u32

record IpAccessConfig =
  ip_allow :: "string list"
  ip_deny :: "string list"

record HeaderOpsConfig =
  ho_set :: btree
  ho_remove :: "string list"

record HeaderRulesConfig =
  hr_request :: HeaderOpsConfig
  hr_response :: HeaderOpsConfig

record MatchConfig =
  mt_host :: "string option"
  mt_path_prefix :: "string option"

text \<open>\<open>MatchConfig::is_empty\<close>: it constrains neither host nor path.\<close>

definition MatchConfig_is_empty :: "MatchConfig \<Rightarrow> bool" where
  "MatchConfig_is_empty m =
     ((case mt_host m of Some h \<Rightarrow> h = [] | None \<Rightarrow> True) \<and>
      (case mt_path_prefix m of Some p \<Rightarrow> p = [] | None \<Rightarrow> True))"

record RouteConfig =
  rt_name :: string
  rt_matcher :: MatchConfig
  rt_upstream :: string
  rt_strip_prefix :: bool
  rt_headers :: "HeaderRulesConfig option"
  rt_ip_access :: "IpAccessConfig option"
  rt_rate_limit :: "RateLimitConfig option"
  rt_basic_auth :: "BasicAuthConfig option"

record ListenerConfig =
  ls_name :: string
  ls_bind :: string
  ls_protocol :: Protocol
  ls_tls :: "TlsConfig option"
  ls_routes :: "RouteConfig list"

record RetryConfig =
  re_enabled :: bool
  re_attempts :: u32
  re_methods :: "string list"
  re_retry_on :: "string list"

definition default_retry_attempts :: u32 where
  "default_retry_attempts = 2"

definition default_retry_methods :: "string list" where
  "default_retry_methods = [''GET'', ''HEAD'', ''OPTIONS'']"

definition default_retry_on :: "string list" where
  "default_retry_on = [''connect_error'', ''upstream_5xx'']"

datatype LoadBalancing = RoundRobin

record TargetConfig =
  tg_url :: string
  tg_weight :: u32

definition default_weight :: u32 where
  "default_weight = 1"

record HealthCheckConfig =
  hc_enabled :: bool
  hc_path :: string
  hc_interval_seconds :: u64
  hc_timeout_ms :: u64
  hc_healthy_threshold :: u32
  hc_unhealthy_threshold :: u32

record UpstreamConfig =
  us_name :: string
  us_load_balancing :: LoadBalancing
  us_targets :: "TargetConfig list"
  us_health_check :: "HealthCheckConfig option"
  us_retries :: "RetryConfig option"
  us_tls_insecure_skip_verify :: bool

record AdminConfig =
  ad_enabled :: bool
  ad_bind :: string
  ad_token :: "string option"

record MetricsConfig =
  me_enabled :: bool
  me_path :: string

record GatePupConfig =
  cf_app :: AppConfig
  cf_listeners :: "ListenerConfig list"
  cf_upstreams :: "UpstreamConfig list"
  cf_timeouts :: TimeoutConfig
  cf_limits :: LimitsConfig
  cf_trusted_proxies :: "string list"
  cf_compression :: "CompressionConfig option"
  cf_admin :: "AdminConfig option"
  cf_metrics :: "MetricsConfig option"

end
