(* ===== verification/Upstream.thy ===== *)
theory Upstream
  imports Health Config_Model "HOL-Library.While_Combinator"
begin

text \<open>
  An upstream group at run time (\<open>gatepup-proxy/src/snapshot.rs\<close>): its retry policy,
  the weighted schedule \<open>build_schedule\<close> computes from the target weights, and
  \<open>pick_target\<close>, which walks the schedule with a shared atomic counter and skips
  unhealthy targets.
\<close>

type_synonym duration = nat \<comment> \<open>nanoseconds\<close>

definition from_secs :: "u64 \<Rightarrow> duration" where
  "from_secs s = unat s * 1000000000"

definition from_millis :: "u64 \<Rightarrow> duration" where
  "from_millis ms = unat ms * 1000000"

record RetryPolicy =
  rp_max_attempts :: u32
  rp_methods :: "string set"
  rp_on_connect_failure :: bool
  rp_on_5xx :: bool

text \<open>
  \<open>RetryPolicy::from_config\<close>. \<open>method_from_bytes\<close> stands for \<open>http::Method::from_bytes\<close>;
  a method is represented by its name.
\<close>

definition RetryPolicy_from_config ::
  "(string \<Rightarrow> string option) \<Rightarrow> RetryConfig \<Rightarrow> RetryPolicy option" where
  "RetryPolicy_from_config method_from_bytes cfg =
     (if \<not> re_enabled cfg then None
      else Some \<lparr>
        rp_max_attempts = max (re_attempts cfg) 1,
        rp_methods = set (List.map_filter method_from_bytes (re_methods cfg)),
        rp_on_connect_failure =
          list_ex (\<lambda>c. c = ''connect_error'' \<or> c = ''connect_timeout'') (re_retry_on cfg),
        rp_on_5xx = list_ex (\<lambda>c. c = ''upstream_5xx'') (re_retry_on cfg) \<rparr>)"

definition allows_method :: "RetryPolicy \<Rightarrow> string \<Rightarrow> bool" where
  "allows_method p m = (m \<in> rp_methods p)"

record HealthCheckSettings =
  hs_path :: string
  hs_interval :: duration
  hs_timeout :: duration

record TargetRuntime =
  tr_url :: string
  tr_state :: health_state

record UpstreamRuntime =
  up_targets :: "TargetRuntime list"
  up_health :: "HealthCheckSettings option"
  up_retry :: "RetryPolicy option"
  up_tls_insecure :: bool
  up_schedule :: "nat list"
  up_next :: usize


section \<open>The weighted schedule\<close>

function gcd_u32 :: "u32 \<Rightarrow> u32 \<Rightarrow> u32" where
  "gcd_u32 a b = (if b = 0 then a else gcd_u32 b (a mod b))"
  by pat_completeness auto
termination
  by (relation "measure (\<lambda>(a, b). unat b)") (auto simp: unat_mod_distrib unat_gt_0)

declare gcd_u32.simps [simp del]

text \<open>One pass of the \<open>for\<close> loop: the decremented weights and the indices pushed.\<close>

fun sched_pass :: "nat \<Rightarrow> u32 list \<Rightarrow> u32 list \<times> nat list" where
  "sched_pass i [] = ([], [])"
| "sched_pass i (rem # rs) =
     (let (rs', ps) = sched_pass (Suc i) rs
      in if 0 < rem then ((rem - 1) # rs', i # ps) else (rem # rs', ps))"

definition sched_guard :: "u32 \<Rightarrow> u32 list \<times> nat list \<Rightarrow> bool" where
  "sched_guard tot st = ((of_nat (length (snd st)) :: u32) < tot)"

definition sched_body :: "u32 list \<times> nat list \<Rightarrow> u32 list \<times> nat list" where
  "sched_body st =
     (let (rs, ps) = sched_pass 0 (fst st) in (rs, snd st @ ps))"

definition sched_divisor :: "u32 list \<Rightarrow> u32" where
  "sched_divisor weights = max (foldl gcd_u32 0 (filter (\<lambda>w. 0 < w) weights)) 1"

definition sched_remaining :: "u32 list \<Rightarrow> u32 list" where
  "sched_remaining weights = map (\<lambda>w. w div sched_divisor weights) weights"

definition build_schedule :: "u32 list \<Rightarrow> nat list" where
  "build_schedule weights =
     (if weights = [] then []
      else let remaining = sched_remaining weights;
               tot = sum_list remaining
           in snd (while (sched_guard tot) sched_body (remaining, [])))"


section \<open>Picking a target\<close>

text \<open>
  The result of \<open>pick_target\<close> is the index of the target it returns a reference to.
  \<open>IndexPanic\<close> is the panic of \<open>self.targets[..]\<close> on a schedule entry that is no target.
\<close>

datatype pick = Picked nat | NoneHealthy | IndexPanic

text \<open>One iteration of the loop: a result, or \<^const>\<open>None\<close> to go round again.\<close>

definition pick_iter :: "UpstreamRuntime \<Rightarrow> pick option \<times> UpstreamRuntime" where
  "pick_iter u =
     (let slot = unat (up_next u) mod length (up_schedule u);
          u' = u\<lparr>up_next := up_next u + 1\<rparr>;
          idx = up_schedule u ! slot
      in case get_at (up_targets u) idx of
           None \<Rightarrow> (Some IndexPanic, u')
         | Some target \<Rightarrow>
             (if is_healthy (tr_state target) then Some (Picked idx) else None, u'))"

fun pick_loop :: "nat \<Rightarrow> UpstreamRuntime \<Rightarrow> pick \<times> UpstreamRuntime" where
  "pick_loop 0 u = (NoneHealthy, u)"
| "pick_loop (Suc n) u =
     (case pick_iter u of
        (Some r, u') \<Rightarrow> (r, u')
      | (None, u') \<Rightarrow> pick_loop n u')"

definition pick_target :: "UpstreamRuntime \<Rightarrow> pick \<times> UpstreamRuntime" where
  "pick_target u =
     (let len = length (up_schedule u)
      in if len = 0 then (NoneHealthy, u) else pick_loop len u)"

text \<open>\<open>target.state.observe(success)\<close> on the target at index \<open>i\<close>.\<close>

definition observe_target :: "u64 \<Rightarrow> nat \<Rightarrow> bool \<Rightarrow> UpstreamRuntime \<Rightarrow> UpstreamRuntime" where
  "observe_target now i success u =
     u\<lparr>up_targets := (up_targets u)[i :=
         (up_targets u ! i)\<lparr>tr_state := observe now success (tr_state (up_targets u ! i))\<rparr>]\<rparr>"


section \<open>The greatest common divisor\<close>

lemma unat_gcd_u32: "unat (gcd_u32 a b) = gcd (unat a) (unat b)"
proof (induction a b rule: gcd_u32.induct)
  case (1 a b)
  show ?case
  proof (cases "b = 0")
    case True
    then show ?thesis by (simp add: gcd_u32.simps[of a 0])
  next
    case False
    with 1 show ?thesis
      by (simp add: gcd_u32.simps[of a b] unat_mod_distrib gcd_red_nat[symmetric])
  qed
qed

lemma unat_foldl_gcd_u32: "unat (foldl gcd_u32 a ws) = gcd (unat a) (Gcd (unat ` set ws))"
  by (induction ws arbitrary: a) (simp_all add: unat_gcd_u32 gcd.assoc)

lemma Gcd_filter_pos: "Gcd (unat ` {w \<in> set ws. 0 < w}) = Gcd (unat ` set (ws::u32 list))"
proof (induction ws)
  case Nil
  show ?case by simp
next
  case (Cons w ws)
  have "{x \<in> set (w # ws). 0 < x} =
      (if 0 < w then insert w {x \<in> set ws. 0 < x} else {x \<in> set ws. 0 < x})" by auto
  then show ?case using Cons by (auto simp: word_gt_0)
qed

definition weight_gcd :: "u32 list \<Rightarrow> nat" where
  "weight_gcd ws = Gcd (unat ` set ws)"

lemma unat_sched_divisor: "unat (sched_divisor ws) = max (weight_gcd ws) 1"
  by (simp add: sched_divisor_def max_def word_le_nat_alt unat_foldl_gcd_u32 Gcd_filter_pos
      weight_gcd_def)

lemma unat_sched_remaining:
  "map unat (sched_remaining ws) = map (\<lambda>w. unat w div weight_gcd ws) ws"
proof (cases "weight_gcd ws = 0")
  case True
  then have "\<forall>w \<in> set ws. unat w = 0" by (auto simp: weight_gcd_def)
  then show ?thesis by (simp add: sched_remaining_def unat_div_distrib)
next
  case False
  then have "max (weight_gcd ws) 1 = weight_gcd ws" by simp
  then show ?thesis
    by (simp add: sched_remaining_def unat_div_distrib unat_sched_divisor)
qed


section \<open>The scheduling loop\<close>

abbreviation left_over :: "u32 list \<Rightarrow> nat" where
  "left_over rs \<equiv> sum_list (map unat rs)"

lemma unat_pred: "r \<noteq> 0 \<Longrightarrow> unat (r::u32) = Suc (unat (r - 1))"
  by (simp add: unat_minus_one unat_gt_0)

lemma sched_pass_Cons:
  "sched_pass i (r # rs) =
     (if r = 0 then (r # fst (sched_pass (Suc i) rs), snd (sched_pass (Suc i) rs))
      else ((r - 1) # fst (sched_pass (Suc i) rs), i # snd (sched_pass (Suc i) rs)))"
  by (simp add: case_prod_unfold word_gt_0 Let_def)

declare sched_pass.simps(2) [simp del]

lemma sched_pass_length [simp]: "length (fst (sched_pass i rs)) = length rs"
  by (induction rs arbitrary: i) (simp_all add: sched_pass_Cons)

lemma sched_pass_total:
  "length (snd (sched_pass i rs)) + left_over (fst (sched_pass i rs)) = left_over rs"
proof (induction rs arbitrary: i)
  case Nil
  show ?case by simp
next
  case (Cons r rs)
  then show ?case using Cons.IH[of "Suc i"] unat_pred[of r] by (simp add: sched_pass_Cons)
qed

lemma sched_pass_progress: "0 < left_over rs \<Longrightarrow> snd (sched_pass i rs) \<noteq> []"
proof (induction rs arbitrary: i)
  case Nil
  then show ?case by simp
next
  case (Cons r rs)
  then show ?case by (cases "r = 0") (simp_all add: sched_pass_Cons)
qed

lemma sched_pass_range: "k \<in> set (snd (sched_pass i rs)) \<Longrightarrow> i \<le> k \<and> k < i + length rs"
proof (induction rs arbitrary: i)
  case Nil
  then show ?case by simp
next
  case (Cons r rs)
  then show ?case using Cons.IH[of "Suc i"]
    by (fastforce simp: sched_pass_Cons split: if_splits)
qed

lemma sched_pass_count:
  "k < length rs \<Longrightarrow>
     count_list (snd (sched_pass i rs)) (i + k) + unat (fst (sched_pass i rs) ! k) = unat (rs ! k)"
proof (induction rs arbitrary: i k)
  case Nil
  then show ?case by simp
next
  case (Cons r rs)
  have notin: "i \<notin> set (snd (sched_pass (Suc i) rs))"
    using sched_pass_range[of i "Suc i" rs] by auto
  show ?case
  proof (cases k)
    case 0
    with notin unat_pred[of r] show ?thesis
      by (simp add: sched_pass_Cons count_list_0_iff)
  next
    case (Suc j)
    with Cons show ?thesis using Cons.IH[of j "Suc i"] by (simp add: sched_pass_Cons)
  qed
qed

text \<open>What every iteration keeps, starting from the reduced weights \<open>rs0\<close>.\<close>

definition sched_inv :: "u32 list \<Rightarrow> u32 list \<times> nat list \<Rightarrow> bool" where
  "sched_inv rs0 st \<longleftrightarrow>
     length (fst st) = length rs0 \<and>
     length (snd st) + left_over (fst st) = left_over rs0 \<and>
     set (snd st) \<subseteq> {..<length rs0} \<and>
     (\<forall>k < length rs0. count_list (snd st) k + unat (fst st ! k) = unat (rs0 ! k))"

lemma sched_invD:
  assumes "sched_inv rs0 st"
  shows "length (fst st) = length rs0"
    and "length (snd st) + left_over (fst st) = left_over rs0"
    and "set (snd st) \<subseteq> {..<length rs0}"
    and "k < length rs0 \<Longrightarrow> count_list (snd st) k + unat (fst st ! k) = unat (rs0 ! k)"
  using assms by (simp_all add: sched_inv_def)

lemma sched_inv_init: "sched_inv rs0 (rs0, [])"
  by (simp add: sched_inv_def)

lemma sched_inv_body [inv_intros]: "sched_inv rs0 st \<Longrightarrow> sched_inv rs0 (sched_body st)"
proof -
  assume inv: "sched_inv rs0 st"
  obtain rs sch where st: "st = (rs, sch)" by (cases st)
  have len: "length rs = length rs0" using inv st by (simp add: sched_inv_def)
  have "count_list (sch @ snd (sched_pass 0 rs)) k + unat (fst (sched_pass 0 rs) ! k) = unat (rs0 ! k)"
    if "k < length rs0" for k
    using that inv st len sched_pass_count[of k rs 0] by (auto simp: sched_inv_def)
  moreover have "set (snd (sched_pass 0 rs)) \<subseteq> {..<length rs0}"
    using sched_pass_range[of _ 0 rs] len by auto
  moreover have "length (sch @ snd (sched_pass 0 rs)) + left_over (fst (sched_pass 0 rs)) = left_over rs0"
    using sched_pass_total[of 0 rs] inv st by (simp add: sched_inv_def)
  ultimately show ?thesis
    using inv st len by (simp add: sched_inv_def sched_body_def case_prod_unfold Let_def)
qed

lemma sum_list_words: "sum_list (rs::u32 list) = of_nat (left_over rs)"
  by (induction rs) simp_all

lemma sched_guard_left:
  assumes "sched_inv rs0 st" "sched_guard (sum_list rs0) st"
  shows "0 < left_over (fst st)"
proof (rule ccontr)
  assume "\<not> 0 < left_over (fst st)"
  then have "length (snd st) = left_over rs0" using sched_invD(2)[OF assms(1)] by linarith
  then show False using assms(2) by (simp add: sched_guard_def sum_list_words)
qed

lemma sched_body_decreases:
  assumes "sched_inv rs0 st" "sched_guard (sum_list rs0) st"
  shows "left_over (fst (sched_body st)) < left_over (fst st)"
proof -
  have "snd (sched_pass 0 (fst st)) \<noteq> []"
    using sched_guard_left[OF assms] by (rule sched_pass_progress)
  then have "0 < length (snd (sched_pass 0 (fst st)))" by simp
  then have "left_over (fst (sched_pass 0 (fst st))) < left_over (fst st)"
    using sched_pass_total[of 0 "fst st"] by linarith
  then show ?thesis by (simp add: sched_body_def case_prod_unfold Let_def)
qed

lemma sched_loop_result:
  fixes rs0 :: "u32 list"
  defines "res \<equiv> while (sched_guard (sum_list rs0)) sched_body (rs0, [])"
  shows "sched_inv rs0 res" "\<not> sched_guard (sum_list rs0) res"
proof -
  have "sched_inv rs0 res \<and> \<not> sched_guard (sum_list rs0) res"
    unfolding res_def
  proof (rule while_rule[where P = "sched_inv rs0" and r = "measure (left_over \<circ> fst)"])
    show "sched_inv rs0 (rs0, [])" by (rule sched_inv_init)
  qed (auto simp: sched_inv_body sched_body_decreases)
  then show "sched_inv rs0 res" "\<not> sched_guard (sum_list rs0) res" by simp_all
qed

lemma length_sched_remaining [simp]: "length (sched_remaining ws) = length ws"
  by (simp add: sched_remaining_def)

lemma build_schedule_range: "i \<in> set (build_schedule ws) \<Longrightarrow> i < length ws"
  using sched_loop_result(1)[of "sched_remaining ws"]
  by (auto simp: build_schedule_def Let_def sched_inv_def split: if_splits)

lemma build_schedule_count:
  assumes fits: "sum_list (map (\<lambda>w. unat w div weight_gcd ws) ws) < 2 ^ 32"
    and i: "i < length ws"
  shows "count_list (build_schedule ws) i = unat (ws ! i) div weight_gcd ws"
proof -
  let ?rs = "sched_remaining ws"
  let ?res = "while (sched_guard (sum_list ?rs)) sched_body (?rs, [])"
  have inv: "sched_inv ?rs ?res" and stop: "\<not> sched_guard (sum_list ?rs) ?res"
    by (rule sched_loop_result)+
  have total: "left_over ?rs < 2 ^ 32" using fits by (simp add: unat_sched_remaining)
  note facts = sched_invD[OF inv]
  have "length (snd ?res) \<le> left_over ?rs" using facts(2) by linarith
  then have "left_over ?rs \<le> length (snd ?res)"
    using stop total
    by (simp add: sched_guard_def sum_list_words word_less_nat_alt unat_of_nat)
  then have "left_over (fst ?res) = 0" using facts(2) by linarith
  then have "unat (fst ?res ! i) = 0"
    using i facts(1) by simp
  then have "count_list (snd ?res) i = unat (?rs ! i)"
    using facts(4)[of i] i by simp
  moreover have "unat (?rs ! i) = unat (ws ! i) div weight_gcd ws"
    using arg_cong[OF unat_sched_remaining, of "\<lambda>l. l ! i" ws] i by simp
  moreover have "ws \<noteq> []" using i by auto
  ultimately show ?thesis by (simp add: build_schedule_def Let_def)
qed



section \<open>Walking the schedule\<close>

text \<open>Every schedule entry names a target: what \<open>build_snapshot\<close> establishes.\<close>

definition up_wf :: "UpstreamRuntime \<Rightarrow> bool" where
  "up_wf u = (\<forall>i \<in> set (up_schedule u). i < length (up_targets u))"

definition healthy_at :: "UpstreamRuntime \<Rightarrow> nat \<Rightarrow> bool" where
  "healthy_at u i = is_healthy (tr_state (up_targets u ! i))"

text \<open>The schedule entry that the \<open>k\<close>-th \<open>fetch_add\<close> from now reads.\<close>

definition slot_at :: "UpstreamRuntime \<Rightarrow> nat \<Rightarrow> nat" where
  "slot_at u k = up_schedule u ! (unat (up_next u + of_nat k) mod length (up_schedule u))"

lemma slot_at_mem: "up_schedule u \<noteq> [] \<Longrightarrow> slot_at u k \<in> set (up_schedule u)"
  by (simp add: slot_at_def)

lemma pick_iter_wf:
  assumes "up_wf u" "up_schedule u \<noteq> []"
  shows "pick_iter u =
    (if healthy_at u (slot_at u 0) then Some (Picked (slot_at u 0)) else None,
     u\<lparr>up_next := up_next u + 1\<rparr>)"
proof -
  have "slot_at u 0 < length (up_targets u)"
    using assms slot_at_mem[of u 0] by (auto simp: up_wf_def)
  then show ?thesis
    by (simp add: pick_iter_def slot_at_def healthy_at_def get_at_def Let_def)
qed

text \<open>The whole loop, as the first healthy entry among the next \<open>n\<close>.\<close>

lemma pick_loop_find:
  assumes "up_wf u" "up_schedule u \<noteq> []"
  shows "pick_loop n u =
    (case find (\<lambda>k. healthy_at u (slot_at u k)) [0..<n] of
       None \<Rightarrow> (NoneHealthy, u\<lparr>up_next := up_next u + of_nat n\<rparr>)
     | Some k \<Rightarrow> (Picked (slot_at u k), u\<lparr>up_next := up_next u + of_nat (Suc k)\<rparr>))"
  using assms
proof (induction n arbitrary: u)
  case 0
  then show ?case by simp
next
  case (Suc n)
  let ?u' = "u\<lparr>up_next := up_next u + 1\<rparr>"
  have upt: "[0..<Suc n] = 0 # map Suc [0..<n]"
    by (simp add: map_Suc_upt upt_conv_Cons)
  have shift: "slot_at ?u' k = slot_at u (Suc k)" "healthy_at ?u' i = healthy_at u i" for k i
    by (simp_all add: slot_at_def healthy_at_def add.commute add.left_commute)
  have find_shift: "find (\<lambda>k. healthy_at u (slot_at u k)) (map Suc [0..<n]) =
      map_option Suc (find (\<lambda>k. healthy_at ?u' (slot_at ?u' k)) [0..<n])"
    by (simp add: find_map_conv shift comp_def)
  have "up_wf ?u'" "up_schedule ?u' \<noteq> []" using Suc.prems by (simp_all add: up_wf_def)
  note IH = Suc.IH[OF this]
  show ?case
    using IH Suc.prems
    by (simp add: upt find_shift pick_iter_wf shift(1) add.assoc del: upt_Suc
        split: option.splits)
qed


lemma pick_target_find:
  assumes "up_wf u"
  shows "pick_target u =
    (case find (\<lambda>k. healthy_at u (slot_at u k)) [0..<length (up_schedule u)] of
       None \<Rightarrow> (NoneHealthy, u\<lparr>up_next := up_next u + of_nat (length (up_schedule u))\<rparr>)
     | Some k \<Rightarrow> (Picked (slot_at u k), u\<lparr>up_next := up_next u + of_nat (Suc k)\<rparr>))"
  using pick_loop_find[OF assms] by (cases "up_schedule u = []") (simp_all add: pick_target_def Let_def)

lemma pick_target_Picked:
  assumes "up_wf u" "fst (pick_target u) = Picked i"
  shows "i < length (up_targets u)" "healthy_at u i" "i \<in> set (up_schedule u)"
proof -
  obtain k where k: "find (\<lambda>k. healthy_at u (slot_at u k)) [0..<length (up_schedule u)] = Some k"
    and i: "i = slot_at u k"
    using assms(2) by (auto simp: pick_target_find[OF assms(1)] split: option.splits)
  have "k < length (up_schedule u)" "healthy_at u (slot_at u k)"
    using find_upt_SomeD[OF k] by simp_all
  then have "up_schedule u \<noteq> []" "healthy_at u (slot_at u k)" by auto
  then show "healthy_at u i" "i \<in> set (up_schedule u)" using i slot_at_mem[of u k] by auto
  then show "i < length (up_targets u)" using assms(1) by (auto simp: up_wf_def)
qed

lemma pick_target_not_panic: "up_wf u \<Longrightarrow> fst (pick_target u) \<noteq> IndexPanic"
  by (simp add: pick_target_find split: option.splits)

lemma pick_target_frame:
  assumes "up_wf u"
  shows "snd (pick_target u) = u\<lparr>up_next := up_next (snd (pick_target u))\<rparr>"
  by (simp add: pick_target_find[OF assms] split: option.splits)

text \<open>Without wrap-around the slots are consecutive, so a whole turn sees every entry.\<close>

lemma slot_at_no_wrap:
  assumes "unat (up_next u) + k < 2 ^ 64"
  shows "slot_at u k = up_schedule u ! ((unat (up_next u) + k) mod length (up_schedule u))"
proof -
  have "unat (up_next u + of_nat k) = unat (up_next u) + k"
    using assms by (simp add: unat_word_ariths unat_of_nat)
  then show ?thesis by (simp add: slot_at_def)
qed

lemma map_nth_rotate: "map (\<lambda>k. xs ! ((b + k) mod length xs)) [0..<length xs] = rotate b xs"
  by (rule nth_equalityI) (simp_all add: nth_rotate)

lemma slots_of_turn:
  assumes "unat (up_next u) + length (up_schedule u) \<le> 2 ^ 64"
  shows "map (slot_at u) [0..<length (up_schedule u)] = rotate (unat (up_next u)) (up_schedule u)"
  using assms by (subst map_nth_rotate[symmetric]) (simp add: slot_at_no_wrap)

lemma pick_target_NoneHealthy_iff:
  assumes "up_wf u" and wrap: "unat (up_next u) + length (up_schedule u) \<le> 2 ^ 64"
  shows "fst (pick_target u) = NoneHealthy \<longleftrightarrow> (\<forall>i \<in> set (up_schedule u). \<not> healthy_at u i)"
proof -
  have "fst (pick_target u) = NoneHealthy \<longleftrightarrow>
      (\<forall>k < length (up_schedule u). \<not> healthy_at u (slot_at u k))"
    by (auto simp: pick_target_find[OF assms(1)] find_upt_None_iff[symmetric] split: option.splits)
  also have "\<dots> \<longleftrightarrow> (\<forall>i \<in> set (map (slot_at u) [0..<length (up_schedule u)]). \<not> healthy_at u i)"
    by auto
  also have "\<dots> \<longleftrightarrow> (\<forall>i \<in> set (up_schedule u). \<not> healthy_at u i)"
    by (simp only: slots_of_turn[OF wrap] set_rotate)
  finally show ?thesis .
qed


section \<open>Consecutive picks\<close>

primrec picks :: "nat \<Rightarrow> UpstreamRuntime \<Rightarrow> pick list \<times> UpstreamRuntime" where
  "picks 0 u = ([], u)"
| "picks (Suc n) u =
     (let (r, u1) = pick_target u; (rs, u2) = picks n u1 in (r # rs, u2))"

lemma pick_target_all_healthy:
  assumes "up_wf u" "up_schedule u \<noteq> []" "\<forall>i \<in> set (up_schedule u). healthy_at u i"
  shows "pick_target u = (Picked (slot_at u 0), u\<lparr>up_next := up_next u + 1\<rparr>)"
proof -
  have "[0..<length (up_schedule u)] = 0 # [1..<length (up_schedule u)]"
    using assms(2) by (simp add: upt_conv_Cons)
  then show ?thesis
    using assms slot_at_mem[OF assms(2)] by (simp add: pick_target_find)
qed

lemma picks_all_healthy:
  assumes "up_wf u" "up_schedule u \<noteq> []" "\<forall>i \<in> set (up_schedule u). healthy_at u i"
  shows "picks n u = (map (\<lambda>k. Picked (slot_at u k)) [0..<n], u\<lparr>up_next := up_next u + of_nat n\<rparr>)"
  using assms
proof (induction n arbitrary: u)
  case 0
  then show ?case by simp
next
  case (Suc n)
  let ?u' = "u\<lparr>up_next := up_next u + 1\<rparr>"
  have keep: "up_wf ?u'" "up_schedule ?u' \<noteq> []" "\<forall>i \<in> set (up_schedule ?u'). healthy_at ?u' i"
    using Suc.prems by (simp_all add: up_wf_def healthy_at_def)
  have shift: "slot_at ?u' k = slot_at u (Suc k)" for k
    by (simp add: slot_at_def add.commute add.left_commute)
  have upt: "[0..<Suc n] = 0 # map Suc [0..<n]"
    by (simp add: map_Suc_upt upt_conv_Cons)
  show ?case
    using Suc.IH[OF keep] by (simp add: pick_target_all_healthy[OF Suc.prems] upt shift add.assoc
        comp_def del: upt_Suc)
qed

lemma count_list_map_inj:
  assumes "inj f"
  shows "count_list (map f xs) (f x) = count_list xs x"
  using assms by (induction xs) (auto simp: inj_eq)

lemma count_list_rotate: "count_list (rotate n xs) x = count_list xs x"
proof -
  let ?m = "n mod length xs"
  have "count_list (rotate n xs) x = count_list (take ?m xs) x + count_list (drop ?m xs) x"
    by (simp add: rotate_drop_take)
  also have "\<dots> = count_list (take ?m xs @ drop ?m xs) x"
    by (simp only: count_list_append)
  finally show ?thesis by simp
qed

text \<open>Over a full turn every target is picked as often as it occurs in the schedule.\<close>

lemma picks_turn_count:
  assumes "up_wf u" "\<forall>i \<in> set (up_schedule u). healthy_at u i"
    and "unat (up_next u) + length (up_schedule u) \<le> 2 ^ 64"
  shows "count_list (fst (picks (length (up_schedule u)) u)) (Picked i) = count_list (up_schedule u) i"
proof (cases "up_schedule u = []")
  case True
  then show ?thesis by simp
next
  case False
  have "fst (picks (length (up_schedule u)) u) = map Picked (map (slot_at u) [0..<length (up_schedule u)])"
    using picks_all_healthy[OF assms(1) False assms(2)] by (simp add: comp_def)
  then show ?thesis
    by (simp add: slots_of_turn[OF assms(3)] count_list_map_inj[of Picked] inj_def count_list_rotate
        del: map_map)
qed



section \<open>Properties\<close>

text \<open>C26. The \<open>while\<close> loop of \<open>build_schedule\<close> always ends, whatever the weights, even when the
  \<open>u32\<close> total wraps: the loop has a result, and its schedule only holds indices of targets.\<close>

theorem build_schedule_terminates:
  "(\<exists>st. while_option (sched_guard (sum_list (sched_remaining ws))) sched_body
            (sched_remaining ws, []) = Some st) \<and>
   set (build_schedule ws) \<subseteq> {..<length ws}"
proof -
  let ?P = "sched_inv (sched_remaining ws)"
  have "\<exists>st. while_option (sched_guard (sum_list (sched_remaining ws))) sched_body
      (sched_remaining ws, []) = Some st"
    by (rule measure_while_option_Some[where P = ?P and f = "left_over \<circ> fst"])
      (auto simp: sched_inv_init sched_inv_body sched_body_decreases)
  then show ?thesis using build_schedule_range by auto
qed

text \<open>The schedule honours the weights: when the gcd-reduced weights add up below \<open>2^32\<close>,
  target \<open>i\<close> occurs in it exactly weight over gcd times.\<close>

theorem build_schedule_honours_weights:
  assumes "sum_list (map (\<lambda>w. unat w div weight_gcd ws) ws) < 2 ^ 32" and "i < length ws"
  shows "count_list (build_schedule ws) i = unat (ws ! i) div weight_gcd ws"
  using assms by (rule build_schedule_count)

theorem build_schedule_honours_weights_witness:
  "count_list (build_schedule [6, 4]) 0 = 3 \<and> count_list (build_schedule [6, 4]) 1 = 2"
proof -
  have g: "weight_gcd [6, 4] = 2" by code_simp
  show ?thesis
    using build_schedule_honours_weights[of "[6, 4]" 0] build_schedule_honours_weights[of "[6, 4]" 1]
    by (simp add: g)
qed

text \<open>Weights whose reduced sum reaches \<open>2^32\<close> are accepted by validation and not honoured:
  the wrapped total ends the loop after one pass, so 4294967295 : 2 is scheduled 1 : 1.\<close>

theorem build_schedule_overflow:
  "build_schedule [4294967295, 2] = [0, 1] \<and>
   sum_list (map unat [4294967295, 2 :: u32]) = 2 ^ 32 + 1"
proof
  show "build_schedule [4294967295, 2] = [0, 1]" by code_simp
  show "sum_list (map unat [4294967295, 2 :: u32]) = 2 ^ 32 + 1" by simp
qed

text \<open>C11. \<open>pick_target\<close> on a well-formed upstream: it never indexes out of range; a target it
  returns is scheduled and healthy; and as long as the counter does not wrap during the
  call, it returns none exactly when no scheduled target is healthy.\<close>

theorem pick_target_correct:
  assumes "up_wf u"
  shows "case fst (pick_target u) of
      IndexPanic \<Rightarrow> False
    | Picked i \<Rightarrow> i < length (up_targets u) \<and> i \<in> set (up_schedule u) \<and> healthy_at u i
    | NoneHealthy \<Rightarrow>
        unat (up_next u) + length (up_schedule u) \<le> 2 ^ 64 \<longrightarrow>
        (\<forall>i \<in> set (up_schedule u). \<not> healthy_at u i)"
  using pick_target_not_panic[OF assms] pick_target_Picked[OF assms]
    pick_target_NoneHealthy_iff[OF assms]
  by (cases "fst (pick_target u)") auto

text \<open>C25. Weighted round-robin: with every target healthy, in any full turn of the schedule
  target \<open>i\<close> receives exactly weight over gcd picks, wherever the turn starts. Two bounds of the
  machine are hypotheses: the weights divided by their gcd add up below \<open>2^32\<close>, where the
  \<open>u32\<close> sum of the schedule's length wraps, and the pick counter does not wrap at \<open>2^64\<close> within
  the turn.\<close>

theorem weighted_round_robin:
  assumes "up_schedule u = build_schedule ws" and "length (up_targets u) = length ws"
    and "\<forall>i \<in> set (up_schedule u). healthy_at u i"
    and "sum_list (map (\<lambda>w. unat w div weight_gcd ws) ws) < 2 ^ 32"
    and "unat (up_next u) + length (up_schedule u) \<le> 2 ^ 64"
    and "i < length ws"
  shows "count_list (fst (picks (length (up_schedule u)) u)) (Picked i)
    = unat (ws ! i) div weight_gcd ws"
proof -
  have "up_wf u" using assms(1,2) build_schedule_range by (auto simp: up_wf_def)
  then show ?thesis
    using picks_turn_count[OF _ assms(3,5)] build_schedule_count[OF assms(4,6)] assms(1) by simp
qed

definition example_target :: "string \<Rightarrow> TargetRuntime" where
  "example_target url = \<lparr>tr_url = url, tr_state = HealthState_new True 1 1\<rparr>"

definition example_upstream :: "u32 list \<Rightarrow> UpstreamRuntime" where
  "example_upstream ws =
     \<lparr>up_targets = map (\<lambda>_. example_target ''http://a'') ws, up_health = None, up_retry = None,
      up_tls_insecure = False, up_schedule = build_schedule ws, up_next = 5\<rparr>"

lemma example_upstream_healthy:
  "\<forall>i \<in> set (up_schedule (example_upstream ws)). healthy_at (example_upstream ws) i"
  using build_schedule_range[of _ ws]
  by (simp add: example_upstream_def healthy_at_def example_target_def)

theorem pick_target_correct_witness:
  "up_wf (example_upstream [3, 1]) \<and> fst (pick_target (example_upstream [3, 1])) = Picked 1"
proof -
  have wf: "up_wf (example_upstream [3, 1])" by code_simp
  have "fst (pick_target (example_upstream [3, 1])) = Picked 1" by code_simp
  then show ?thesis using wf pick_target_correct[OF wf] by simp
qed

theorem weighted_round_robin_witness:
  "count_list (fst (picks (length (up_schedule (example_upstream [3, 1]))) (example_upstream [3, 1])))
     (Picked 0) = 3"
proof -
  have g: "weight_gcd [3, 1] = 1" by code_simp
  have s: "build_schedule [3, 1] = [0, 1, 0, 0]" by code_simp
  show ?thesis
    using weighted_round_robin[of "example_upstream [3, 1]" "[3, 1]" 0]
      example_upstream_healthy[of "[3, 1]"]
    by (simp add: example_upstream_def g s)
qed

end
