(* ===== verification/Pick_Concurrent.thy ===== *)
theory Pick_Concurrent
  imports Upstream
begin

text \<open>
  \<open>pick_target\<close> under concurrency. Request tasks share one \<open>UpstreamRuntime\<close>: each turn
  of the loop is one atomic \<open>fetch_add\<close> on \<open>next\<close> followed by a read of the target's
  health flag, and turns of different tasks interleave freely, as do \<open>observe\<close> calls.
  The step relation has one rule per such event.
\<close>

datatype pick_task =
    Idle
  | Walking nat        \<comment> \<open>iterations left\<close>
  | Finished pick

record pick_sys =
  ps_up :: UpstreamRuntime
  ps_task :: "nat \<Rightarrow> pick_task"

text \<open>What an iteration leaves for the task: a result, or one turn less.\<close>

fun after_iter :: "nat \<Rightarrow> pick option \<Rightarrow> pick_task" where
  "after_iter n (Some r) = Finished r"
| "after_iter n None = Walking n"

inductive pick_step :: "pick_sys \<Rightarrow> pick_sys \<Rightarrow> bool" where
  call: "ps_task s t = Idle \<or> ps_task s t = Finished r \<Longrightarrow>
     pick_step s (s\<lparr>ps_task := (ps_task s)(t := Walking (length (up_schedule (ps_up s))))\<rparr>)"
| turn: "ps_task s t = Walking (Suc n) \<Longrightarrow> pick_iter (ps_up s) = (r, u) \<Longrightarrow>
     pick_step s (s\<lparr>ps_up := u, ps_task := (ps_task s)(t := after_iter n r)\<rparr>)"
| exhausted: "ps_task s t = Walking 0 \<Longrightarrow>
     pick_step s (s\<lparr>ps_task := (ps_task s)(t := Finished NoneHealthy)\<rparr>)"
| health: "i < length (up_targets (ps_up s)) \<Longrightarrow>
     pick_step s (s\<lparr>ps_up := observe_target now i success (ps_up s)\<rparr>)"

inductive_cases pick_stepE: "pick_step s s'"

definition pick_init :: "pick_sys \<Rightarrow> bool" where
  "pick_init s \<longleftrightarrow> up_wf (ps_up s) \<and> (\<forall>t. ps_task s t = Idle)"

text \<open>
  The invariant: the schedule stays in range; a walking task can only be one over a
  non-empty schedule; a finished task has not panicked and names an existing target.
\<close>

fun task_ok :: "nat list \<Rightarrow> pick_task \<Rightarrow> bool" where
  "task_ok sched Idle = True"
| "task_ok sched (Walking n) = (0 < n \<longrightarrow> sched \<noteq> [])"
| "task_ok sched (Finished (Picked i)) = (i \<in> set sched)"
| "task_ok sched (Finished NoneHealthy) = True"
| "task_ok sched (Finished IndexPanic) = False"

definition pick_inv :: "pick_sys \<Rightarrow> bool" where
  "pick_inv s \<longleftrightarrow> up_wf (ps_up s) \<and> (\<forall>t. task_ok (up_schedule (ps_up s)) (ps_task s t))"

lemma observe_target_frame [simp]:
  "up_schedule (observe_target now i b u) = up_schedule u"
  "length (up_targets (observe_target now i b u)) = length (up_targets u)"
  "up_next (observe_target now i b u) = up_next u"
  "up_wf (observe_target now i b u) = up_wf u"
  by (simp_all add: observe_target_def up_wf_def)

lemma pick_iter_frame:
  assumes "pick_iter u = (r, u')"
  shows "u' = u\<lparr>up_next := up_next u + 1\<rparr>"
  using assms by (auto simp: pick_iter_def Let_def split: option.splits if_splits)

lemma pick_iter_result:
  assumes "up_wf u" "up_schedule u \<noteq> []" "pick_iter u = (Some r, u')"
  shows "\<exists>i. r = Picked i \<and> i \<in> set (up_schedule u) \<and> healthy_at u i"
  using assms slot_at_mem[OF assms(2), of 0]
  by (auto simp: pick_iter_wf split: if_splits)

lemma pick_inv_step:
  assumes inv: "pick_inv s" and step: "pick_step s s'"
  shows "pick_inv s'"
  using step
proof cases
  case (turn t n r u)
  have wf: "up_wf (ps_up s)" and ne: "up_schedule (ps_up s) \<noteq> []"
    using inv turn(2) by (auto simp: pick_inv_def dest: spec[of _ t])
  have u: "u = (ps_up s)\<lparr>up_next := up_next (ps_up s) + 1\<rparr>"
    using turn(3) by (rule pick_iter_frame)
  have "task_ok (up_schedule (ps_up s)) (after_iter n r)"
    using pick_iter_result[OF wf ne] turn(3) ne by (cases r) auto
  then show ?thesis using inv turn(1) u by (simp add: pick_inv_def up_wf_def)
qed (use inv in \<open>simp_all add: pick_inv_def\<close>)

interpretation concurrent_pick: invariant_system pick_init pick_step pick_inv
proof
  show "pick_init s \<Longrightarrow> pick_inv s" for s by (simp add: pick_init_def pick_inv_def)
qed (rule pick_inv_step)


section \<open>Properties\<close>

text \<open>In every interleaving of any number of request tasks with each other and with health
  observations, no task panics on the schedule, and a finished pick names an existing
  target of the group.\<close>

theorem concurrent_pick_safe:
  assumes "pick_init s" and "pick_step\<^sup>*\<^sup>* s s'" and "ps_task s' t = Finished r"
  shows "r \<noteq> IndexPanic \<and> (\<forall>i. r = Picked i \<longrightarrow> i < length (up_targets (ps_up s')))"
proof -
  have "pick_inv s'" using assms(1,2) by (rule concurrent_pick.inv_reachable)
  then have "up_wf (ps_up s')" "task_ok (up_schedule (ps_up s')) (Finished r)"
    using assms(3) by (auto simp: pick_inv_def dest: spec[of _ t])
  then show ?thesis by (cases r) (auto simp: up_wf_def)
qed

text \<open>A task's result is decided by the health flag read in the same step.\<close>

lemma pick_step_healthy:
  assumes "pick_inv s" "pick_step s s'"
    and "ps_task s' t = Finished (Picked i)" "ps_task s t \<noteq> Finished (Picked i)"
  shows "healthy_at (ps_up s) i"
  using assms(2)
proof cases
  case (turn t' n r u)
  have "up_wf (ps_up s)" "up_schedule (ps_up s) \<noteq> []"
    using assms(1) turn(2) by (auto simp: pick_inv_def dest: spec[of _ t'])
  then show ?thesis
    using pick_iter_result[of "ps_up s"] turn assms(3,4) by (cases r) (auto split: if_splits)
qed (use assms(3,4) in \<open>auto split: if_splits\<close>)


section \<open>One healthy target, and a pick that finds none\<close>

text \<open>A group of two targets with weights 1 and 1, of which only the second is healthy.\<close>

definition half_down :: UpstreamRuntime where
  "half_down = observe_target 0 0 False ((example_upstream [1, 1])\<lparr>up_next := 0\<rparr>)"

definition tasks2 :: "pick_task \<Rightarrow> pick_task \<Rightarrow> nat \<Rightarrow> pick_task" where
  "tasks2 a b t = (if t = 0 then a else if t = 1 then b else Idle)"

definition sys2 :: "usize \<Rightarrow> pick_task \<Rightarrow> pick_task \<Rightarrow> pick_sys" where
  "sys2 n a b = \<lparr>ps_up = half_down\<lparr>up_next := n\<rparr>, ps_task = tasks2 a b\<rparr>"

lemma tasks2_upd [simp]:
  "(tasks2 a b)(0 := c) = tasks2 c b"
  "(tasks2 a b)(Suc 0 := c) = tasks2 a c"
  by (auto simp: tasks2_def fun_eq_iff)

lemma tasks2_at [simp]: "tasks2 a b 0 = a" "tasks2 a b (Suc 0) = b"
  by (simp_all add: tasks2_def)

lemma half_down_schedule: "up_schedule half_down = [0, 1]"
  by code_simp

lemma half_down_iter:
  "pick_iter (half_down\<lparr>up_next := 0\<rparr>) = (None, half_down\<lparr>up_next := 1\<rparr>)"
  "pick_iter (half_down\<lparr>up_next := 1\<rparr>) = (Some (Picked 1), half_down\<lparr>up_next := 2\<rparr>)"
  "pick_iter (half_down\<lparr>up_next := 2\<rparr>) = (None, half_down\<lparr>up_next := 3\<rparr>)"
  by code_simp+

lemma half_down_run:
  "pick_step\<^sup>*\<^sup>* (sys2 0 Idle Idle) (sys2 3 (Finished NoneHealthy) (Finished (Picked 1)))"
proof -
  note s = sys2_def half_down_schedule
  have s1: "pick_step (sys2 0 Idle Idle) (sys2 0 (Walking 2) Idle)"
    using pick_step.call[of "sys2 0 Idle Idle" 0 NoneHealthy] by (simp add: s numeral_2_eq_2)
  have s2: "pick_step (sys2 0 (Walking 2) Idle) (sys2 0 (Walking 2) (Walking 2))"
    using pick_step.call[of "sys2 0 (Walking 2) Idle" 1 NoneHealthy] by (simp add: s numeral_2_eq_2)
  have s3: "pick_step (sys2 0 (Walking 2) (Walking 2)) (sys2 1 (Walking 1) (Walking 2))"
    using pick_step.turn[of "sys2 0 (Walking 2) (Walking 2)" 0 1] half_down_iter(1)
    by (simp add: s numeral_2_eq_2)
  have s4: "pick_step (sys2 1 (Walking 1) (Walking 2)) (sys2 2 (Walking 1) (Finished (Picked 1)))"
    using pick_step.turn[of "sys2 1 (Walking 1) (Walking 2)" 1 1] half_down_iter(2)
    by (simp add: s numeral_2_eq_2)
  have s5: "pick_step (sys2 2 (Walking 1) (Finished (Picked 1))) (sys2 3 (Walking 0) (Finished (Picked 1)))"
    using pick_step.turn[of "sys2 2 (Walking 1) (Finished (Picked 1))" 0 0] half_down_iter(3)
    by (simp add: s)
  have s6: "pick_step (sys2 3 (Walking 0) (Finished (Picked 1)))
      (sys2 3 (Finished NoneHealthy) (Finished (Picked 1)))"
    using pick_step.exhausted[of "sys2 3 (Walking 0) (Finished (Picked 1))" 0] by (simp add: s)
  show ?thesis
    using s1 s2 s3 s4 s5 s6 by (meson converse_rtranclp_into_rtranclp rtranclp.rtrancl_refl)
qed

lemma sys2_init: "pick_init (sys2 0 Idle Idle)"
proof -
  have "up_wf (half_down\<lparr>up_next := 0\<rparr>)" by code_simp
  then show ?thesis by (simp add: pick_init_def sys2_def tasks2_def)
qed

theorem concurrent_pick_safe_witness:
  "\<exists>s'. pick_step\<^sup>*\<^sup>* (sys2 0 Idle Idle) s' \<and> ps_task s' 1 = Finished (Picked 1) \<and>
        1 < length (up_targets (ps_up s'))"
proof -
  let ?s' = "sys2 3 (Finished NoneHealthy) (Finished (Picked 1))"
  have t: "ps_task ?s' 1 = Finished (Picked 1)" by (simp add: sys2_def)
  show ?thesis
    using concurrent_pick_safe[OF sys2_init half_down_run t] half_down_run t by blast
qed

text \<open>The atomic counter is shared, so a task does not see consecutive slots: with two tasks
  interleaving over a group whose second target is healthy throughout, one of them skips
  past it and reports that no target is healthy.\<close>

theorem concurrent_pick_misses_healthy:
  "\<exists>s s'. pick_init s \<and> pick_step\<^sup>*\<^sup>* s s' \<and> ps_task s' 0 = Finished NoneHealthy \<and>
     healthy_at (ps_up s) 1 \<and> healthy_at (ps_up s') 1 \<and> 1 \<in> set (up_schedule (ps_up s))"
proof -
  have "healthy_at (half_down\<lparr>up_next := 0\<rparr>) 1" "healthy_at (half_down\<lparr>up_next := 3\<rparr>) 1"
    by code_simp+
  then have "healthy_at (ps_up (sys2 0 Idle Idle)) 1"
    "healthy_at (ps_up (sys2 3 (Finished NoneHealthy) (Finished (Picked 1)))) 1"
    "ps_task (sys2 3 (Finished NoneHealthy) (Finished (Picked 1))) 0 = Finished NoneHealthy"
    "1 \<in> set (up_schedule (ps_up (sys2 0 Idle Idle)))"
    by (simp_all add: sys2_def half_down_schedule)
  then show ?thesis using sys2_init half_down_run by blast
qed

end
