(* ===== verification/Health_Concurrent.thy ===== *)
theory Health_Concurrent
  imports Health
begin

text \<open>
  \<open>observe\<close> under concurrency (\<open>gatepup-proxy/src/health.rs\<close>). Request tasks and probe loops call
  it on one shared target; its five accesses to the atomics are steps of their own and
  interleave freely. The modification orders of the two counters are kept as logs, newest
  entry first: for \<open>failures\<close> an entry is a counted failure or a success that clears it, and
  the other way round for \<open>successes\<close>.
\<close>

section \<open>The steps of a call\<close>

text \<open>Where a task is inside \<open>observe(success)\<close>: before its next access.\<close>

datatype observe_pc =
    Quiet
  | Called bool           \<comment> \<open>\<open>last_check_ms.store\<close>\<close>
  | Stamped bool          \<comment> \<open>\<open>store(0)\<close> on the other counter\<close>
  | Cleared bool          \<comment> \<open>\<open>fetch_add\<close> on its own counter\<close>
  | Counted bool u32      \<comment> \<open>\<open>is_healthy()\<close>, with the streak\<close>
  | Decided bool          \<comment> \<open>\<open>healthy.store\<close>\<close>

record health_sys =
  hc_state :: health_state
  hc_pc :: "nat \<Rightarrow> observe_pc"
  hc_flog :: "bool list"
  hc_slog :: "bool list"

definition clear_other :: "bool \<Rightarrow> health_state \<Rightarrow> health_state" where
  "clear_other ok h = (if ok then h\<lparr>failures := 0\<rparr> else h\<lparr>successes := 0\<rparr>)"

definition count_own :: "bool \<Rightarrow> health_state \<Rightarrow> u32 \<times> health_state" where
  "count_own ok h =
     (if ok then (successes h + 1, h\<lparr>successes := successes h + 1\<rparr>)
      else (failures h + 1, h\<lparr>failures := failures h + 1\<rparr>))"

text \<open>The condition of the transition, evaluated on the flag read now.\<close>

definition flips :: "bool \<Rightarrow> u32 \<Rightarrow> health_state \<Rightarrow> bool" where
  "flips ok streak h =
     (if ok then \<not> is_healthy h \<and> healthy_threshold h \<le> streak
      else is_healthy h \<and> unhealthy_threshold h \<le> streak)"

text \<open>The next access of task \<open>t\<close>; \<open>now\<close> is the clock it would read.\<close>

definition set_pc :: "nat \<Rightarrow> observe_pc \<Rightarrow> health_sys \<Rightarrow> health_sys" where
  "set_pc t p s = s\<lparr>hc_pc := (hc_pc s)(t := p)\<rparr>"

definition do_clear :: "bool \<Rightarrow> health_sys \<Rightarrow> health_sys" where
  "do_clear ok s =
     (if ok then s\<lparr>hc_state := clear_other ok (hc_state s), hc_flog := True # hc_flog s\<rparr>
      else s\<lparr>hc_state := clear_other ok (hc_state s), hc_slog := False # hc_slog s\<rparr>)"

definition do_count :: "bool \<Rightarrow> health_sys \<Rightarrow> health_sys" where
  "do_count ok s =
     (if ok then s\<lparr>hc_state := snd (count_own ok (hc_state s)), hc_slog := True # hc_slog s\<rparr>
      else s\<lparr>hc_state := snd (count_own ok (hc_state s)), hc_flog := False # hc_flog s\<rparr>)"

definition observe_access :: "nat \<Rightarrow> u64 \<Rightarrow> health_sys \<Rightarrow> health_sys" where
  "observe_access t now s =
     (case hc_pc s t of
        Quiet \<Rightarrow> s
      | Called ok \<Rightarrow> set_pc t (Stamped ok) (s\<lparr>hc_state := (hc_state s)\<lparr>last_check_ms := now\<rparr>\<rparr>)
      | Stamped ok \<Rightarrow> set_pc t (Cleared ok) (do_clear ok s)
      | Cleared ok \<Rightarrow> set_pc t (Counted ok (fst (count_own ok (hc_state s)))) (do_count ok s)
      | Counted ok streak \<Rightarrow> set_pc t (if flips ok streak (hc_state s) then Decided ok else Quiet) s
      | Decided ok \<Rightarrow> set_pc t Quiet (s\<lparr>hc_state := (hc_state s)\<lparr>healthy := ok\<rparr>\<rparr>))"

inductive observe_step :: "health_sys \<Rightarrow> health_sys \<Rightarrow> bool" where
  call: "hc_pc s t = Quiet \<Longrightarrow> managed (hc_state s) \<Longrightarrow> observe_step s (set_pc t (Called ok) s)"
| access: "observe_step s (observe_access t now s)"

definition observe_start :: "bool \<Rightarrow> u32 \<Rightarrow> u32 \<Rightarrow> health_sys" where
  "observe_start m h u = \<lparr>hc_state = HealthState_new m h u, hc_pc = (\<lambda>_. Quiet), hc_flog = [], hc_slog = []\<rparr>"

lemma set_pc_simps [simp]:
  "hc_state (set_pc t p s) = hc_state s" "hc_flog (set_pc t p s) = hc_flog s" "hc_slog (set_pc t p s) = hc_slog s"
  "hc_pc (set_pc t p s) = (hc_pc s)(t := p)"
  by (simp_all add: set_pc_def)

lemma do_frame [simp]:
  "hc_pc (do_clear ok s) = hc_pc s" "hc_pc (do_count ok s) = hc_pc s"
  "hc_state (do_clear ok s) = clear_other ok (hc_state s)" "hc_state (do_count ok s) = snd (count_own ok (hc_state s))"
  by (simp_all add: do_clear_def do_count_def)


section \<open>A call on its own is the sequential operation\<close>

lemma observe_accesses: "observe_step\<^sup>*\<^sup>* s ((observe_access t now ^^ n) s)"
proof (induction n)
  case (Suc n)
  then show ?case using observe_step.access[of "(observe_access t now ^^ n) s" t now] by (simp add: rtranclp.rtrancl_into_rtrancl)
qed simp

lemma observe_five:
  assumes "managed (hc_state s)"
  shows "hc_state ((observe_access t now ^^ 5) (set_pc t (Called ok) s)) = observe now ok (hc_state s) \<and>
    hc_pc ((observe_access t now ^^ 5) (set_pc t (Called ok) s)) = (hc_pc s)(t := Quiet)"
  using assms
  by (cases ok) (simp_all add: numeral_eq_Suc observe_access_def observe_def count_own_def clear_other_def
      flips_def Let_def is_healthy_def)

lemma observe_alone:
  assumes "hc_pc s t = Quiet" "managed (hc_state s)"
  shows "\<exists>s'. observe_step\<^sup>*\<^sup>* s s' \<and> hc_state s' = observe now ok (hc_state s) \<and> hc_pc s' = hc_pc s"
  using observe_five[OF assms(2), of t now ok] observe_accesses[of "set_pc t (Called ok) s" 5 t now]
    observe_step.call[OF assms, of ok] assms(1)
  by (intro exI[of _ "(observe_access t now ^^ 5) (set_pc t (Called ok) s)"])
    (simp add: converse_rtranclp_into_rtranclp fun_upd_idem)


section \<open>Invariant\<close>

text \<open>Some point of a log had a run of the outcome as long as the threshold.\<close>

definition had_run :: "bool \<Rightarrow> u32 \<Rightarrow> bool list \<Rightarrow> bool" where
  "had_run b k es \<longleftrightarrow> (\<exists>newer older. es = newer @ older \<and> unat k \<le> run_of b older)"

lemma had_run_now: "unat k \<le> run_of b es \<Longrightarrow> had_run b k es"
  unfolding had_run_def by (metis append_Nil)

lemma had_run_Cons: "had_run b k es \<Longrightarrow> had_run b k (x # es)"
  unfolding had_run_def by (metis append_Cons)

lemma had_run_mono: "had_run b k es \<Longrightarrow> j \<le> k \<Longrightarrow> had_run b j es"
  unfolding had_run_def word_le_nat_alt using order_trans by blast

fun pc_ok :: "health_sys \<Rightarrow> observe_pc \<Rightarrow> bool" where
  "pc_ok s (Counted ok k) = had_run ok k (if ok then hc_slog s else hc_flog s)"
| "pc_ok s (Decided ok) =
     (if ok then had_run True (healthy_threshold (hc_state s)) (hc_slog s)
      else had_run False (unhealthy_threshold (hc_state s)) (hc_flog s))"
| "pc_ok s _ = True"

definition observe_inv :: "health_sys \<Rightarrow> bool" where
  "observe_inv s \<longleftrightarrow>
     failures (hc_state s) = of_nat (run_of False (hc_flog s)) \<and>
     successes (hc_state s) = of_nat (run_of True (hc_slog s)) \<and>
     (\<forall>t. pc_ok s (hc_pc s t)) \<and>
     (\<not> healthy (hc_state s) \<longrightarrow> had_run False (unhealthy_threshold (hc_state s)) (hc_flog s))"

lemma observe_inv_start: "observe_inv (observe_start m h u)"
  by (simp add: observe_inv_def observe_start_def HealthState_new_def)

text \<open>Growing logs and unchanged thresholds keep what a task relies on.\<close>

definition grows :: "health_sys \<Rightarrow> health_sys \<Rightarrow> bool" where
  "grows s s' \<longleftrightarrow>
     suffix (hc_flog s) (hc_flog s') \<and> suffix (hc_slog s) (hc_slog s') \<and>
     healthy_threshold (hc_state s') = healthy_threshold (hc_state s) \<and>
     unhealthy_threshold (hc_state s') = unhealthy_threshold (hc_state s)"

lemma had_run_suffix: "suffix xs ys \<Longrightarrow> had_run b k xs \<Longrightarrow> had_run b k ys"
  unfolding had_run_def suffix_def by (metis append.assoc)

lemma pc_ok_grows: "grows s s' \<Longrightarrow> pc_ok s p \<Longrightarrow> pc_ok s' p"
  by (cases p) (auto simp: grows_def intro: had_run_suffix split: if_splits)

lemma observe_inv_keep:
  assumes "observe_inv s" "grows s s'" "hc_pc s' = (hc_pc s)(t := p)" "pc_ok s' p"
    and "failures (hc_state s') = of_nat (run_of False (hc_flog s'))"
    and "successes (hc_state s') = of_nat (run_of True (hc_slog s'))"
    and "\<not> healthy (hc_state s') \<Longrightarrow> healthy (hc_state s) \<Longrightarrow> had_run False (unhealthy_threshold (hc_state s)) (hc_flog s)"
  shows "observe_inv s'"
proof -
  have "pc_ok s' (hc_pc s' t')" for t'
    using assms(1,3,4) pc_ok_grows[OF assms(2), of "hc_pc s t'"] by (simp add: observe_inv_def)
  moreover have "had_run False (unhealthy_threshold (hc_state s')) (hc_flog s')" if "\<not> healthy (hc_state s')"
    using that assms(1,2,7) had_run_suffix unfolding observe_inv_def grows_def by metis
  ultimately show ?thesis using assms(5,6) by (simp add: observe_inv_def)
qed

lemma unat_of_nat_le: "unat (of_nat n :: u32) \<le> n"
  by (simp add: unat_of_nat)

lemma observe_inv_access:
  assumes "observe_inv s"
  shows "observe_inv (observe_access t now s)"
proof -
  have c: "failures (hc_state s) = of_nat (run_of False (hc_flog s))" "successes (hc_state s) = of_nat (run_of True (hc_slog s))"
    and p: "pc_ok s (hc_pc s t)" using assms by (simp_all add: observe_inv_def)
  have run: "had_run b (1 + of_nat (run_of b es)) (b # es)" for b es
    using unat_of_nat_le[of "Suc (run_of b es)"] by (intro had_run_now) simp
  show ?thesis
  proof (cases "hc_pc s t")
    case Quiet
    then show ?thesis using assms by (simp add: observe_access_def)
  next
    case (Called ok)
    then show ?thesis using c
      by (intro observe_inv_keep[OF assms, of _ t "Stamped ok"]) (simp_all add: observe_access_def grows_def)
  next
    case (Stamped ok)
    then show ?thesis using c
      by (intro observe_inv_keep[OF assms, of _ t "Cleared ok"]; cases ok)
        (simp_all add: observe_access_def grows_def do_clear_def clear_other_def suffix_Cons)
  next
    case (Cleared ok)
    then show ?thesis using c
      by (intro observe_inv_keep[OF assms, of _ t "Counted ok (fst (count_own ok (hc_state s)))"]; cases ok)
        (simp_all add: observe_access_def grows_def do_count_def count_own_def suffix_Cons run add.commute)
  next
    case (Counted ok streak)
    have "pc_ok s (Decided ok)" if "flips ok streak (hc_state s)"
      using that p Counted by (cases ok) (auto simp: flips_def intro: had_run_mono)
    then show ?thesis using c Counted pc_ok_grows[of s "set_pc t (Decided ok) s" "Decided ok"]
      by (intro observe_inv_keep[OF assms, of _ t "if flips ok streak (hc_state s) then Decided ok else Quiet"])
        (simp_all add: observe_access_def grows_def)
  next
    case (Decided ok)
    then show ?thesis using c p
      by (intro observe_inv_keep[OF assms, of _ t Quiet]) (simp_all add: observe_access_def grows_def)
  qed
qed

lemma observe_inv_step:
  assumes "observe_inv s" "observe_step s s'"
  shows "observe_inv s'"
  using assms(2,1)
proof cases
  case (call t ok)
  then show ?thesis using assms(1)
    by (intro observe_inv_keep[OF assms(1), of _ t "Called ok"]) (simp_all add: grows_def observe_inv_def)
qed (simp add: observe_inv_access)

interpretation observing: invariant_system "\<lambda>s. \<exists>m h u. s = observe_start m h u" observe_step observe_inv
  by unfold_locales (auto simp: observe_inv_start intro: observe_inv_step)

lemma observe_step_thresholds:
  "observe_step s s' \<Longrightarrow> healthy_threshold (hc_state s') = healthy_threshold (hc_state s) \<and>
     unhealthy_threshold (hc_state s') = unhealthy_threshold (hc_state s)"
  by (induction rule: observe_step.induct)
    (auto simp: observe_access_def do_clear_def do_count_def clear_other_def count_own_def split: observe_pc.split)

lemma observe_run_thresholds:
  "observe_step\<^sup>*\<^sup>* (observe_start m h u) s \<Longrightarrow> healthy_threshold (hc_state s) = max h 1 \<and> unhealthy_threshold (hc_state s) = max u 1"
  by (induction rule: rtranclp_induct) (auto simp: observe_step_thresholds observe_start_def HealthState_new_def)


section \<open>Properties\<close>

text \<open>C20. Racing observations, in every interleaving of any number of calls: the flag of a target
  is lowered only when at some point as many failures as the unhealthy threshold had been
  counted with no success in between, and raised only when a run of successes of the healthy
  threshold had been counted. The thresholds are those the target was created
  with, a zero counting as one.\<close>

theorem racing_observations_need_runs:
  assumes "observe_step\<^sup>*\<^sup>* (observe_start m h u) s" "observe_step s s'"
    and "healthy (hc_state s') \<noteq> healthy (hc_state s)"
  shows "if healthy (hc_state s') then had_run True (max h 1) (hc_slog s) else had_run False (max u 1) (hc_flog s)"
proof -
  note thresholds = observe_run_thresholds[OF assms(1)]
  have "observe_inv s" using observing.inv_reachable assms(1) by blast
  then have p: "pc_ok s (hc_pc s t)" for t by (simp add: observe_inv_def)
  from assms(2) show ?thesis
  proof cases
    case (access t now)
    then show ?thesis using assms(3) p[of t] thresholds
      by (cases "hc_pc s t") (auto simp: observe_access_def clear_other_def count_own_def split: if_splits)
  qed (use assms(3) in simp)
qed

text \<open>Whatever races left in the counters and the flag, once calls no longer overlap a run of equal
  observations as long as the threshold decides, unless the counter wraps on the way.\<close>

definition own_count :: "bool \<Rightarrow> health_state \<Rightarrow> u32" where
  "own_count b s = (if b then successes s else failures s)"

definition own_threshold :: "bool \<Rightarrow> health_state \<Rightarrow> u32" where
  "own_threshold b s = (if b then healthy_threshold s else unhealthy_threshold s)"

lemma observe_own:
  assumes "managed s"
  shows "own_count b (observe now b s) = own_count b s + 1"
    and "own_threshold b (observe now b s) = own_threshold b s"
    and "is_healthy s = b \<Longrightarrow> is_healthy (observe now b s) = b"
    and "own_threshold b s \<le> own_count b s + 1 \<Longrightarrow> is_healthy (observe now b s) = b"
  using assms by (cases b; simp add: observe_def own_count_def own_threshold_def is_healthy_def Let_def)+

lemma observations_settle:
  assumes "managed s" "\<forall>ob \<in> set run. snd ob = b" "unat (own_count b s) + length run < 2 ^ 32"
    and "unat (own_threshold b s) \<le> unat (own_count b s) + length run" "run \<noteq> [] \<or> is_healthy s = b"
  shows "is_healthy (observe_all run s) = b"
  using assms
proof (induction run arbitrary: s)
  case Nil
  then show ?case by (simp add: observe_all_def)
next
  case (Cons ob run)
  let ?s = "observe (fst ob) b s"
  have ob: "snd ob = b" using Cons.prems(2) by simp
  have count: "unat (own_count b ?s) = unat (own_count b s) + 1"
    using unat_add_1[of "own_count b s"] observe_own(1)[OF Cons.prems(1)] Cons.prems(3) by simp
  have "is_healthy ?s = b" if "run = []"
    using that Cons.prems(4) count observe_own(1,4)[OF Cons.prems(1), of b "fst ob"] by (simp add: word_le_nat_alt)
  then have "is_healthy (observe_all run ?s) = b"
    using Cons.prems count observe_own(2)[OF Cons.prems(1), of b "fst ob"] by (intro Cons.IH) auto
  then show ?case using ob by (simp add: observe_all_def case_prod_unfold)
qed


section \<open>Witness\<close>

text \<open>Two failing calls overlap on a target with threshold 2; the second one lowers the flag.\<close>

definition two_failures :: health_sys where
  "two_failures =
     (let s0 = set_pc 1 (Called False) (set_pc 0 (Called False) (observe_start True 1 2))
      in (observe_access 1 5 ^^ 4) ((observe_access 0 5 ^^ 3) s0))"

lemma two_failures_run: "observe_step\<^sup>*\<^sup>* (observe_start True 1 2) two_failures"
proof -
  let ?a = "set_pc 0 (Called False) (observe_start True 1 2)"
  let ?b = "set_pc 1 (Called False) ?a"
  have "observe_step (observe_start True 1 2) ?a" "observe_step ?a ?b"
    by (rule observe_step.call; simp add: observe_start_def HealthState_new_def)+
  then have "observe_step\<^sup>*\<^sup>* (observe_start True 1 2) ?b" by (meson converse_rtranclp_into_rtranclp r_into_rtranclp)
  then show ?thesis unfolding two_failures_def Let_def
    using observe_accesses[of ?b 3 0 5] observe_accesses[of "(observe_access 0 5 ^^ 3) ?b" 4 1 5] by (meson rtranclp_trans)
qed

theorem racing_observations_need_runs_witness:
  "hc_pc two_failures 0 = Counted False 1 \<and> hc_pc two_failures 1 = Decided False \<and>
   had_run False 2 (hc_flog two_failures)"
proof -
  have pc: "hc_pc two_failures 0 = Counted False 1" "hc_pc two_failures 1 = Decided False" by code_simp+
  have "healthy (hc_state (observe_access 1 5 two_failures)) \<noteq> healthy (hc_state two_failures)"
    "\<not> healthy (hc_state (observe_access 1 5 two_failures))"
    by code_simp+
  moreover have "max 2 1 = (2::u32)" by code_simp
  ultimately have "had_run False 2 (hc_flog two_failures)"
    using racing_observations_need_runs[OF two_failures_run observe_step.access, of 1 5] by simp
  with pc show ?thesis by simp
qed

end
