(* ===== verification/Rust_Str.thy ===== *)
theory Rust_Str
  imports Prelude
begin

text \<open>
  The operations on \<open>&str\<close> the source uses, over UTF-8 byte strings: \<open>split\<close>,
  \<open>rsplit\<close>, \<open>split_once\<close>, \<open>strip_prefix\<close>, \<open>trim\<close>, \<open>to_ascii_lowercase\<close>,
  \<open>eq_ignore_ascii_case\<close>, \<open>contains\<close>, \<open>from_utf8\<close> and the \<open>FromStr\<close> of the unsigned
  integers, with the facts on them the components use.
\<close>

section \<open>Splitting\<close>

text \<open>\<open>s.split(c)\<close> for a one-byte separator: always at least one piece.\<close>

fun split_on :: "char \<Rightarrow> string \<Rightarrow> string list" where
  "split_on c [] = [[]]"
| "split_on c (x # xs) =
     (if x = c then [] # split_on c xs
      else case split_on c xs of [] \<Rightarrow> [[x]] | p # ps \<Rightarrow> (x # p) # ps)"

definition rsplit_on :: "char \<Rightarrow> string \<Rightarrow> string list" where
  "rsplit_on c s = rev (split_on c s)"

text \<open>\<open>s.split(c).next().unwrap_or("")\<close>\<close>

definition first_piece :: "char \<Rightarrow> string \<Rightarrow> string" where
  "first_piece c s = (case split_on c s of [] \<Rightarrow> [] | p # _ \<Rightarrow> p)"

fun split_once :: "char \<Rightarrow> string \<Rightarrow> (string \<times> string) option" where
  "split_once c [] = None"
| "split_once c (x # xs) =
     (if x = c then Some ([], xs)
      else map_option (\<lambda>(a, b). (x # a, b)) (split_once c xs))"

text \<open>\<open>s.strip_prefix(p)\<close>\<close>

fun strip_prefix :: "string \<Rightarrow> string \<Rightarrow> string option" where
  "strip_prefix [] s = Some s"
| "strip_prefix (p # ps) [] = None"
| "strip_prefix (p # ps) (x # xs) = (if p = x then strip_prefix ps xs else None)"

text \<open>\<open>s.contains(sub)\<close>\<close>

fun str_contains :: "string \<Rightarrow> string \<Rightarrow> bool" where
  "str_contains sub [] = (sub = [])"
| "str_contains sub (x # xs) = (prefix sub (x # xs) \<or> str_contains sub xs)"

lemma split_on_not_Nil [simp]: "split_on c s \<noteq> []"
  by (induction s) (auto split: list.splits)

lemma split_on_no_sep: "c \<notin> set s \<Longrightarrow> split_on c s = [s]"
  by (induction s) auto

lemma split_on_append: "split_on c (s @ c # t) = split_on c s @ split_on c t"
proof (induction s)
  case Nil
  show ?case by simp
next
  case (Cons x s)
  then show ?case by (cases "split_on c s") auto
qed

lemma split_on_pieces: "p \<in> set (split_on c s) \<Longrightarrow> c \<notin> set p"
  by (induction s arbitrary: p) (auto split: list.splits if_splits)

lemma rsplit_on_snoc: "c \<notin> set t \<Longrightarrow> rsplit_on c (s @ c # t) = t # rsplit_on c s"
  by (simp add: rsplit_on_def split_on_append split_on_no_sep)

lemma first_piece_takeWhile: "first_piece c s = takeWhile (\<lambda>x. x \<noteq> c) s"
  by (induction s) (auto simp: first_piece_def split: list.splits)

lemma split_once_Some_iff:
  "split_once c s = Some (a, b) \<longleftrightarrow> s = a @ c # b \<and> c \<notin> set a"
proof (induction s arbitrary: a)
  case Nil
  show ?case by simp
next
  case (Cons x s)
  then show ?case by (cases a) (auto split: if_splits)
qed

lemma split_once_None_iff: "split_once c s = None \<longleftrightarrow> c \<notin> set s"
  by (induction s) auto

lemma strip_prefix_Some_iff: "strip_prefix p s = Some r \<longleftrightarrow> s = p @ r"
  by (induction p s rule: strip_prefix.induct) auto

lemma strip_prefix_append [simp]: "strip_prefix p (p @ r) = Some r"
  by (simp add: strip_prefix_Some_iff)

lemma strip_prefix_None_iff: "strip_prefix p s = None \<longleftrightarrow> \<not> prefix p s"
  by (induction p s rule: strip_prefix.induct) auto

lemma str_contains_iff: "str_contains sub s \<longleftrightarrow> (\<exists>a b. s = a @ sub @ b)"
proof -
  have "str_contains sub s \<longleftrightarrow> sublist sub s"
    by (induction s) (auto simp: sublist_Cons_right)
  then show ?thesis by (auto simp: sublist_def)
qed


section \<open>ASCII case\<close>

lemma of_char_nat_iff: "n < 256 \<Longrightarrow> of_char c = (n::nat) \<longleftrightarrow> c = char_of n"
proof -
  assume "n < 256"
  then have "of_char (char_of n) = n" by simp
  then show ?thesis using of_char_eqI[of c "char_of n"] by auto
qed

definition is_upper_byte :: "char \<Rightarrow> bool" where
  "is_upper_byte c = (65 \<le> (of_char c :: nat) \<and> (of_char c :: nat) \<le> 90)"

definition lower_byte :: "char \<Rightarrow> char" where
  "lower_byte c = (if is_upper_byte c then char_of ((of_char c :: nat) + 32) else c)"

definition to_ascii_lowercase :: "string \<Rightarrow> string" where
  "to_ascii_lowercase s = map lower_byte s"

definition eq_ignore_ascii_case :: "string \<Rightarrow> string \<Rightarrow> bool" where
  "eq_ignore_ascii_case a b = (to_ascii_lowercase a = to_ascii_lowercase b)"

lemma not_upper_lower_byte [simp]: "\<not> is_upper_byte (lower_byte c)"
proof (cases "is_upper_byte c")
  case True
  then have le: "(of_char c :: nat) + 32 \<le> 122" "97 \<le> (of_char c :: nat) + 32"
    by (simp_all add: is_upper_byte_def)
  then have "((of_char c :: nat) + 32) mod 256 = of_char c + 32"
    by (intro mod_less) linarith
  then have "(of_char (char_of ((of_char c :: nat) + 32) :: char) :: nat) = of_char c + 32"
    by (subst of_char_of)
  then show ?thesis using True le by (simp add: lower_byte_def is_upper_byte_def)
next
  case False
  then show ?thesis by (simp add: lower_byte_def)
qed

lemma lower_byte_idem [simp]: "lower_byte (lower_byte c) = lower_byte c"
  by (subst lower_byte_def) simp

lemma lower_byte_id: "\<not> is_upper_byte c \<Longrightarrow> lower_byte c = c"
  by (simp add: lower_byte_def)

lemma to_ascii_lowercase_idem [simp]:
  "to_ascii_lowercase (to_ascii_lowercase s) = to_ascii_lowercase s"
  by (simp add: to_ascii_lowercase_def)

lemma length_to_ascii_lowercase [simp]: "length (to_ascii_lowercase s) = length s"
  by (simp add: to_ascii_lowercase_def)

lemma no_upper_to_ascii_lowercase: "c \<in> set (to_ascii_lowercase s) \<Longrightarrow> \<not> is_upper_byte c"
  by (auto simp: to_ascii_lowercase_def)


section \<open>Trimming\<close>

text \<open>
  \<open>str::trim\<close> removes the characters with the Unicode property \<open>White_Space\<close> from
  both ends; these are their UTF-8 encodings.
\<close>

definition white_space :: "string list" where
  "white_space =
     [[CHR 0x09], [CHR 0x0A], [CHR 0x0B], [CHR 0x0C], [CHR 0x0D], [CHR 0x20],
      [CHR 0xC2, CHR 0x85], [CHR 0xC2, CHR 0xA0], [CHR 0xE1, CHR 0x9A, CHR 0x80],
      [CHR 0xE2, CHR 0x80, CHR 0x80], [CHR 0xE2, CHR 0x80, CHR 0x81],
      [CHR 0xE2, CHR 0x80, CHR 0x82], [CHR 0xE2, CHR 0x80, CHR 0x83],
      [CHR 0xE2, CHR 0x80, CHR 0x84], [CHR 0xE2, CHR 0x80, CHR 0x85],
      [CHR 0xE2, CHR 0x80, CHR 0x86], [CHR 0xE2, CHR 0x80, CHR 0x87],
      [CHR 0xE2, CHR 0x80, CHR 0x88], [CHR 0xE2, CHR 0x80, CHR 0x89],
      [CHR 0xE2, CHR 0x80, CHR 0x8A], [CHR 0xE2, CHR 0x80, CHR 0xA8],
      [CHR 0xE2, CHR 0x80, CHR 0xA9], [CHR 0xE2, CHR 0x80, CHR 0xAF],
      [CHR 0xE2, CHR 0x81, CHR 0x9F], [CHR 0xE3, CHR 0x80, CHR 0x80]]"

fun strip_any :: "string list \<Rightarrow> string \<Rightarrow> string option" where
  "strip_any [] s = None"
| "strip_any (w # ws) s =
     (case strip_prefix w s of Some r \<Rightarrow> Some r | None \<Rightarrow> strip_any ws s)"

text \<open>Remove leading members of \<open>ws\<close>; all of them are non-empty, so each one shortens \<open>s\<close>.\<close>

function trim_front :: "string list \<Rightarrow> string \<Rightarrow> string" where
  "trim_front ws s =
     (case strip_any ws s of
        None \<Rightarrow> s
      | Some r \<Rightarrow> if length r < length s then trim_front ws r else s)"
  by pat_completeness auto
termination
  by (relation "measure (\<lambda>(ws, s). length s)") auto

declare trim_front.simps [simp del]

definition trim :: "string \<Rightarrow> string" where
  "trim s = rev (trim_front (map rev white_space) (rev (trim_front white_space s)))"

text \<open>The visible ASCII characters other than space start and end no white space.\<close>

definition graphic :: "char \<Rightarrow> bool" where
  "graphic c = (0x21 \<le> (of_char c :: nat) \<and> (of_char c :: nat) \<le> 0x7E)"

lemma strip_any_None:
  "(\<And>w. w \<in> set ws \<Longrightarrow> w \<noteq> [] \<and> hd w \<noteq> x) \<Longrightarrow> strip_any ws (x # xs) = None"
proof (induction ws)
  case Nil
  show ?case by simp
next
  case (Cons w ws)
  from Cons.prems[of w] obtain y ys where "w = y # ys" "y \<noteq> x" by (cases w) auto
  then show ?case using Cons by simp
qed

lemma strip_any_Nil: "[] \<notin> set ws \<Longrightarrow> strip_any ws [] = None"
proof (induction ws)
  case (Cons w ws)
  then show ?case by (cases w) auto
qed simp

lemma graphic_hd_white_space: "graphic x \<Longrightarrow> w \<in> set white_space \<Longrightarrow> w \<noteq> [] \<and> hd w \<noteq> x"
  by (auto simp: white_space_def graphic_def)

lemma graphic_hd_rev_white_space:
  "graphic x \<Longrightarrow> w \<in> set (map rev white_space) \<Longrightarrow> w \<noteq> [] \<and> hd w \<noteq> x"
  by (auto simp: white_space_def graphic_def)

lemma trim_front_stop:
  assumes "xs \<noteq> [] \<Longrightarrow> graphic (hd xs)"
    and "\<And>x w. graphic x \<Longrightarrow> w \<in> set ws \<Longrightarrow> w \<noteq> [] \<and> hd w \<noteq> x"
    and "[] \<notin> set ws"
  shows "trim_front ws xs = xs"
proof (cases xs)
  case Nil
  then show ?thesis using strip_any_Nil[OF assms(3)] by (simp add: trim_front.simps)
next
  case (Cons x ys)
  then have "strip_any ws (x # ys) = None" using assms(1,2) by (intro strip_any_None) auto
  with Cons show ?thesis by (simp add: trim_front.simps)
qed

lemma Nil_not_white_space [simp]: "[] \<notin> set white_space" "[] \<notin> set (map rev white_space)"
  by (simp_all add: white_space_def)

lemma trim_graphic: "\<forall>c \<in> set s. graphic c \<Longrightarrow> trim s = s"
proof -
  assume g: "\<forall>c \<in> set s. graphic c"
  then have "trim_front white_space s = s"
    by (intro trim_front_stop graphic_hd_white_space) auto
  moreover have "trim_front (map rev white_space) (rev s) = rev s"
  proof (rule trim_front_stop[OF _ graphic_hd_rev_white_space])
    assume "rev s \<noteq> []"
    then have "hd (rev s) \<in> set (rev s)" by (rule hd_in_set)
    then show "graphic (hd (rev s))" using g by simp
  qed auto
  ultimately show ?thesis by (simp add: trim_def)
qed

lemma trim_front_space: "trim_front white_space (CHR '' '' # s) = trim_front white_space s"
  by (subst trim_front.simps) (simp add: white_space_def)

lemma trim_space_graphic: "\<forall>c \<in> set s. graphic c \<Longrightarrow> trim (CHR '' '' # s) = s"
  using trim_graphic[of s] by (simp add: trim_def trim_front_space)


section \<open>Unsigned integers\<close>

definition digit_val :: "char \<Rightarrow> nat option" where
  "digit_val c =
     (let n = of_char c in if 48 \<le> n \<and> n \<le> 57 then Some (n - 48) else None)"

text \<open>
  \<open>u64::from_str\<close> and \<open>usize::from_str\<close>: an optional \<open>+\<close>, then at least one digit,
  with checked multiplication and addition.
\<close>

fun parse_digits :: "nat \<Rightarrow> string \<Rightarrow> nat \<Rightarrow> nat option" where
  "parse_digits m [] acc = Some acc"
| "parse_digits m (c # cs) acc =
     (case digit_val c of
        None \<Rightarrow> None
      | Some d \<Rightarrow> if acc * 10 + d \<le> m then parse_digits m cs (acc * 10 + d) else None)"

definition parse_unsigned :: "nat \<Rightarrow> string \<Rightarrow> nat option" where
  "parse_unsigned m s =
     (let ds = (case s of CHR ''+'' # r \<Rightarrow> r | _ \<Rightarrow> s)
      in if ds = [] then None else parse_digits m ds 0)"

definition parse_u64 :: "string \<Rightarrow> u64 option" where
  "parse_u64 s = map_option of_nat (parse_unsigned (2 ^ 64 - 1) s)"

definition parse_usize :: "string \<Rightarrow> usize option" where
  "parse_usize s = map_option of_nat (parse_unsigned (2 ^ 64 - 1) s)"

lemma parse_digits_bound: "parse_digits m s acc = Some n \<Longrightarrow> acc \<le> m \<Longrightarrow> n \<le> m"
  by (induction s arbitrary: acc) (auto split: option.splits if_splits)


section \<open>Decimal output\<close>

fun dec_of_nat :: "nat \<Rightarrow> string" where
  "dec_of_nat n =
     (if n < 10 then [char_of (48 + n)] else dec_of_nat (n div 10) @ [char_of (48 + n mod 10)])"

declare dec_of_nat.simps [simp del]

lemma digit_val_char_of [simp]: "d < 10 \<Longrightarrow> digit_val (char_of (48 + d)) = Some d"
  by (simp add: digit_val_def)

lemma dec_of_nat_digits: "c \<in> set (dec_of_nat n) \<Longrightarrow> \<exists>d < (10::nat). c = char_of (48 + d)"
proof (induction n rule: dec_of_nat.induct)
  case (1 n)
  then show ?case
    by (subst (asm) dec_of_nat.simps) (auto split: if_splits intro: exI[of _ n] exI[of _ "n mod 10"])
qed

lemma dec_of_nat_not_Nil [simp]: "dec_of_nat n \<noteq> []"
  by (subst dec_of_nat.simps) simp

lemma graphic_digit: "d < (10::nat) \<Longrightarrow> graphic (char_of (48 + d))"
  by (simp add: graphic_def)

lemma graphic_dec_of_nat: "c \<in> set (dec_of_nat n) \<Longrightarrow> graphic c"
  using dec_of_nat_digits graphic_digit by blast


section \<open>UTF-8 validity\<close>

text \<open>\<open>std::str::from_utf8\<close>: the well-formed byte sequences of the Unicode standard.\<close>

definition cont_byte :: "nat \<Rightarrow> nat \<Rightarrow> char \<Rightarrow> bool" where
  "cont_byte lo hi c = (lo \<le> (of_char c :: nat) \<and> (of_char c :: nat) \<le> hi)"

fun utf8_valid :: "string \<Rightarrow> bool" where
  "utf8_valid [] = True"
| "utf8_valid (a # s) =
     (let x = (of_char a :: nat) in
      if x < 0x80 then utf8_valid s
      else (case s of
        [] \<Rightarrow> False
      | b # s1 \<Rightarrow>
          (if 0xC2 \<le> x \<and> x \<le> 0xDF then cont_byte 0x80 0xBF b \<and> utf8_valid s1
           else (case s1 of
             [] \<Rightarrow> False
           | c # s2 \<Rightarrow>
               (if 0xE0 \<le> x \<and> x \<le> 0xEF then
                  cont_byte (if x = 0xE0 then 0xA0 else 0x80) (if x = 0xED then 0x9F else 0xBF) b \<and>
                  cont_byte 0x80 0xBF c \<and> utf8_valid s2
                else (case s2 of
                  [] \<Rightarrow> False
                | d # s3 \<Rightarrow>
                    0xF0 \<le> x \<and> x \<le> 0xF4 \<and>
                    cont_byte (if x = 0xF0 then 0x90 else 0x80) (if x = 0xF4 then 0x8F else 0xBF) b \<and>
                    cont_byte 0x80 0xBF c \<and> cont_byte 0x80 0xBF d \<and> utf8_valid s3))))))"

definition from_utf8 :: "string \<Rightarrow> string option" where
  "from_utf8 bytes = (if utf8_valid bytes then Some bytes else None)"

end
