(* ===== verification/Rust_Net.thy ===== *)
theory Rust_Net
  imports Rust_Str "HOL-Library.Monad_Syntax"
begin

text \<open>
  \<open>std::net\<close>: addresses, their \<open>FromStr\<close> (the recursive-descent parser of
  \<open>core::net::parser\<close>) and their \<open>Display\<close>. The proxy parses bind addresses,
  \<open>X-Forwarded-For\<close> hops and access-list entries with it and prints the peer into
  \<open>X-Forwarded-For\<close>. A reader takes the remaining input and returns the value read
  with what is left, or \<^const>\<open>None\<close> with the input untouched (\<open>read_atomically\<close>).
\<close>

datatype ip_addr =
    V4 u8 u8 u8 u8
  | V6 u16 u16 u16 u16 u16 u16 u16 u16

datatype socket_addr = SocketAddr (sock_ip: ip_addr) (sock_port: u16)

type_synonym 'a reader = "string \<Rightarrow> ('a \<times> string) option"


section \<open>Readers\<close>

definition digit_of :: "nat \<Rightarrow> char \<Rightarrow> nat option" where
  "digit_of radix c =
     (let n = (of_char c :: nat);
          v = (if 48 \<le> n \<and> n \<le> 57 then Some (n - 48)
               else if 97 \<le> n \<and> n \<le> 102 then Some (n - 87)
               else if 65 \<le> n \<and> n \<le> 70 then Some (n - 55) else None)
      in case v of None \<Rightarrow> None | Some d \<Rightarrow> if d < radix then Some d else None)"

fun read_run :: "nat \<Rightarrow> string \<Rightarrow> nat list \<times> string" where
  "read_run radix [] = ([], [])"
| "read_run radix (c # cs) =
     (case digit_of radix c of
        None \<Rightarrow> ([], c # cs)
      | Some d \<Rightarrow> (let (ds, r) = read_run radix cs in (d # ds, r)))"

definition num_value :: "nat \<Rightarrow> nat list \<Rightarrow> nat" where
  "num_value radix ds = foldl (\<lambda>acc d. acc * radix + d) 0 ds"

definition read_number :: "nat \<Rightarrow> nat option \<Rightarrow> bool \<Rightarrow> nat \<Rightarrow> nat reader" where
  "read_number radix max_digits allow_zero_prefix limit s =
     (let (ds, r) = read_run radix s in
      if ds = [] then None
      else if (case max_digits of Some m \<Rightarrow> m < length ds | None \<Rightarrow> False) then None
      else if \<not> allow_zero_prefix \<and> hd s = CHR ''0'' \<and> 1 < length ds then None
      else if limit < num_value radix ds then None
      else Some (num_value radix ds, r))"

definition read_given_char :: "char \<Rightarrow> unit reader" where
  "read_given_char t s = (case s of [] \<Rightarrow> None | c # r \<Rightarrow> if c = t then Some ((), r) else None)"

definition read_separator :: "char \<Rightarrow> nat \<Rightarrow> 'a reader \<Rightarrow> 'a reader" where
  "read_separator sep i inner s =
     (if 0 < i then do { (_, r) \<leftarrow> read_given_char sep s; inner r } else inner s)"

definition read_octet :: "nat \<Rightarrow> nat reader" where
  "read_octet i = read_separator (CHR ''.'') i (read_number 10 (Some 3) False 255)"

definition read_ipv4_addr :: "(u8 \<times> u8 \<times> u8 \<times> u8) reader" where
  "read_ipv4_addr s = do {
     (a, s1) \<leftarrow> read_octet 0 s;
     (b, s2) \<leftarrow> read_octet 1 s1;
     (c, s3) \<leftarrow> read_octet 2 s2;
     (d, s4) \<leftarrow> read_octet 3 s3;
     Some ((of_nat a, of_nat b, of_nat c, of_nat d), s4) }"

definition be_u16 :: "u8 \<Rightarrow> u8 \<Rightarrow> u16" where
  "be_u16 a b = of_nat (unat a * 256 + unat b)"

text \<open>\<open>read_groups\<close>: \<open>k\<close> is the number of slots left, \<open>i\<close> the index of the next one.\<close>

fun read_groups :: "nat \<Rightarrow> nat \<Rightarrow> string \<Rightarrow> u16 list \<times> bool \<times> string" where
  "read_groups i 0 s = ([], False, s)"
| "read_groups i (Suc k) s =
     (case (if 0 < k then read_separator (CHR '':'') i read_ipv4_addr s else None) of
        Some ((a, b, c, d), r) \<Rightarrow> ([be_u16 a b, be_u16 c d], True, r)
      | None \<Rightarrow>
          (case read_separator (CHR '':'') i (read_number 16 (Some 4) True 65535) s of
             None \<Rightarrow> ([], False, s)
           | Some (g, r) \<Rightarrow>
               (let (gs, v4, r') = read_groups (Suc i) k r in (of_nat g # gs, v4, r'))))"

fun ip_of_groups :: "u16 list \<Rightarrow> ip_addr option" where
  "ip_of_groups [a, b, c, d, e, f, g, h] = Some (V6 a b c d e f g h)"
| "ip_of_groups _ = None"

definition read_ipv6_addr :: "ip_addr reader" where
  "read_ipv6_addr s =
     (let (head, head_v4, s1) = read_groups 0 8 s in
      if length head = 8 then map_option (\<lambda>ip. (ip, s1)) (ip_of_groups head)
      else if head_v4 then None
      else do {
        (_, s2) \<leftarrow> read_given_char (CHR '':'') s1;
        (_, s3) \<leftarrow> read_given_char (CHR '':'') s2;
        let (tail, _, s4) = read_groups 0 (8 - (length head + 1)) s3;
        ip \<leftarrow> ip_of_groups (head @ replicate (8 - length head - length tail) 0 @ tail);
        Some (ip, s4) })"

definition read_ip_addr :: "ip_addr reader" where
  "read_ip_addr s =
     (case read_ipv4_addr s of
        Some ((a, b, c, d), r) \<Rightarrow> Some (V4 a b c d, r)
      | None \<Rightarrow> read_ipv6_addr s)"

definition read_port :: "u16 reader" where
  "read_port s = do {
     (_, s1) \<leftarrow> read_given_char (CHR '':'') s;
     (p, s2) \<leftarrow> read_number 10 None True 65535 s1;
     Some (of_nat p, s2) }"

text \<open>The scope id of an IPv6 socket address is read and not kept here: no code uses it.\<close>

definition read_scope_id :: "string \<Rightarrow> string" where
  "read_scope_id s =
     (case (do { (_, s1) \<leftarrow> read_given_char (CHR ''%'') s;
                 (n, s2) \<leftarrow> read_number 10 None True 4294967295 s1;
                 Some s2 }) of
        Some r \<Rightarrow> r | None \<Rightarrow> s)"

definition read_socket_addr_v4 :: "socket_addr reader" where
  "read_socket_addr_v4 s = do {
     ((a, b, c, d), s1) \<leftarrow> read_ipv4_addr s;
     (p, s2) \<leftarrow> read_port s1;
     Some (SocketAddr (V4 a b c d) p, s2) }"

definition read_socket_addr_v6 :: "socket_addr reader" where
  "read_socket_addr_v6 s = do {
     (_, s1) \<leftarrow> read_given_char (CHR ''['') s;
     (ip, s2) \<leftarrow> read_ipv6_addr s1;
     let s3 = read_scope_id s2;
     (_, s4) \<leftarrow> read_given_char (CHR '']'') s3;
     (p, s5) \<leftarrow> read_port s4;
     Some (SocketAddr ip p, s5) }"

definition read_socket_addr :: "socket_addr reader" where
  "read_socket_addr s =
     (case read_socket_addr_v4 s of Some r \<Rightarrow> Some r | None \<Rightarrow> read_socket_addr_v6 s)"

text \<open>\<open>parse_with\<close>: nothing may be left over.\<close>

definition parse_with :: "'a reader \<Rightarrow> string \<Rightarrow> 'a option" where
  "parse_with rd s = (case rd s of Some (v, []) \<Rightarrow> Some v | _ \<Rightarrow> None)"

definition parse_ip :: "string \<Rightarrow> ip_addr option" where
  "parse_ip = parse_with read_ip_addr"

definition parse_socket_addr :: "string \<Rightarrow> socket_addr option" where
  "parse_socket_addr = parse_with read_socket_addr"


section \<open>Display\<close>

definition hex_digit :: "nat \<Rightarrow> char" where
  "hex_digit d = (if d < 10 then char_of (48 + d) else char_of (87 + d))"

fun hex_of_nat :: "nat \<Rightarrow> string" where
  "hex_of_nat n =
     (if n < 16 then [hex_digit n] else hex_of_nat (n div 16) @ [hex_digit (n mod 16)])"

declare hex_of_nat.simps [simp del]

definition ipv4_to_string :: "u8 \<Rightarrow> u8 \<Rightarrow> u8 \<Rightarrow> u8 \<Rightarrow> string" where
  "ipv4_to_string a b c d =
     dec_of_nat (unat a) @ ''.'' @ dec_of_nat (unat b) @ ''.'' @
     dec_of_nat (unat c) @ ''.'' @ dec_of_nat (unat d)"

fun fmt_subslice :: "u16 list \<Rightarrow> string" where
  "fmt_subslice [] = []"
| "fmt_subslice [g] = hex_of_nat (unat g)"
| "fmt_subslice (g # gs) = hex_of_nat (unat g) @ '':'' @ fmt_subslice gs"

text \<open>The longest run of zero groups, the first one among equals: \<open>(start, len)\<close>.\<close>

fun zero_span :: "nat \<Rightarrow> nat \<times> nat \<Rightarrow> nat \<times> nat \<Rightarrow> u16 list \<Rightarrow> nat \<times> nat" where
  "zero_span i cur longest [] = longest"
| "zero_span i (cs, cl) (ls, ll) (g # gs) =
     (if g = 0 then
        let cs' = (if cl = 0 then i else cs); cl' = Suc cl
        in zero_span (Suc i) (cs', cl') (if ll < cl' then (cs', cl') else (ls, ll)) gs
      else zero_span (Suc i) (0, 0) (ls, ll) gs)"

fun ip_to_string :: "ip_addr \<Rightarrow> string" where
  "ip_to_string (V4 a b c d) = ipv4_to_string a b c d"
| "ip_to_string (V6 a b c d e f g h) =
     (if a = 0 \<and> b = 0 \<and> c = 0 \<and> d = 0 \<and> e = 0 \<and> f = 0xFFFF
      then ''::ffff:'' @ ipv4_to_string (of_nat (unat g div 256)) (of_nat (unat g mod 256))
             (of_nat (unat h div 256)) (of_nat (unat h mod 256))
      else let gs = [a, b, c, d, e, f, g, h];
               (start, len) = zero_span 0 (0, 0) (0, 0) gs
           in if 1 < len
              then fmt_subslice (take start gs) @ ''::'' @ fmt_subslice (drop (start + len) gs)
              else fmt_subslice gs)"


section \<open>An IPv4 address survives printing and parsing\<close>

lemma digit_of_char_of [simp]: "d < 10 \<Longrightarrow> digit_of 10 (char_of (48 + d)) = Some d"
  by (simp add: digit_of_def)

text \<open>A delimiter ends a run of decimal digits.\<close>

definition ends_number :: "string \<Rightarrow> bool" where
  "ends_number r = (r = [] \<or> digit_of 10 (hd r) = None)"

fun dec_digits :: "nat \<Rightarrow> nat list" where
  "dec_digits n = (if n < 10 then [n] else dec_digits (n div 10) @ [n mod 10])"

declare dec_digits.simps [simp del]

lemma dec_of_nat_digits_conv: "dec_of_nat n = map (\<lambda>d. char_of (48 + d)) (dec_digits n)"
proof (induction n rule: dec_digits.induct)
  case (1 n)
  then show ?case by (simp add: dec_of_nat.simps[of n] dec_digits.simps[of n])
qed

lemma dec_digits_small: "d \<in> set (dec_digits n) \<Longrightarrow> d < 10"
proof (induction n rule: dec_digits.induct)
  case (1 n)
  then show ?case by (auto simp: dec_digits.simps[of n] split: if_splits)
qed

lemma num_value_dec_digits: "num_value 10 (dec_digits n) = n"
proof (induction n rule: dec_digits.induct)
  case (1 n)
  then show ?case by (auto simp: dec_digits.simps[of n] num_value_def)
qed

lemma dec_digits_not_Nil [simp]: "dec_digits n \<noteq> []"
  by (simp add: dec_digits.simps[of n])

lemma hd_dec_digits: "0 < n \<Longrightarrow> 0 < hd (dec_digits n)"
proof (induction n rule: dec_digits.induct)
  case (1 n)
  then show ?case by (auto simp: dec_digits.simps[of n] div_greater_zero_iff)
qed

lemma length_dec_digits_byte: "n < 256 \<Longrightarrow> length (dec_digits n) \<le> 3"
  by (simp add: dec_digits.simps)

lemma read_run_digits:
  "(\<And>d. d \<in> set ds \<Longrightarrow> d < 10) \<Longrightarrow> ends_number r \<Longrightarrow>
     read_run 10 (map (\<lambda>d. char_of (48 + d)) ds @ r) = (ds, r)"
proof (induction ds)
  case Nil
  then show ?case by (cases r) (auto simp: ends_number_def)
next
  case (Cons d ds)
  then show ?case by simp
qed

lemma read_number_byte:
  assumes "n < 256" "ends_number r"
  shows "read_number 10 (Some 3) False 255 (dec_of_nat n @ r) = Some (n, r)"
proof -
  let ?ds = "dec_digits n"
  have run: "read_run 10 (dec_of_nat n @ r) = (?ds, r)"
    using read_run_digits[of ?ds r] dec_digits_small assms(2)
    by (simp add: dec_of_nat_digits_conv)
  have "\<not> (hd (dec_of_nat n @ r) = CHR ''0'' \<and> 1 < length ?ds)"
  proof (cases "n < 10")
    case True
    then show ?thesis by (simp add: dec_digits.simps[of n])
  next
    case False
    then have pos: "0 < hd ?ds" "hd ?ds < 10"
      using hd_dec_digits[of n] dec_digits_small[of "hd ?ds" n] by simp_all
    have "char_of (48 + hd ?ds) \<noteq> CHR ''0''"
    proof
      assume "char_of (48 + hd ?ds) = CHR ''0''"
      then have "(of_char (char_of (48 + hd ?ds) :: char) :: nat) = of_char CHR ''0''" by simp
      with pos show False by simp
    qed
    then show ?thesis by (simp add: dec_of_nat_digits_conv hd_map)
  qed
  with run assms(1) length_dec_digits_byte[OF assms(1)] show ?thesis
    by (simp add: read_number_def num_value_dec_digits)
qed


lemma ends_number_simps [simp]: "ends_number []" "ends_number (CHR ''.'' # r)"
  by (simp_all add: ends_number_def digit_of_def)

lemma unat_byte: "unat (w::u8) < 256"
  using unsigned_less[of w] by simp

lemma read_octet_first:
  "ends_number r \<Longrightarrow> read_octet 0 (dec_of_nat (unat (w::u8)) @ r) = Some (unat w, r)"
  by (simp add: read_octet_def read_separator_def read_number_byte unat_byte)

lemma read_octet_next:
  "0 < i \<Longrightarrow> ends_number r \<Longrightarrow>
     read_octet i (CHR ''.'' # dec_of_nat (unat (w::u8)) @ r) = Some (unat w, r)"
  by (simp add: read_octet_def read_separator_def read_given_char_def read_number_byte unat_byte)

lemma read_ipv4_to_string: "read_ipv4_addr (ipv4_to_string a b c d) = Some ((a, b, c, d), [])"
proof -
  have "read_octet 0 (ipv4_to_string a b c d) =
      Some (unat a, CHR ''.'' # dec_of_nat (unat b) @ ''.'' @ dec_of_nat (unat c) @ ''.'' @
        dec_of_nat (unat d))"
    by (simp add: ipv4_to_string_def read_octet_first)
  moreover have "read_octet 3 (CHR ''.'' # dec_of_nat (unat d)) = Some (unat d, [])"
    using read_octet_next[of 3 "[]" d] by simp
  ultimately show ?thesis
    by (simp add: read_ipv4_addr_def read_octet_next)
qed

lemma parse_ip_to_string_V4: "parse_ip (ip_to_string (V4 a b c d)) = Some (V4 a b c d)"
  by (simp add: parse_ip_def parse_with_def read_ip_addr_def read_ipv4_to_string)

lemma graphic_ipv4_to_string: "ch \<in> set (ipv4_to_string a b c d) \<Longrightarrow> graphic ch \<and> ch \<noteq> CHR '',''"
proof -
  assume ch: "ch \<in> set (ipv4_to_string a b c d)"
  have digit: "graphic (char_of (48 + e)) \<and> char_of (48 + e) \<noteq> CHR '',''" if "e < (10::nat)" for e
  proof -
    have "(of_char (char_of (48 + e) :: char) :: nat) \<noteq> of_char CHR '',''" using that by simp
    then show ?thesis using graphic_digit[OF that] by metis
  qed
  have "ch = CHR ''.'' \<or> (\<exists>e < (10::nat). ch = char_of (48 + e))"
    using ch dec_of_nat_digits by (auto simp: ipv4_to_string_def)
  then show ?thesis using digit by (auto simp: graphic_def)
qed


section \<open>What an address prints as\<close>

lemma hex_digit_graphic: "d < 16 \<Longrightarrow> graphic (hex_digit d) \<and> hex_digit d \<noteq> CHR '',''"
proof -
  assume d: "d < 16"
  have "(of_char (hex_digit d) :: nat) = (if d < 10 then 48 + d else 87 + d)" using d by (simp add: hex_digit_def)
  moreover have "(of_char CHR '','' :: nat) = 44" by simp
  ultimately show ?thesis using d by (auto simp: graphic_def split: if_splits)
qed

lemma graphic_hex_of_nat: "ch \<in> set (hex_of_nat n) \<Longrightarrow> graphic ch \<and> ch \<noteq> CHR '',''"
proof (induction n rule: hex_of_nat.induct)
  case (1 n)
  then show ?case
    using hex_digit_graphic[of n] hex_digit_graphic[of "n mod 16"]
    by (auto simp: hex_of_nat.simps[of n] split: if_splits)
qed

lemma colon_graphic: "graphic CHR '':'' \<and> CHR '':'' \<noteq> CHR '',''"
  by (simp add: graphic_def)

lemma graphic_fmt_subslice: "ch \<in> set (fmt_subslice gs) \<Longrightarrow> graphic ch \<and> ch \<noteq> CHR '',''"
  using colon_graphic by (induction gs rule: fmt_subslice.induct) (auto dest: graphic_hex_of_nat)

text \<open>No address prints as anything but visible characters, and none prints a comma.\<close>

lemma graphic_ip_to_string: "ch \<in> set (ip_to_string ip) \<Longrightarrow> graphic ch \<and> ch \<noteq> CHR '',''"
proof (cases ip)
  case (V4 a b c d)
  then show "ch \<in> set (ip_to_string ip) \<Longrightarrow> ?thesis" using graphic_ipv4_to_string by simp
next
  case (V6 a b c d e f g h)
  have ff: "graphic CHR ''f'' \<and> CHR ''f'' \<noteq> CHR '',''" by (simp add: graphic_def)
  assume "ch \<in> set (ip_to_string ip)"
  then show ?thesis
    using V6 colon_graphic ff
    by (auto simp: Let_def case_prod_unfold simp del: fmt_subslice.simps zero_span.simps take_Cons drop_Cons
        dest: graphic_ipv4_to_string graphic_fmt_subslice split: if_splits)
qed

end
