(* ===== verification/Http_Api.thy ===== *)
theory Http_Api
  imports Rust_Str Rust_Net
begin

text \<open>
  The interfaces of the third-party crates the proxy is written against: the header
  map, header names and values of the \<open>http\<close> crate, and the networks of \<open>ipnet\<close>. Their
  code is not part of the repository, so their operations are parameters of the model,
  collected in a record per crate, and what the proxy relies on is a locale over that
  record: the documented behaviour of the operations. A header name is represented by
  its lower-case text, a header value by its bytes.
\<close>

section \<open>Header maps\<close>

record 'h header_api =
  hm_empty :: 'h
  hm_get_all :: "'h \<Rightarrow> string \<Rightarrow> string list"
  hm_get :: "'h \<Rightarrow> string \<Rightarrow> string option"
  hm_contains :: "'h \<Rightarrow> string \<Rightarrow> bool"
  hm_remove :: "'h \<Rightarrow> string \<Rightarrow> 'h"
  hm_insert :: "'h \<Rightarrow> string \<Rightarrow> string \<Rightarrow> 'h"
  hm_append :: "'h \<Rightarrow> string \<Rightarrow> string \<Rightarrow> 'h"
  header_name :: "string \<Rightarrow> string option"  \<comment> \<open>\<open>HeaderName::try_from\<close>\<close>
  header_value :: "string \<Rightarrow> string option" \<comment> \<open>\<open>HeaderValue::from_str\<close>\<close>
  hv_to_str :: "string \<Rightarrow> string option"    \<comment> \<open>\<open>HeaderValue::to_str\<close>\<close>

text \<open>The recurring \<open>headers.get(name).and_then(|v| v.to_str().ok())\<close>.\<close>

definition header_str :: "'h header_api \<Rightarrow> 'h \<Rightarrow> string \<Rightarrow> string option" where
  "header_str api h name = Option.bind (hm_get api h name) (hv_to_str api)"

text \<open>Bytes that \<open>to_str\<close> accepts: visible ASCII, space and tab.\<close>

definition text_byte :: "char \<Rightarrow> bool" where
  "text_byte c = (c = char_of (9::nat) \<or> (32 \<le> (of_char c :: nat) \<and> (of_char c :: nat) \<le> 126))"

lemma graphic_text_byte: "graphic c \<Longrightarrow> text_byte c"
  by (simp add: graphic_def text_byte_def)

text \<open>Characters of an RFC 7230 token.\<close>

definition tchar :: "char \<Rightarrow> bool" where
  "tchar c =
     (let n = of_char c :: nat
      in (48 \<le> n \<and> n \<le> 57) \<or> (65 \<le> n \<and> n \<le> 90) \<or> (97 \<le> n \<and> n \<le> 122) \<or>
         c \<in> set ''!#$%&'' \<or> n = 39 \<or> c \<in> set ''*+-.^_|~'' \<or> n = 96)"

locale header_map =
  fixes api :: "'h header_api"
  assumes get_all_empty: "hm_get_all api (hm_empty api) n = []"
    and get_first: "hm_get api h n = (case hm_get_all api h n of [] \<Rightarrow> None | v # _ \<Rightarrow> Some v)"
    and contains: "hm_contains api h n = (hm_get_all api h n \<noteq> [])"
    and get_all_remove: "hm_get_all api (hm_remove api h n) m = (if m = n then [] else hm_get_all api h m)"
    and get_all_insert:
      "hm_get_all api (hm_insert api h n v) m = (if m = n then [v] else hm_get_all api h m)"
    and get_all_append:
      "hm_get_all api (hm_append api h n v) m =
         (if m = n then hm_get_all api h m @ [v] else hm_get_all api h m)"
    and header_name_lower: "header_name api n = Some m \<Longrightarrow> m = to_ascii_lowercase n"
    and header_name_token: "n \<noteq> [] \<Longrightarrow> \<forall>c \<in> set n. tchar c \<Longrightarrow> header_name api n \<noteq> None"
    and header_value_bytes: "header_value api s = Some v \<Longrightarrow> v = s"
    and header_value_text: "\<forall>c \<in> set s. text_byte c \<Longrightarrow> header_value api s = Some s"
    and to_str_text: "hv_to_str api v = (if \<forall>c \<in> set v. text_byte c then Some v else None)"
begin

lemmas header_laws = get_all_empty get_first contains get_all_remove get_all_insert get_all_append

lemma header_str_cases:
  "header_str api h n =
     (case hm_get_all api h n of [] \<Rightarrow> None
      | v # _ \<Rightarrow> if \<forall>c \<in> set v. text_byte c then Some v else None)"
  by (simp add: header_str_def get_first to_str_text split: list.splits)

lemma header_str_cong:
  "hm_get_all api h n = hm_get_all api h' n \<Longrightarrow> header_str api h n = header_str api h' n"
  by (simp add: header_str_cases)

lemma header_str_text: "header_str api h n = Some s \<Longrightarrow> c \<in> set s \<Longrightarrow> text_byte c"
  by (auto simp: header_str_cases split: list.splits if_splits)

lemma get_all_remove_fold:
  "hm_get_all api (foldl (hm_remove api) h ns) m = (if m \<in> set ns then [] else hm_get_all api h m)"
  by (induction ns arbitrary: h) (auto simp: get_all_remove)

lemma get_all_insert_fold:
  "hm_get_all api (foldl (\<lambda>h (n, v). hm_insert api h n v) h nvs) m =
     (case map_of (rev nvs) m of Some v \<Rightarrow> [v] | None \<Rightarrow> hm_get_all api h m)"
proof (induction nvs rule: rev_induct)
  case Nil
  show ?case by simp
next
  case (snoc nv nvs)
  then show ?case by (cases nv) (simp add: get_all_insert)
qed

end


section \<open>A reference header map\<close>

text \<open>
  An ordered multimap as an association list in arrival order, names in lower case; names
  are RFC 7230 tokens and values have no control characters. It satisfies the contract,
  and witnesses are evaluated on it.
\<close>

definition field_byte :: "char \<Rightarrow> bool" where
  "field_byte c = (c = char_of (9::nat) \<or> (32 \<le> (of_char c :: nat) \<and> (of_char c :: nat) \<noteq> 127))"

type_synonym header_list = "(string \<times> string) list"

definition list_get_all :: "header_list \<Rightarrow> string \<Rightarrow> string list" where
  "list_get_all h n = map snd (filter (\<lambda>(m, v). m = n) h)"

definition list_headers :: "header_list header_api" where
  "list_headers = \<lparr>
     hm_empty = [],
     hm_get_all = list_get_all,
     hm_get = (\<lambda>h n. case list_get_all h n of [] \<Rightarrow> None | v # _ \<Rightarrow> Some v),
     hm_contains = (\<lambda>h n. n \<in> fst ` set h),
     hm_remove = (\<lambda>h n. filter (\<lambda>(m, v). m \<noteq> n) h),
     hm_insert = (\<lambda>h n v. filter (\<lambda>(m, v). m \<noteq> n) h @ [(n, v)]),
     hm_append = (\<lambda>h n v. h @ [(n, v)]),
     header_name = (\<lambda>s. if s \<noteq> [] \<and> list_all tchar s then Some (to_ascii_lowercase s) else None),
     header_value = (\<lambda>s. if list_all field_byte s then Some s else None),
     hv_to_str = (\<lambda>v. if list_all text_byte v then Some v else None) \<rparr>"

lemma text_field_byte: "text_byte c \<Longrightarrow> field_byte c"
  by (auto simp: text_byte_def field_byte_def)

interpretation list_headers: header_map list_headers
proof
  show "hm_contains list_headers h n = (hm_get_all list_headers h n \<noteq> [])" for h n
    by (force simp: list_headers_def list_get_all_def filter_empty_conv)
  have other: "m \<noteq> n \<Longrightarrow> list_get_all (filter (\<lambda>(m, v). m \<noteq> n) h) m = list_get_all h m" for h n m
    by (auto simp: list_get_all_def case_prod_unfold intro!: arg_cong[of _ _ "map snd"] filter_cong)
  show "hm_get_all list_headers (hm_remove list_headers h n) m =
      (if m = n then [] else hm_get_all list_headers h m)" for h n m
    using other[of m n h] by (auto simp: list_headers_def) (auto simp: list_get_all_def filter_empty_conv)
  show "hm_get_all list_headers (hm_insert list_headers h n v) m =
      (if m = n then [v] else hm_get_all list_headers h m)" for h n v m
    using other[of m n h] by (auto simp: list_headers_def) (auto simp: list_get_all_def filter_empty_conv)
qed (auto simp: list_headers_def list_get_all_def list_all_iff text_field_byte split: if_splits)


section \<open>Networks\<close>

record 'n net_api =
  net_parse :: "string \<Rightarrow> 'n option"                        \<comment> \<open>\<open>IpNet::from_str\<close>\<close>
  net_new_v4 :: "u8 \<Rightarrow> u8 \<Rightarrow> u8 \<Rightarrow> u8 \<Rightarrow> nat \<Rightarrow> 'n option"       \<comment> \<open>\<open>Ipv4Net::new\<close>\<close>
  net_new_v6 :: "u16 \<Rightarrow> u16 \<Rightarrow> u16 \<Rightarrow> u16 \<Rightarrow> u16 \<Rightarrow> u16 \<Rightarrow> u16 \<Rightarrow> u16 \<Rightarrow> nat \<Rightarrow> 'n option"
  net_contains :: "'n \<Rightarrow> ip_addr \<Rightarrow> bool"

text \<open>The full-length prefix of an address is the network of that address alone.\<close>

locale ip_net =
  fixes net :: "'n net_api"
  assumes new_v4_host: "\<exists>n. net_new_v4 net a b c d 32 = Some n \<and> (\<forall>ip. net_contains net n ip \<longleftrightarrow> ip = V4 a b c d)"
    and new_v6_host: "\<exists>n. net_new_v6 net s0 s1 s2 s3 s4 s5 s6 s7 128 = Some n \<and>
           (\<forall>ip. net_contains net n ip \<longleftrightarrow> ip = V6 s0 s1 s2 s3 s4 s5 s6 s7)"


text \<open>
  A reference implementation: an address with a prefix length, \<open>contains\<close> comparing the
  leading bits within one address family.
\<close>

fun ip_width :: "ip_addr \<Rightarrow> nat" where
  "ip_width (V4 _ _ _ _) = 32"
| "ip_width (V6 _ _ _ _ _ _ _ _) = 128"

text \<open>The number of an address, most significant group first; \<open>b\<close> is the group's range.\<close>

fun place_value :: "nat \<Rightarrow> nat \<Rightarrow> nat list \<Rightarrow> nat" where
  "place_value b acc [] = acc"
| "place_value b acc (d # ds) = place_value b (acc * b + d) ds"

fun ip_num :: "ip_addr \<Rightarrow> nat" where
  "ip_num (V4 a b c d) = place_value 256 0 (map unat [a, b, c, d])"
| "ip_num (V6 s0 s1 s2 s3 s4 s5 s6 s7) =
     place_value 65536 0 (map unat [s0, s1, s2, s3, s4, s5, s6, s7])"

definition prefix_contains :: "ip_addr \<times> nat \<Rightarrow> ip_addr \<Rightarrow> bool" where
  "prefix_contains n ip =
     (ip_width ip = ip_width (fst n) \<and>
      ip_num ip div 2 ^ (ip_width ip - snd n) = ip_num (fst n) div 2 ^ (ip_width ip - snd n))"

definition prefix_new :: "ip_addr \<Rightarrow> nat \<Rightarrow> (ip_addr \<times> nat) option" where
  "prefix_new ip len = (if len \<le> ip_width ip then Some (ip, len) else None)"

definition prefix_parse :: "string \<Rightarrow> (ip_addr \<times> nat) option" where
  "prefix_parse s =
     (case split_once (CHR ''/'') s of
        None \<Rightarrow> None
      | Some (a, l) \<Rightarrow>
          (case (parse_ip a, parse_unsigned 128 l) of
             (Some ip, Some len) \<Rightarrow> prefix_new ip len
           | _ \<Rightarrow> None))"

definition prefix_nets :: "(ip_addr \<times> nat) net_api" where
  "prefix_nets = \<lparr>
     net_parse = prefix_parse,
     net_new_v4 = (\<lambda>a b c d. prefix_new (V4 a b c d)),
     net_new_v6 = (\<lambda>s0 s1 s2 s3 s4 s5 s6 s7. prefix_new (V6 s0 s1 s2 s3 s4 s5 s6 s7)),
     net_contains = prefix_contains \<rparr>"

lemma digits_inj:
  "x < b \<Longrightarrow> y < b \<Longrightarrow> m * b + x = n * b + y \<longleftrightarrow> m = n \<and> x = (y::nat)"
  by (metis add.commute div_mult_self1_is_m div_mult_self3 div_less mod_mult_self3 mod_less
      add_0_right less_nat_zero_code not_gr_zero)

lemma place_value_inj:
  assumes "length xs = length ys" "\<forall>x \<in> set xs. x < b" "\<forall>y \<in> set ys. y < b"
    and "place_value b m xs = place_value b n ys"
  shows "m = n \<and> xs = ys"
  using assms
proof (induction xs ys arbitrary: m n rule: list_induct2)
  case Nil
  then show ?case by simp
next
  case (Cons x xs y ys)
  have eq: "place_value b (m * b + x) xs = place_value b (n * b + y) ys"
    using Cons.prems(3) by simp
  have "m * b + x = n * b + y \<and> xs = ys"
    by (rule Cons.IH[OF _ _ eq]) (use Cons.prems in simp_all)
  moreover have "x < b" "y < b" using Cons.prems(1,2) by simp_all
  ultimately show ?case by (simp add: digits_inj)
qed

lemma unat_u16_less: "unat (w::u16) < 65536"
  using unsigned_less[of w] by simp

lemma ip_num_V4: "ip_num (V4 a b c d) = ip_num (V4 a' b' c' d') \<Longrightarrow> V4 a b c d = V4 a' b' c' d'"
  using place_value_inj[of "map unat [a, b, c, d]" "map unat [a', b', c', d']" 256 0 0]
  by (simp add: unat_byte word_unat_eq_iff del: place_value.simps)

lemma ip_num_V6:
  "ip_num (V6 a b c d e f g h) = ip_num (V6 a' b' c' d' e' f' g' h') \<Longrightarrow>
     V6 a b c d e f g h = V6 a' b' c' d' e' f' g' h'"
  using place_value_inj[of "map unat [a, b, c, d, e, f, g, h]"
      "map unat [a', b', c', d', e', f', g', h']" 65536 0 0]
  by (simp add: unat_u16_less word_unat_eq_iff del: place_value.simps)

lemma ip_num_inj: "ip_width ip = ip_width ip' \<Longrightarrow> ip_num ip = ip_num ip' \<Longrightarrow> ip = ip'"
  by (cases ip; cases ip') (auto simp del: ip_num.simps dest: ip_num_V4 ip_num_V6)

interpretation prefix_nets: ip_net prefix_nets
  by standard (auto simp: prefix_nets_def prefix_new_def prefix_contains_def intro: ip_num_inj)

end
