(* ===== verification/Validator.thy ===== *)
theory Validator
  imports Config_Model Http_Api
begin

text \<open>
  Configuration validation (\<open>gatepup-config/src/validator.rs\<close>). Every \<open>check_*\<close> function
  appends to one list of errors; here it returns what it appends. Networks are those of
  the \<open>net\<close> parameter, and \<open>url_parse\<close> stands for \<open>url::Url::parse\<close>, giving the scheme and
  whether there is a host. \<open>config_wf\<close> is the declarative reading of the same rules, and
  validation succeeds exactly on the configurations that satisfy it.
\<close>

section \<open>Errors\<close>

datatype ValidationError =
    DuplicateListenerName string
  | DuplicateUpstreamName string
  | DuplicateRouteName string string            \<comment> \<open>listener, route\<close>
  | UnknownUpstream string string               \<comment> \<open>route, upstream\<close>
  | InvalidBind string string                   \<comment> \<open>listener, bind\<close>
  | InvalidAdminBind string
  | EmptyAdminToken
  | InvalidTargetUrl string string              \<comment> \<open>upstream, url\<close>
  | EmptyTargets string
  | EmptyRouteMatch string string               \<comment> \<open>listener, route\<close>
  | HealthTimeoutNotLessThanInterval string u64 u64
  | ZeroTimeout string
  | MaxHeaderBytesTooSmall usize
  | InvalidTrustedProxy string
  | InvalidCompressionAlgorithm string
  | InvalidBasicAuth string string              \<comment> \<open>listener, route\<close>
  | ZeroWeight string string                    \<comment> \<open>upstream, url\<close>
  | InvalidLogLevel string
  | InvalidPathPrefix string string string      \<comment> \<open>listener, route, prefix\<close>
  | ConflictingRoutes string string string      \<comment> \<open>listener, first, second\<close>
  | InvalidWildcardHost string string string    \<comment> \<open>listener, route, host\<close>
  | InvalidRetryAttempts string
  | EmptyRetryList string string                \<comment> \<open>upstream, field\<close>
  | InvalidRetryMethod string string            \<comment> \<open>upstream, method\<close>
  | InvalidRetryOn string string                \<comment> \<open>upstream, value\<close>
  | MissingTls string
  | UnexpectedTls string
  | EmptyTlsPath string string                  \<comment> \<open>listener, field\<close>
  | InvalidHeaderName string string string      \<comment> \<open>listener, route, name\<close>
  | InvalidHeaderValue string string string     \<comment> \<open>listener, route, name\<close>
  | InvalidIpAccessCidr string string string string \<comment> \<open>listener, route, field, value\<close>
  | InvalidRateLimit string string f64          \<comment> \<open>listener, route, the value (rendered in the source)\<close>


section \<open>Syntax of single values\<close>

fun parse_trusted_proxy :: "'n net_api \<Rightarrow> string \<Rightarrow> 'n option" where
  "parse_trusted_proxy net value =
     (case net_parse net value of
        Some n \<Rightarrow> Some n
      | None \<Rightarrow>
          (case parse_ip value of
             None \<Rightarrow> None
           | Some (V4 a b c d) \<Rightarrow> net_new_v4 net a b c d 32
           | Some (V6 s0 s1 s2 s3 s4 s5 s6 s7) \<Rightarrow> net_new_v6 net s0 s1 s2 s3 s4 s5 s6 s7 128))"

definition is_valid_wildcard_host :: "string \<Rightarrow> bool" where
  "is_valid_wildcard_host host =
     (prefix ''*.'' host \<and> 2 < length host \<and> CHR ''*'' \<notin> set (drop 2 host))"

definition is_valid_target_url :: "(string \<Rightarrow> (string \<times> bool) option) \<Rightarrow> string \<Rightarrow> bool" where
  "is_valid_target_url url_parse raw =
     (case url_parse raw of
        Some (scheme, has_host) \<Rightarrow> (scheme = ''http'' \<or> scheme = ''https'') \<and> has_host
      | None \<Rightarrow> False)"

definition is_ascii_alphanumeric :: "char \<Rightarrow> bool" where
  "is_ascii_alphanumeric c =
     (let b = of_char c :: nat
      in (48 \<le> b \<and> b \<le> 57) \<or> (65 \<le> b \<and> b \<le> 90) \<or> (97 \<le> b \<and> b \<le> 122))"

text \<open>The bytes of \<open>!#$%&'*+-.^_`|~\<close>; the quote and the grave accent by their codes.\<close>

definition token_punctuation :: string where
  "token_punctuation = ''!#$%&'' @ [char_of (39::nat)] @ ''*+-.^_'' @ [char_of (96::nat)] @ ''|~''"

definition is_valid_header_name :: "string \<Rightarrow> bool" where
  "is_valid_header_name name =
     (name \<noteq> [] \<and> list_all (\<lambda>b. is_ascii_alphanumeric b \<or> b \<in> set token_punctuation) name)"

definition is_valid_header_value :: "string \<Rightarrow> bool" where
  "is_valid_header_value value =
     list_all (\<lambda>b. of_char b = (9::nat) \<or> (32 \<le> (of_char b :: nat) \<and> (of_char b :: nat) \<le> 126)) value"

definition effective_prefix :: "RouteConfig \<Rightarrow> string" where
  "effective_prefix route =
     (case mt_path_prefix (rt_matcher route) of
        Some p \<Rightarrow> if p \<noteq> [] then p else ''/''
      | None \<Rightarrow> ''/'')"


section \<open>The checks\<close>

definition log_levels :: "string list" where
  "log_levels = [''trace'', ''debug'', ''info'', ''warn'', ''error'', ''off'']"

definition check_app :: "GatePupConfig \<Rightarrow> ValidationError list" where
  "check_app config =
     (if to_ascii_lowercase (app_log_level (cf_app config)) \<in> set log_levels then []
      else [InvalidLogLevel (app_log_level (cf_app config))])"

fun unique_upstreams_from :: "string set \<Rightarrow> UpstreamConfig list \<Rightarrow> ValidationError list" where
  "unique_upstreams_from seen [] = []"
| "unique_upstreams_from seen (u # us) =
     (if us_name u \<in> seen then [DuplicateUpstreamName (us_name u)] else []) @
     unique_upstreams_from (insert (us_name u) seen) us"

definition check_unique_upstreams :: "GatePupConfig \<Rightarrow> ValidationError list" where
  "check_unique_upstreams config = unique_upstreams_from {} (cf_upstreams config)"

definition check_ip_acl ::
  "'n net_api \<Rightarrow> string \<Rightarrow> string \<Rightarrow> string \<Rightarrow> string list \<Rightarrow> ValidationError list" where
  "check_ip_acl net listener route field entries =
     map (InvalidIpAccessCidr listener route field)
       (filter (\<lambda>v. parse_trusted_proxy net v = None) entries)"

definition check_header_ops :: "string \<Rightarrow> string \<Rightarrow> HeaderOpsConfig \<Rightarrow> ValidationError list" where
  "check_header_ops listener route ops =
     map (InvalidHeaderName listener route)
       (filter (\<lambda>n. \<not> is_valid_header_name n) (ho_remove ops @ map fst (ho_set ops))) @
     map (\<lambda>(n, v). InvalidHeaderValue listener route n)
       (filter (\<lambda>(n, v). is_valid_header_name n \<and> \<not> is_valid_header_value v) (ho_set ops))"

definition check_listener_tls :: "ListenerConfig \<Rightarrow> ValidationError list" where
  "check_listener_tls listener =
     (case (ls_protocol listener, ls_tls listener) of
        (Https, None) \<Rightarrow> [MissingTls (ls_name listener)]
      | (Http, Some _) \<Rightarrow> [UnexpectedTls (ls_name listener)]
      | (_, Some tls) \<Rightarrow>
          (if tls_cert tls = [] then [EmptyTlsPath (ls_name listener) ''cert''] else []) @
          (if tls_key tls = [] then [EmptyTlsPath (ls_name listener) ''key''] else [])
      | (Http, None) \<Rightarrow> [])"

text \<open>The body of the route loop, apart from the two collections it threads.\<close>

definition check_route_match :: "string \<Rightarrow> RouteConfig \<Rightarrow> ValidationError list" where
  "check_route_match lname route =
     (if MatchConfig_is_empty (rt_matcher route) then [EmptyRouteMatch lname (rt_name route)] else []) @
     (case mt_path_prefix (rt_matcher route) of
        Some p \<Rightarrow> if p \<noteq> [] \<and> \<not> prefix ''/'' p then [InvalidPathPrefix lname (rt_name route) p] else []
      | None \<Rightarrow> []) @
     (case mt_host (rt_matcher route) of
        Some h \<Rightarrow> if CHR ''*'' \<in> set h \<and> \<not> is_valid_wildcard_host h
                  then [InvalidWildcardHost lname (rt_name route) h] else []
      | None \<Rightarrow> [])"

definition check_route_rest ::
  "'n net_api \<Rightarrow> string set \<Rightarrow> string \<Rightarrow> RouteConfig \<Rightarrow> ValidationError list" where
  "check_route_rest net upstream_names lname route =
     (if rt_upstream route \<in> upstream_names then [] else [UnknownUpstream (rt_name route) (rt_upstream route)]) @
     (case rt_headers route of
        Some rules \<Rightarrow> check_header_ops lname (rt_name route) (hr_request rules) @
                      check_header_ops lname (rt_name route) (hr_response rules)
      | None \<Rightarrow> []) @
     (case rt_ip_access route of
        Some acl \<Rightarrow> check_ip_acl net lname (rt_name route) ''allow'' (ip_allow acl) @
                    check_ip_acl net lname (rt_name route) ''deny'' (ip_deny acl)
      | None \<Rightarrow> []) @
     (case rt_rate_limit route of
        Some rl \<Rightarrow>
          if \<not> f64_is_finite (rl_requests_per_second rl) \<or> f64_le (rl_requests_per_second rl) (Fin 0)
          then [InvalidRateLimit lname (rt_name route) (rl_requests_per_second rl)] else []
      | None \<Rightarrow> []) @
     (case rt_basic_auth route of
        Some ba \<Rightarrow>
          if ba_users ba = [] \<or> list_ex (\<lambda>(u, p). u = [] \<or> p = []) (ba_users ba)
          then [InvalidBasicAuth lname (rt_name route)] else []
      | None \<Rightarrow> [])"

fun check_routes ::
  "'n net_api \<Rightarrow> string set \<Rightarrow> string \<Rightarrow> string set \<Rightarrow> (string option \<times> string \<rightharpoonup> string) \<Rightarrow>
   RouteConfig list \<Rightarrow> ValidationError list" where
  "check_routes net upstream_names lname seen_routes seen_matches [] = []"
| "check_routes net upstream_names lname seen_routes seen_matches (route # routes) =
     (let key = (mt_host (rt_matcher route), effective_prefix route)
      in (if rt_name route \<in> seen_routes then [DuplicateRouteName lname (rt_name route)] else []) @
         check_route_match lname route @
         (case seen_matches key of
            Some first \<Rightarrow> [ConflictingRoutes lname first (rt_name route)]
          | None \<Rightarrow> []) @
         check_route_rest net upstream_names lname route @
         check_routes net upstream_names lname (insert (rt_name route) seen_routes)
           (case seen_matches key of
              Some first \<Rightarrow> seen_matches
            | None \<Rightarrow> seen_matches(key \<mapsto> rt_name route))
           routes)"

fun check_listeners_from ::
  "'n net_api \<Rightarrow> string set \<Rightarrow> string set \<Rightarrow> ListenerConfig list \<Rightarrow> ValidationError list" where
  "check_listeners_from net upstream_names seen [] = []"
| "check_listeners_from net upstream_names seen (l # ls) =
     (if ls_name l \<in> seen then [DuplicateListenerName (ls_name l)] else []) @
     (if parse_socket_addr (ls_bind l) = None then [InvalidBind (ls_name l) (ls_bind l)] else []) @
     check_listener_tls l @
     check_routes net upstream_names (ls_name l) {} Map.empty (ls_routes l) @
     check_listeners_from net upstream_names (insert (ls_name l) seen) ls"

definition check_listeners :: "'n net_api \<Rightarrow> string set \<Rightarrow> GatePupConfig \<Rightarrow> ValidationError list" where
  "check_listeners net upstream_names config =
     check_listeners_from net upstream_names {} (cf_listeners config)"

text \<open>\<open>u64::saturating_mul\<close>\<close>

definition saturating_mul :: "u64 \<Rightarrow> u64 \<Rightarrow> u64" where
  "saturating_mul a b = (if uint a * uint b < 2 ^ 64 then a * b else - 1)"

definition check_health_timeout :: "string \<Rightarrow> HealthCheckConfig \<Rightarrow> ValidationError list" where
  "check_health_timeout upstream hc =
     (let interval_ms = saturating_mul (hc_interval_seconds hc) 1000
      in if interval_ms \<le> hc_timeout_ms hc
         then [HealthTimeoutNotLessThanInterval upstream (hc_timeout_ms hc) interval_ms] else [])"

definition check_target ::
  "(string \<Rightarrow> (string \<times> bool) option) \<Rightarrow> string \<Rightarrow> TargetConfig \<Rightarrow> ValidationError list" where
  "check_target url_parse upstream t =
     (if is_valid_target_url url_parse (tg_url t) then [] else [InvalidTargetUrl upstream (tg_url t)]) @
     (if tg_weight t = 0 then [ZeroWeight upstream (tg_url t)] else [])"

definition check_upstream ::
  "(string \<Rightarrow> (string \<times> bool) option) \<Rightarrow> UpstreamConfig \<Rightarrow> ValidationError list" where
  "check_upstream url_parse u =
     (if us_targets u = [] then [EmptyTargets (us_name u)] else []) @
     concat (map (check_target url_parse (us_name u)) (us_targets u)) @
     (case us_health_check u of Some hc \<Rightarrow> check_health_timeout (us_name u) hc | None \<Rightarrow> [])"

definition check_upstreams ::
  "(string \<Rightarrow> (string \<times> bool) option) \<Rightarrow> GatePupConfig \<Rightarrow> ValidationError list" where
  "check_upstreams url_parse config = concat (map (check_upstream url_parse) (cf_upstreams config))"

definition retry_methods :: "string list" where
  "retry_methods =
     [''GET'', ''HEAD'', ''POST'', ''PUT'', ''PATCH'', ''DELETE'', ''OPTIONS'', ''TRACE'', ''CONNECT'']"

definition retry_conditions :: "string list" where
  "retry_conditions = [''connect_error'', ''connect_timeout'', ''upstream_5xx'']"

definition check_retry :: "UpstreamConfig \<Rightarrow> ValidationError list" where
  "check_retry u =
     (case us_retries u of
        None \<Rightarrow> []
      | Some retries \<Rightarrow>
          if \<not> re_enabled retries then []
          else
            (if re_attempts retries < 1 then [InvalidRetryAttempts (us_name u)] else []) @
            (if re_methods retries = [] then [EmptyRetryList (us_name u) ''methods''] else []) @
            (if re_retry_on retries = [] then [EmptyRetryList (us_name u) ''retryOn''] else []) @
            map (InvalidRetryMethod (us_name u))
              (filter (\<lambda>m. m \<notin> set retry_methods) (re_methods retries)) @
            map (InvalidRetryOn (us_name u))
              (filter (\<lambda>c. c \<notin> set retry_conditions) (re_retry_on retries)))"

definition check_retries :: "GatePupConfig \<Rightarrow> ValidationError list" where
  "check_retries config = concat (map check_retry (cf_upstreams config))"

definition check_admin :: "GatePupConfig \<Rightarrow> ValidationError list" where
  "check_admin config =
     (case cf_admin config of
        None \<Rightarrow> []
      | Some admin \<Rightarrow>
          (if parse_socket_addr (ad_bind admin) = None then [InvalidAdminBind (ad_bind admin)] else []) @
          (if ad_token admin = Some [] then [EmptyAdminToken] else []))"

definition check_timeouts :: "GatePupConfig \<Rightarrow> ValidationError list" where
  "check_timeouts config =
     (if tmo_connect_timeout_ms (cf_timeouts config) = 0 then [ZeroTimeout ''connectTimeoutMs''] else []) @
     (if tmo_request_timeout_ms (cf_timeouts config) = 0 then [ZeroTimeout ''requestTimeoutMs''] else [])"

definition MIN_HEADER_BYTES :: usize where
  "MIN_HEADER_BYTES = 8192"

definition check_limits :: "GatePupConfig \<Rightarrow> ValidationError list" where
  "check_limits config =
     (let max_header = lim_max_header_bytes (cf_limits config)
      in if max_header \<noteq> 0 \<and> max_header < MIN_HEADER_BYTES then [MaxHeaderBytesTooSmall max_header] else [])"

definition check_compression :: "GatePupConfig \<Rightarrow> ValidationError list" where
  "check_compression config =
     (case cf_compression config of
        None \<Rightarrow> []
      | Some c \<Rightarrow> map InvalidCompressionAlgorithm
          (filter (\<lambda>a. a \<noteq> ''gzip'' \<and> a \<noteq> ''br'') (cmp_algorithms c)))"

definition check_trusted_proxies :: "'n net_api \<Rightarrow> GatePupConfig \<Rightarrow> ValidationError list" where
  "check_trusted_proxies net config =
     map InvalidTrustedProxy
       (filter (\<lambda>e. parse_trusted_proxy net e = None) (cf_trusted_proxies config))"

definition validate ::
  "'n net_api \<Rightarrow> (string \<Rightarrow> (string \<times> bool) option) \<Rightarrow> GatePupConfig \<Rightarrow> (unit, ValidationError list) result" where
  "validate net url_parse config =
     (let upstream_names = us_name ` set (cf_upstreams config);
          errors =
            check_app config @
            check_unique_upstreams config @
            check_listeners net upstream_names config @
            check_upstreams url_parse config @
            check_retries config @
            check_admin config @
            check_timeouts config @
            check_limits config @
            check_trusted_proxies net config @
            check_compression config
      in if errors = [] then Ok () else Err errors)"


section \<open>Well-formed configurations\<close>

definition header_ops_wf :: "HeaderOpsConfig \<Rightarrow> bool" where
  "header_ops_wf ops \<longleftrightarrow>
     (\<forall>n \<in> set (ho_remove ops). is_valid_header_name n) \<and>
     (\<forall>(n, v) \<in> set (ho_set ops). is_valid_header_name n \<and> is_valid_header_value v)"

definition nets_wf :: "'n net_api \<Rightarrow> string list \<Rightarrow> bool" where
  "nets_wf net entries \<longleftrightarrow> (\<forall>e \<in> set entries. parse_trusted_proxy net e \<noteq> None)"

text \<open>A positive finite rate.\<close>

fun rate_wf :: "f64 \<Rightarrow> bool" where
  "rate_wf (Fin q) = (0 < q)"
| "rate_wf _ = False"

definition match_wf :: "MatchConfig \<Rightarrow> bool" where
  "match_wf m \<longleftrightarrow>
     \<not> MatchConfig_is_empty m \<and>
     (\<forall>p. mt_path_prefix m = Some p \<longrightarrow> p = [] \<or> prefix ''/'' p) \<and>
     (\<forall>h. mt_host m = Some h \<longrightarrow> CHR ''*'' \<in> set h \<longrightarrow> is_valid_wildcard_host h)"

definition route_wf :: "'n net_api \<Rightarrow> string set \<Rightarrow> RouteConfig \<Rightarrow> bool" where
  "route_wf net names r \<longleftrightarrow>
     match_wf (rt_matcher r) \<and>
     rt_upstream r \<in> names \<and>
     (\<forall>h. rt_headers r = Some h \<longrightarrow> header_ops_wf (hr_request h) \<and> header_ops_wf (hr_response h)) \<and>
     (\<forall>a. rt_ip_access r = Some a \<longrightarrow> nets_wf net (ip_allow a) \<and> nets_wf net (ip_deny a)) \<and>
     (\<forall>l. rt_rate_limit r = Some l \<longrightarrow> rate_wf (rl_requests_per_second l)) \<and>
     (\<forall>b. rt_basic_auth r = Some b \<longrightarrow>
        ba_users b \<noteq> [] \<and> (\<forall>(u, p) \<in> set (ba_users b). u \<noteq> [] \<and> p \<noteq> []))"

definition route_key :: "RouteConfig \<Rightarrow> string option \<times> string" where
  "route_key r = (mt_host (rt_matcher r), effective_prefix r)"

definition tls_wf :: "ListenerConfig \<Rightarrow> bool" where
  "tls_wf l \<longleftrightarrow>
     (case ls_tls l of
        None \<Rightarrow> ls_protocol l = Http
      | Some tls \<Rightarrow> ls_protocol l = Https \<and> tls_cert tls \<noteq> [] \<and> tls_key tls \<noteq> [])"

definition listener_wf :: "'n net_api \<Rightarrow> string set \<Rightarrow> ListenerConfig \<Rightarrow> bool" where
  "listener_wf net names l \<longleftrightarrow>
     parse_socket_addr (ls_bind l) \<noteq> None \<and> tls_wf l \<and>
     distinct (map rt_name (ls_routes l)) \<and> distinct (map route_key (ls_routes l)) \<and>
     (\<forall>r \<in> set (ls_routes l). route_wf net names r)"

definition upstream_wf :: "(string \<Rightarrow> (string \<times> bool) option) \<Rightarrow> UpstreamConfig \<Rightarrow> bool" where
  "upstream_wf url_parse u \<longleftrightarrow>
     us_targets u \<noteq> [] \<and>
     (\<forall>t \<in> set (us_targets u). is_valid_target_url url_parse (tg_url t) \<and> tg_weight t \<noteq> 0) \<and>
     (\<forall>h. us_health_check u = Some h \<longrightarrow>
        unat (hc_timeout_ms h) < min (unat (hc_interval_seconds h) * 1000) (2 ^ 64 - 1)) \<and>
     (\<forall>r. us_retries u = Some r \<longrightarrow> re_enabled r \<longrightarrow>
        re_attempts r \<noteq> 0 \<and> re_methods r \<noteq> [] \<and> re_retry_on r \<noteq> [] \<and>
        set (re_methods r) \<subseteq> set retry_methods \<and> set (re_retry_on r) \<subseteq> set retry_conditions)"

definition config_wf ::
  "'n net_api \<Rightarrow> (string \<Rightarrow> (string \<times> bool) option) \<Rightarrow> GatePupConfig \<Rightarrow> bool" where
  "config_wf net url_parse c \<longleftrightarrow>
     to_ascii_lowercase (app_log_level (cf_app c)) \<in> set log_levels \<and>
     distinct (map us_name (cf_upstreams c)) \<and>
     distinct (map ls_name (cf_listeners c)) \<and>
     (\<forall>l \<in> set (cf_listeners c). listener_wf net (us_name ` set (cf_upstreams c)) l) \<and>
     (\<forall>u \<in> set (cf_upstreams c). upstream_wf url_parse u) \<and>
     (\<forall>a. cf_admin c = Some a \<longrightarrow> parse_socket_addr (ad_bind a) \<noteq> None \<and> ad_token a \<noteq> Some []) \<and>
     tmo_connect_timeout_ms (cf_timeouts c) \<noteq> 0 \<and> tmo_request_timeout_ms (cf_timeouts c) \<noteq> 0 \<and>
     (lim_max_header_bytes (cf_limits c) = 0 \<or> 8192 \<le> lim_max_header_bytes (cf_limits c)) \<and>
     nets_wf net (cf_trusted_proxies c) \<and>
     (\<forall>z. cf_compression c = Some z \<longrightarrow> set (cmp_algorithms z) \<subseteq> {''gzip'', ''br''})"


section \<open>Each check against its clause\<close>

lemma unique_upstreams_from_Nil:
  "unique_upstreams_from seen us = [] \<longleftrightarrow> distinct (map us_name us) \<and> us_name ` set us \<inter> seen = {}"
  by (induction us arbitrary: seen) auto

lemma check_ip_acl_Nil: "check_ip_acl net l r f es = [] \<longleftrightarrow> nets_wf net es"
  by (simp add: check_ip_acl_def nets_wf_def filter_empty_conv)

lemma check_header_ops_Nil: "check_header_ops l r ops = [] \<longleftrightarrow> header_ops_wf ops"
  by (fastforce simp: check_header_ops_def header_ops_wf_def filter_empty_conv)

lemma check_listener_tls_Nil: "check_listener_tls l = [] \<longleftrightarrow> tls_wf l"
  by (cases "ls_protocol l"; cases "ls_tls l") (simp_all add: check_listener_tls_def tls_wf_def)

lemma check_route_match_Nil: "check_route_match l r = [] \<longleftrightarrow> match_wf (rt_matcher r)"
  by (auto simp: check_route_match_def match_wf_def split: option.splits)

lemma rate_check: "rate_wf x \<longleftrightarrow> f64_is_finite x \<and> \<not> f64_le x (Fin 0)"
  by (cases x) (auto simp: not_less)

lemma check_route_rest_Nil:
  "check_route_match l r = [] \<and> check_route_rest net names l r = [] \<longleftrightarrow> route_wf net names r"
  by (auto simp: check_route_rest_def route_wf_def check_route_match_Nil check_header_ops_Nil
      check_ip_acl_Nil rate_check list_ex_iff case_prod_unfold split: option.splits)

text \<open>The two collections the route loop threads detect exactly the repeated names and keys.\<close>

lemma check_routes_Nil:
  "check_routes net names l seen ms rs = [] \<longleftrightarrow>
     distinct (map rt_name rs) \<and> rt_name ` set rs \<inter> seen = {} \<and>
     distinct (map route_key rs) \<and> route_key ` set rs \<inter> dom ms = {} \<and>
     (\<forall>r \<in> set rs. route_wf net names r)"
proof (induction rs arbitrary: seen ms)
  case Nil
  show ?case by simp
next
  case (Cons r rs)
  show ?case
  proof (cases "ms (route_key r)")
    case None
    then have new: "route_key r \<notin> dom ms" by (simp add: domIff)
    have "check_routes net names l seen ms (r # rs) = [] \<longleftrightarrow>
        rt_name r \<notin> seen \<and> route_wf net names r \<and>
        check_routes net names l (insert (rt_name r) seen) (ms(route_key r \<mapsto> rt_name r)) rs = []"
      unfolding check_route_rest_Nil[of l r net names, symmetric]
      using None by (simp add: Let_def route_key_def[symmetric])
    also have "\<dots> \<longleftrightarrow> rt_name r \<notin> seen \<and> route_wf net names r \<and>
        distinct (map rt_name rs) \<and> rt_name ` set rs \<inter> insert (rt_name r) seen = {} \<and>
        distinct (map route_key rs) \<and> route_key ` set rs \<inter> insert (route_key r) (dom ms) = {} \<and>
        (\<forall>r \<in> set rs. route_wf net names r)"
      by (simp only: Cons.IH dom_fun_upd option.distinct if_False)
    finally show ?thesis using new by auto
  next
    case (Some f)
    then show ?thesis by (simp add: Let_def route_key_def[symmetric] domI)
  qed
qed

lemma check_listeners_from_Nil:
  "check_listeners_from net names seen ls = [] \<longleftrightarrow>
     distinct (map ls_name ls) \<and> ls_name ` set ls \<inter> seen = {} \<and> (\<forall>l \<in> set ls. listener_wf net names l)"
  by (induction ls arbitrary: seen)
    (auto simp: check_listener_tls_Nil check_routes_Nil listener_wf_def)

lemma unat_saturating_mul: "unat (saturating_mul a b) = min (unat a * unat b) (2 ^ 64 - 1)"
proof (cases "unat a * unat b < 2 ^ 64")
  case True
  moreover from True have "int (unat a * unat b) < int (2 ^ 64)" by (simp only: of_nat_less_iff)
  ultimately show ?thesis by (simp add: saturating_mul_def unat_word_ariths)
next
  case False
  moreover from False have "int (2 ^ 64) \<le> int (unat a * unat b)" by (simp only: of_nat_le_iff not_less)
  ultimately show ?thesis by (simp add: saturating_mul_def unsigned_minus_1_eq_mask mask_eq_exp_minus_1)
qed

lemma check_health_timeout_Nil:
  "check_health_timeout u h = [] \<longleftrightarrow>
     unat (hc_timeout_ms h) < min (unat (hc_interval_seconds h) * 1000) (2 ^ 64 - 1)"
  using unat_saturating_mul[of "hc_interval_seconds h" 1000]
  by (auto simp: check_health_timeout_def Let_def word_le_nat_alt min_def)

lemma check_retry_Nil:
  "check_retry u = [] \<longleftrightarrow>
     (\<forall>r. us_retries u = Some r \<longrightarrow> re_enabled r \<longrightarrow>
        re_attempts r \<noteq> 0 \<and> re_methods r \<noteq> [] \<and> re_retry_on r \<noteq> [] \<and>
        set (re_methods r) \<subseteq> set retry_methods \<and> set (re_retry_on r) \<subseteq> set retry_conditions)"
  by (auto simp: check_retry_def filter_empty_conv word_less_1 split: option.splits)

lemma check_upstream_Nil:
  "check_upstream url_parse u = [] \<and> check_retry u = [] \<longleftrightarrow> upstream_wf url_parse u"
  unfolding check_retry_Nil
  by (auto simp: check_upstream_def check_target_def upstream_wf_def check_health_timeout_Nil
      split: option.splits if_splits)


lemma validate_Ok_iff: "validate net url_parse c = Ok () \<longleftrightarrow> config_wf net url_parse c"
proof -
  have app: "check_app c = [] \<longleftrightarrow> to_ascii_lowercase (app_log_level (cf_app c)) \<in> set log_levels"
    by (simp add: check_app_def)
  have ups: "check_upstreams url_parse c = [] \<and> check_retries c = [] \<longleftrightarrow>
      (\<forall>u \<in> set (cf_upstreams c). upstream_wf url_parse u)"
    unfolding check_upstream_Nil[symmetric] by (auto simp: check_upstreams_def check_retries_def)
  have admin: "check_admin c = [] \<longleftrightarrow>
      (\<forall>a. cf_admin c = Some a \<longrightarrow> parse_socket_addr (ad_bind a) \<noteq> None \<and> ad_token a \<noteq> Some [])"
    by (auto simp: check_admin_def split: option.splits)
  have limits: "check_limits c = [] \<longleftrightarrow>
      lim_max_header_bytes (cf_limits c) = 0 \<or> 8192 \<le> lim_max_header_bytes (cf_limits c)"
    by (auto simp: check_limits_def MIN_HEADER_BYTES_def Let_def not_less)
  have comp: "check_compression c = [] \<longleftrightarrow>
      (\<forall>z. cf_compression c = Some z \<longrightarrow> set (cmp_algorithms z) \<subseteq> {''gzip'', ''br''})"
    by (auto simp: check_compression_def filter_empty_conv split: option.splits)
  have "validate net url_parse c = Ok () \<longleftrightarrow>
      check_app c = [] \<and> check_unique_upstreams c = [] \<and>
      check_listeners net (us_name ` set (cf_upstreams c)) c = [] \<and>
      (check_upstreams url_parse c = [] \<and> check_retries c = []) \<and> check_admin c = [] \<and>
      check_timeouts c = [] \<and> check_limits c = [] \<and> check_trusted_proxies net c = [] \<and>
      check_compression c = []"
    by (simp add: validate_def Let_def)
  then show ?thesis
    unfolding app ups admin limits comp config_wf_def
    by (auto simp: check_unique_upstreams_def unique_upstreams_from_Nil check_listeners_def
        check_listeners_from_Nil check_timeouts_def check_trusted_proxies_def nets_wf_def
        filter_empty_conv)
qed

section \<open>Properties\<close>

text \<open>C8. Validation accepts exactly the well-formed configurations: no error is reported on a
  configuration that satisfies every rule, and a violation of any rule is reported.\<close>

theorem validate_iff_wf: "validate net url_parse c = Ok () \<longleftrightarrow> config_wf net url_parse c"
  by (rule validate_Ok_iff)

end
