(* ===== verification/Rust_F64.thy ===== *)
theory Rust_F64
  imports Config_Model "HOL-Library.Log_Nat"
begin

text \<open>
  IEEE-754 binary64 arithmetic as the rate limiter uses it: values are rationals, and every
  operation rounds its exact result to the nearest 53-bit significand, ties to even, with
  gradual underflow at \<open>2^-1074\<close> and overflow to infinity at \<open>2^1024\<close>. The two zeros are
  one value. The second half states what clients rely on as the locale
  \<open>nearest_rounding\<close> and proves that this rounding provides it.
\<close>

section \<open>Rounding\<close>

text \<open>The exponent of a positive rational: \<open>2^k \<le> x < 2^(k+1)\<close>.\<close>

definition ilog2 :: "rat \<Rightarrow> int" where
  "ilog2 x =
     (let (n, d) = quotient_of x; k = bitlen n - bitlen d
      in if 2 powi k \<le> x then k else k - 1)"

definition round_half_even :: "rat \<Rightarrow> int" where
  "round_half_even x =
     (let f = \<lfloor>x\<rfloor>; r = x - of_int f
      in if r < 1/2 then f else if 1/2 < r then f + 1 else if even f then f else f + 1)"

definition f64_exp :: "rat \<Rightarrow> int" where
  "f64_exp x = max (ilog2 \<bar>x\<bar> - 52) (- 1074)"

definition rnd :: "rat \<Rightarrow> rat" where
  "rnd x =
     (if x = 0 then 0
      else of_int (round_half_even (x / 2 powi f64_exp x)) * 2 powi f64_exp x)"

definition round_f64 :: "rat \<Rightarrow> f64" where
  "round_f64 x =
     (if \<bar>rnd x\<bar> < 2 ^ 1024 then Fin (rnd x) else if 0 < x then PosInf else NegInf)"


section \<open>Operations\<close>

fun f64_neg :: "f64 \<Rightarrow> f64" where
  "f64_neg (Fin x) = Fin (- x)"
| "f64_neg PosInf = NegInf"
| "f64_neg NegInf = PosInf"
| "f64_neg NaN = NaN"

fun f64_add :: "f64 \<Rightarrow> f64 \<Rightarrow> f64" where
  "f64_add (Fin x) (Fin y) = round_f64 (x + y)"
| "f64_add NaN _ = NaN"
| "f64_add _ NaN = NaN"
| "f64_add PosInf NegInf = NaN"
| "f64_add NegInf PosInf = NaN"
| "f64_add PosInf _ = PosInf"
| "f64_add _ PosInf = PosInf"
| "f64_add NegInf _ = NegInf"
| "f64_add _ NegInf = NegInf"

definition f64_sub :: "f64 \<Rightarrow> f64 \<Rightarrow> f64" where
  "f64_sub x y = f64_add x (f64_neg y)"

definition signed_inf :: "rat \<Rightarrow> f64" where
  "signed_inf x = (if x = 0 then NaN else if 0 < x then PosInf else NegInf)"

fun f64_mul :: "f64 \<Rightarrow> f64 \<Rightarrow> f64" where
  "f64_mul (Fin x) (Fin y) = round_f64 (x * y)"
| "f64_mul NaN _ = NaN"
| "f64_mul _ NaN = NaN"
| "f64_mul PosInf PosInf = PosInf"
| "f64_mul PosInf NegInf = NegInf"
| "f64_mul NegInf PosInf = NegInf"
| "f64_mul NegInf NegInf = PosInf"
| "f64_mul PosInf (Fin y) = signed_inf y"
| "f64_mul (Fin x) PosInf = signed_inf x"
| "f64_mul NegInf (Fin y) = signed_inf (- y)"
| "f64_mul (Fin x) NegInf = signed_inf (- x)"

text \<open>\<open>f64::min\<close> and \<open>f64::max\<close> return the other operand when one is NaN.\<close>

definition f64_min :: "f64 \<Rightarrow> f64 \<Rightarrow> f64" where
  "f64_min x y = (if x = NaN then y else if y = NaN then x else if f64_le x y then x else y)"

definition f64_max :: "f64 \<Rightarrow> f64 \<Rightarrow> f64" where
  "f64_max x y = (if x = NaN then y else if y = NaN then x else if f64_le x y then y else x)"

definition f64_ceil :: "f64 \<Rightarrow> f64" where
  "f64_ceil x = (case x of Fin q \<Rightarrow> Fin (of_int \<lceil>q\<rceil>) | _ \<Rightarrow> x)"

text \<open>\<open>n as f64\<close> for an unsigned integer.\<close>

definition f64_of_nat :: "nat \<Rightarrow> f64" where
  "f64_of_nat n = round_f64 (of_nat n)"

text \<open>\<open>Duration::as_secs_f64\<close>: \<open>(secs as f64) + (nanos as f64) / 1e9\<close>.\<close>

definition as_secs_f64 :: "nat \<Rightarrow> f64" where
  "as_secs_f64 ns =
     f64_add (f64_of_nat (ns div 1000000000))
       (round_f64 (of_nat (ns mod 1000000000) / 1000000000))"


section \<open>The exponent\<close>

lemma powi_pos [simp]: "(0::rat) < 2 powi k"
  by (rule zero_less_power_int) simp

lemma powi_le_iff: "(2::rat) powi a \<le> 2 powi b \<longleftrightarrow> a \<le> b"
  by (meson linorder_not_less one_less_numeral_iff power_int_increasing power_int_strict_increasing
      semiring_norm(76) one_le_numeral)

lemma powi_less_iff: "(2::rat) powi a < 2 powi b \<longleftrightarrow> a < b"
  using powi_le_iff[of b a] by linarith

lemma powi_add: "(2::rat) powi (a + b) = 2 powi a * 2 powi b"
  by (simp add: power_int_add)

lemma powi_Suc: "(2::rat) powi (a + 1) = 2 * 2 powi a"
  by (simp add: powi_add)

lemma powi_sub: "(2::rat) powi (a - b) = 2 powi a / 2 powi b"
  by (simp add: power_int_diff)

lemma bitlen_powi:
  assumes "0 < n"
  shows "2 powi (bitlen n - 1) \<le> (of_int n :: rat)" "(of_int n :: rat) < 2 powi bitlen n"
proof -
  have b: "2 ^ nat (bitlen n - 1) \<le> n" "n < 2 ^ nat (bitlen n)" using bitlen_bounds[OF assms] by auto
  have pos: "0 < bitlen n" using assms bitlen_eq_zero_iff[of n] bitlen_nonneg[of n] by linarith
  then have "(2::rat) powi (bitlen n - 1) = of_int (2 ^ nat (bitlen n - 1))"
    "(2::rat) powi bitlen n = of_int (2 ^ nat (bitlen n))" by (simp_all add: power_int_def)
  then show "2 powi (bitlen n - 1) \<le> (of_int n :: rat)" "(of_int n :: rat) < 2 powi bitlen n"
    using b by (simp_all only: of_int_le_iff of_int_less_iff)
qed

lemma ilog2_bounds:
  assumes "0 < x"
  shows "2 powi ilog2 x \<le> x" "x < 2 powi (ilog2 x + 1)"
proof -
  obtain n d where q: "quotient_of x = (n, d)" by (cases "quotient_of x")
  have d: "0 < d" using quotient_of_denom_pos[OF q] .
  have x: "x = of_int n / of_int d" using quotient_of_div[OF q] .
  have n: "0 < n" using assms d by (simp add: x zero_less_divide_iff)
  let ?k = "bitlen n - bitlen d"
  have up: "x < 2 powi (?k + 1)"
  proof -
    have "x < 2 powi bitlen n / 2 powi (bitlen d - 1)"
      unfolding x using bitlen_powi[OF n] bitlen_powi[OF d] d n
      by (intro frac_less) (simp_all add: less_imp_le)
    then show ?thesis by (simp add: powi_sub[symmetric] algebra_simps)
  qed
  have low: "2 powi (?k - 1) \<le> x"
  proof -
    have "2 powi (bitlen n - 1) / 2 powi bitlen d \<le> x"
      unfolding x using bitlen_powi[OF n] bitlen_powi[OF d] d n
      by (intro frac_le) (simp_all add: less_imp_le)
    then show ?thesis by (simp add: powi_sub[symmetric] algebra_simps)
  qed
  show "2 powi ilog2 x \<le> x" "x < 2 powi (ilog2 x + 1)"
    using up low by (auto simp: ilog2_def q Let_def)
qed

lemma ilog2_mono: "0 < x \<Longrightarrow> x \<le> y \<Longrightarrow> ilog2 x \<le> ilog2 y"
proof -
  assume "0 < x" "x \<le> y"
  then have "(2::rat) powi ilog2 x < 2 powi (ilog2 y + 1)"
    using ilog2_bounds(1)[of x] ilog2_bounds(2)[of y] by linarith
  then show ?thesis by (simp add: powi_less_iff)
qed



section \<open>Rounding to an integer\<close>

lemma round_half_even_error: "\<bar>of_int (round_half_even x) - x\<bar> \<le> 1/2"
proof -
  have "of_int \<lfloor>x\<rfloor> \<le> x" "x < of_int \<lfloor>x\<rfloor> + 1" by linarith+
  then show ?thesis by (auto simp: round_half_even_def Let_def abs_le_iff)
qed

lemma round_half_even_of_int [simp]: "round_half_even (of_int n) = n"
  by (simp add: round_half_even_def)

lemma round_half_even_floor: "\<lfloor>x\<rfloor> \<le> round_half_even x" "round_half_even x \<le> \<lfloor>x\<rfloor> + 1"
  by (auto simp: round_half_even_def Let_def)

lemma round_half_even_mono:
  assumes "x \<le> y"
  shows "round_half_even x \<le> round_half_even y"
proof (cases "\<lfloor>x\<rfloor> = \<lfloor>y\<rfloor>")
  case True
  then have "x - of_int \<lfloor>x\<rfloor> \<le> y - of_int \<lfloor>y\<rfloor>" using assms by simp
  then show ?thesis using True by (auto simp: round_half_even_def Let_def)
next
  case False
  then have "\<lfloor>x\<rfloor> + 1 \<le> \<lfloor>y\<rfloor>" using floor_mono[OF assms] by linarith
  then show ?thesis using round_half_even_floor(2)[of x] round_half_even_floor(1)[of y] by linarith
qed

lemma round_half_even_ge: "of_int n \<le> x \<Longrightarrow> n \<le> round_half_even x"
  using round_half_even_mono[of "of_int n" x] by simp

lemma round_half_even_le: "x \<le> of_int n \<Longrightarrow> round_half_even x \<le> n"
  using round_half_even_mono[of x "of_int n"] by simp


section \<open>Rounding to 53 bits\<close>

lemma f64_exp_upper: "0 < x \<Longrightarrow> x / 2 powi f64_exp x < 2 ^ 53"
proof -
  assume x: "0 < x"
  have "x < 2 powi (ilog2 x + 1)" by (rule ilog2_bounds(2)[OF x])
  also have "\<dots> \<le> 2 powi (f64_exp x + 53)" using x by (simp add: powi_le_iff f64_exp_def)
  also have "\<dots> = 2 powi f64_exp x * 2 ^ 53" by (simp add: powi_add)
  finally show ?thesis by (simp add: divide_less_eq mult.commute)
qed

lemma f64_exp_lower: "0 < x \<Longrightarrow> - 1074 < f64_exp x \<Longrightarrow> 2 ^ 52 \<le> x / 2 powi f64_exp x"
proof -
  assume x: "0 < x" and normal: "- 1074 < f64_exp x"
  then have "2 powi (f64_exp x + 52) \<le> x"
    using ilog2_bounds(1)[OF x] by (simp add: f64_exp_def max_def split: if_splits)
  then have "2 powi f64_exp x * 2 ^ 52 \<le> x" by (simp add: powi_add)
  then show ?thesis by (simp add: le_divide_eq mult.commute)
qed

lemma f64_exp_mono: "0 < x \<Longrightarrow> x \<le> y \<Longrightarrow> f64_exp x \<le> f64_exp y"
  using ilog2_mono[of x y] by (simp add: f64_exp_def max_def)

text \<open>A multiple of \<open>2^e\<close> with at most 53 significant bits is not changed.\<close>

lemma rnd_exact:
  assumes "x = of_int m * 2 powi e" "0 \<le> m" "m \<le> 2 ^ 53" "- 1074 \<le> e"
  shows "rnd x = x"
proof (cases "m = 0")
  case True
  then show ?thesis using assms(1) by (simp add: rnd_def)
next
  case False
  then have x: "0 < x" using assms(1,2) by (simp add: zero_less_mult_iff)
  have "rnd x = x" if x: "x = of_int m * 2 powi e" "0 < m" "m < 2 ^ 53" "- 1074 \<le> e" for m e
  proof -
    have pos: "0 < x" using x by (simp add: zero_less_mult_iff)
    have "(of_int m :: rat) < of_int (2 ^ 53)" using x(3) by (simp only: of_int_less_iff)
    then have "x < 2 powi (e + 53)"
      unfolding x(1) powi_add by simp
    then have "(2::rat) powi ilog2 x < 2 powi (e + 53)" using ilog2_bounds(1)[OF pos] by linarith
    then have "f64_exp x \<le> e" using pos x(4) by (simp add: powi_less_iff f64_exp_def)
    then have pow: "(2::rat) powi (e - f64_exp x) = of_int (2 ^ nat (e - f64_exp x))"
      by (simp add: power_int_def)
    have "x / 2 powi f64_exp x = of_int m * 2 powi (e - f64_exp x)"
      using arg_cong[OF x(1), of "\<lambda>y. y / 2 powi f64_exp x"] by (simp add: powi_sub)
    then have "x / 2 powi f64_exp x = of_int (m * 2 ^ nat (e - f64_exp x))"
      by (simp only: pow of_int_mult)
    then have "rnd x = x / 2 powi f64_exp x * 2 powi f64_exp x"
      using pos by (simp only: rnd_def round_half_even_of_int) simp
    then show ?thesis by simp
  qed
  note small = this
  show ?thesis
  proof (cases "m < 2 ^ 53")
    case True
    then show ?thesis using small[of m e] assms False by simp
  next
    case full: False
    then have "m = 2 * 2 ^ 52" using assms(3) by simp
    then have "x = of_int (2 ^ 52) * 2 powi (e + 1)" using assms(1) by (simp add: powi_Suc)
    then show ?thesis using small[of "2 ^ 52" "e + 1"] assms(4) by simp
  qed
qed

lemma rnd_0 [simp]: "rnd 0 = 0"
  by (simp add: rnd_def)

text \<open>Every rounded value has that shape.\<close>

lemma rnd_shape:
  assumes "0 \<le> x"
  obtains m e where "rnd x = of_int m * 2 powi e" "0 \<le> m" "m \<le> 2 ^ 53" "- 1074 \<le> e"
proof (cases "x = 0")
  case True
  then show ?thesis using that[of 0 0] by simp
next
  case False
  then have x: "0 < x" using assms by simp
  let ?m = "round_half_even (x / 2 powi f64_exp x)"
  have "0 \<le> ?m" by (rule round_half_even_ge) (use x in simp)
  moreover have "?m \<le> 2 ^ 53"
    using f64_exp_upper[OF x] by (intro round_half_even_le) simp
  ultimately show ?thesis
    using that[of ?m "f64_exp x"] x by (simp add: rnd_def f64_exp_def)
qed

lemma rnd_idem: "0 \<le> x \<Longrightarrow> rnd (rnd x) = rnd x"
  by (rule rnd_shape[of x]) (use rnd_exact in auto)

lemma rnd_nonneg: "0 \<le> x \<Longrightarrow> 0 \<le> rnd x"
  by (rule rnd_shape[of x]) auto

lemma rnd_mono:
  assumes "0 \<le> x" "x \<le> y"
  shows "rnd x \<le> rnd y"
proof (cases "x = 0")
  case True
  then show ?thesis using rnd_nonneg[of y] assms by simp
next
  case False
  then have x: "0 < x" and y: "0 < y" using assms by simp_all
  let ?a = "f64_exp x" and ?b = "f64_exp y"
  show ?thesis
  proof (cases "?a = ?b")
    case True
    then have "round_half_even (x / 2 powi ?a) \<le> round_half_even (y / 2 powi ?b)"
      using assms by (intro round_half_even_mono) (simp add: divide_right_mono)
    then show ?thesis using x y True by (simp add: rnd_def)
  next
    case False
    then have less: "?a + 1 \<le> ?b" using f64_exp_mono[OF x assms(2)] by simp
    have "round_half_even (x / 2 powi ?a) \<le> 2 ^ 53"
      using f64_exp_upper[OF x] by (intro round_half_even_le) simp
    then have "(of_int (round_half_even (x / 2 powi ?a)) :: rat) \<le> of_int (2 ^ 53)"
      by (simp only: of_int_le_iff)
    then have "rnd x \<le> 2 ^ 52 * 2 powi (?a + 1)" using x by (simp add: rnd_def powi_Suc)
    also have "\<dots> \<le> 2 ^ 52 * 2 powi ?b" using less by (simp add: powi_le_iff)
    also have "\<dots> \<le> rnd y"
    proof -
      have "- 1074 < ?b" using less by (simp add: f64_exp_def)
      then have "2 ^ 52 \<le> round_half_even (y / 2 powi ?b)"
        using f64_exp_lower[OF y] by (intro round_half_even_ge) simp
      then have "(of_int (2 ^ 52) :: rat) \<le> of_int (round_half_even (y / 2 powi ?b))"
        by (simp only: of_int_le_iff)
      then show ?thesis using y by (simp add: rnd_def)
    qed
    finally show ?thesis .
  qed
qed

text \<open>Half a unit in the last place, or half the smallest subnormal.\<close>

lemma rnd_error:
  assumes "0 \<le> x"
  shows "\<bar>rnd x - x\<bar> \<le> x / 2 ^ 53 + 2 powi (- 1075)"
proof (cases "x = 0")
  case True
  then show ?thesis by (simp add: less_imp_le)
next
  case False
  then have x: "0 < x" using assms by simp
  let ?p = "2 powi f64_exp x :: rat"
  have "rnd x - x = (of_int (round_half_even (x / ?p)) - x / ?p) * ?p"
    using x by (simp add: rnd_def left_diff_distrib)
  then have "\<bar>rnd x - x\<bar> = \<bar>of_int (round_half_even (x / ?p)) - x / ?p\<bar> * ?p"
    by (simp add: abs_mult)
  also have "\<dots> \<le> 1/2 * ?p"
    by (intro mult_right_mono round_half_even_error) (simp add: less_imp_le)
  also have "\<dots> \<le> x / 2 ^ 53 + 2 powi (- 1075)"
  proof (cases "f64_exp x = - 1074")
    case True
    have "(1/2::rat) * 2 powi (- 1074) = 2 powi (- 1075)"
      using powi_Suc[of "- 1075"] by simp
    then show ?thesis using True x by simp
  next
    case False
    then have "2 ^ 52 \<le> x / ?p" using f64_exp_lower[OF x] by (simp add: f64_exp_def)
    then have "2 ^ 52 * ?p \<le> x" by (simp add: le_divide_eq)
    then have "1/2 * ?p \<le> x / 2 ^ 53" by simp
    then show ?thesis by (simp add: add_increasing2 less_imp_le)
  qed
  finally show ?thesis .
qed

text \<open>Subtracting one from a representable value of at most \<open>2^53\<close> is exact.\<close>

lemma rnd_pred:
  assumes "rnd t = t" "1 \<le> t" "t \<le> 2 ^ 53"
  shows "rnd (t - 1) = t - 1"
proof -
  have "0 \<le> t" using assms(2) by simp
  then obtain m e where t: "t = of_int m * 2 powi e" and m: "0 \<le> m" "m \<le> 2 ^ 53" "- 1074 \<le> e"
    using assms(1) by (metis rnd_shape)
  show ?thesis
  proof (cases "e \<le> 0")
    case True
    have one: "(1::rat) = of_int (2 ^ nat (- e)) * 2 powi e"
      using True by (simp add: power_int_def power_inverse power_mult_distrib[symmetric])
    have eq: "t - 1 = of_int (m - 2 ^ nat (- e)) * 2 powi e"
      using t one by (simp add: algebra_simps)
    have "0 \<le> t - 1" using assms(2) by simp
    then have "0 \<le> m - 2 ^ nat (- e)"
      unfolding eq using powi_pos[of e] by (auto simp: zero_le_mult_iff not_le[symmetric])
    moreover have "m - 2 ^ nat (- e) \<le> 2 ^ 53" using m(2) by (smt (verit) zero_le_power)
    ultimately show ?thesis using m by (intro rnd_exact[OF eq])
  next
    case False
    then have int: "t = of_int (m * 2 ^ nat e)" by (simp add: t power_int_def)
    have "m * 2 ^ nat e \<le> 2 ^ 53" "1 \<le> m * 2 ^ nat e"
      using assms(2,3) unfolding int by (metis of_int_le_iff of_int_numeral of_int_power of_int_1)+
    moreover have "t - 1 = of_int (m * 2 ^ nat e - 1) * 2 powi 0" by (simp add: int)
    ultimately show ?thesis by (intro rnd_exact[of _ "m * 2 ^ nat e - 1" 0]) auto
  qed
qed

lemma rnd_of_nat: "n \<le> 2 ^ 53 \<Longrightarrow> rnd (of_nat n) = of_nat n"
proof (rule rnd_exact[where m = "int n" and e = 0])
  assume "n \<le> 2 ^ 53"
  then have "int n \<le> int (2 ^ 53)" by (simp only: of_nat_le_iff)
  then show "int n \<le> 2 ^ 53" by simp
qed simp_all

lemma rnd_pow2: "rnd (2 ^ k) = 2 ^ k"
  by (rule rnd_exact[where m = 1 and e = "int k"]) simp_all

lemma rnd_le_pow2: "0 \<le> x \<Longrightarrow> x \<le> 2 ^ k \<Longrightarrow> rnd x \<le> 2 ^ k"
  using rnd_mono[of x "2 ^ k"] by (simp add: rnd_pow2)


section \<open>What clients rely on\<close>

text \<open>
  A rounding of the non-negative rationals: monotone, exact on zero, on its own results, on
  small integers and on predecessors, with relative error \<open>u\<close> and absolute error \<open>\<eta>\<close>.
\<close>

locale nearest_rounding =
  fixes rd :: "rat \<Rightarrow> rat" and u \<eta> :: rat
  assumes rd_0: "rd 0 = 0"
    and rd_mono: "0 \<le> x \<Longrightarrow> x \<le> y \<Longrightarrow> rd x \<le> rd y"
    and rd_idem: "0 \<le> x \<Longrightarrow> rd (rd x) = rd x"
    and rd_pred: "rd t = t \<Longrightarrow> 1 \<le> t \<Longrightarrow> t \<le> 2 ^ 53 \<Longrightarrow> rd (t - 1) = t - 1"
    and rd_error: "0 \<le> x \<Longrightarrow> \<bar>rd x - x\<bar> \<le> x * u + \<eta>"
    and u_nonneg: "0 \<le> u" and eta_nonneg: "0 \<le> \<eta>"
begin

lemma rd_nonneg: "0 \<le> x \<Longrightarrow> 0 \<le> rd x"
  using rd_mono[of 0 x] rd_0 by simp

lemma rd_upper: "0 \<le> x \<Longrightarrow> rd x \<le> x * (1 + u) + \<eta>"
  using rd_error[of x] by (simp add: algebra_simps abs_le_iff)

lemma rd_le: "0 \<le> x \<Longrightarrow> x \<le> c \<Longrightarrow> rd c = c \<Longrightarrow> rd x \<le> c"
  using rd_mono[of x c] by simp

lemma rd_ge: "0 \<le> c \<Longrightarrow> c \<le> x \<Longrightarrow> rd c = c \<Longrightarrow> c \<le> rd x"
  using rd_mono[of c x] by simp

end

interpretation binary64: nearest_rounding rnd "1 / 2 ^ 53" "2 powi (- 1075)"
proof
  show "\<bar>rnd x - x\<bar> \<le> x * (1 / 2 ^ 53) + 2 powi (- 1075)" if "0 \<le> x" for x
    using rnd_error[OF that] by simp
qed (simp_all add: rnd_mono rnd_idem rnd_pred less_imp_le)


section \<open>Finite results\<close>

lemma round_f64_nonneg:
  "0 \<le> x \<Longrightarrow> round_f64 x = (if rnd x < 2 ^ 1024 then Fin (rnd x) else PosInf)"
  using rnd_nonneg[of x] by (cases "x = 0") (auto simp: round_f64_def)

lemma round_f64_Fin: "0 \<le> x \<Longrightarrow> x \<le> 2 ^ 1023 \<Longrightarrow> round_f64 x = Fin (rnd x)"
proof -
  assume "0 \<le> x" "x \<le> 2 ^ 1023"
  then have "rnd x \<le> 2 ^ 1023" by (rule rnd_le_pow2)
  also have "(2::rat) ^ 1023 < 2 ^ 1024" by (rule power_strict_increasing) simp_all
  finally show ?thesis using \<open>0 \<le> x\<close> by (simp add: round_f64_nonneg)
qed

text \<open>A sum of a product, clamped to a finite bound: overflow is absorbed by the clamp.\<close>

lemma f64_add_mul_min:
  assumes "0 \<le> t" "0 \<le> x" "0 \<le> y" "c < 2 ^ 1024"
  shows "f64_min (f64_add (Fin t) (f64_mul (Fin x) (Fin y))) (Fin c)
    = Fin (min (rnd (t + rnd (x * y))) c)"
proof -
  have xy: "0 \<le> x * y" "0 \<le> rnd (x * y)" using assms by (simp_all add: rnd_nonneg)
  show ?thesis
  proof (cases "rnd (x * y) < 2 ^ 1024")
    case True
    then show ?thesis
      using assms xy by (simp add: round_f64_nonneg f64_min_def min_def)
  next
    case False
    then have "2 ^ 1024 \<le> t + rnd (x * y)" using assms(1) by simp
    then have "2 ^ 1024 \<le> rnd (t + rnd (x * y))"
      using rnd_mono[of "2 ^ 1024"] rnd_pow2[of 1024] by simp
    then have "min (rnd (t + rnd (x * y))) c = c" using assms(4) by simp
    then show ?thesis using False xy by (simp add: round_f64_nonneg f64_min_def)
  qed
qed

lemma f64_add_mul_ge:
  assumes "0 \<le> t" "0 \<le> x" "0 \<le> y" "c < 2 ^ 1024"
  shows "f64_le (Fin c) (f64_add (Fin t) (f64_mul (Fin x) (Fin y))) \<longleftrightarrow> c \<le> rnd (t + rnd (x * y))"
proof -
  have xy: "0 \<le> x * y" "0 \<le> rnd (x * y)" using assms by (simp_all add: rnd_nonneg)
  show ?thesis
  proof (cases "rnd (x * y) < 2 ^ 1024")
    case True
    then show ?thesis using assms xy by (auto simp: round_f64_nonneg)
  next
    case False
    then have "2 ^ 1024 \<le> t + rnd (x * y)" using assms(1) by simp
    then have "2 ^ 1024 \<le> rnd (t + rnd (x * y))"
      using rnd_mono[of "2 ^ 1024"] rnd_pow2[of 1024] by simp
    then show ?thesis using False xy assms(4) by (simp add: round_f64_nonneg)
  qed
qed

definition secs_of :: "nat \<Rightarrow> rat" where
  "secs_of ns = rnd (rnd (of_nat (ns div 1000000000)) + rnd (of_nat (ns mod 1000000000) / 1000000000))"

text \<open>
  Instants are measured from the start of the process; below \<open>2^53\<close> seconds (285 million
  years) the seconds of a \<open>Duration\<close> convert exactly.
\<close>

abbreviation duration_ok :: "nat \<Rightarrow> bool" where
  "duration_ok ns \<equiv> ns < 2 ^ 53 * 1000000000"

lemma secs_exact:
  assumes "duration_ok ns"
  shows "rnd (of_nat (ns div 1000000000)) = of_nat (ns div 1000000000)"
    "of_nat (ns div 1000000000) \<le> (2::rat) ^ 53"
proof -
  have s: "ns div 1000000000 \<le> 2 ^ 53" using assms by (simp add: less_mult_imp_div_less less_imp_le)
  then show "rnd (of_nat (ns div 1000000000)) = of_nat (ns div 1000000000)" by (rule rnd_of_nat)
  show "of_nat (ns div 1000000000) \<le> (2::rat) ^ 53"
    using s by (metis of_nat_le_iff of_nat_numeral of_nat_power)
qed

lemma nanos_fraction:
  "0 \<le> rnd (of_nat (ns mod 1000000000) / 1000000000)"
  "rnd (of_nat (ns mod 1000000000) / 1000000000) \<le> 1"
proof -
  have "0 \<le> of_nat (ns mod 1000000000) / (1000000000::rat)"
    "of_nat (ns mod 1000000000) / (1000000000::rat) \<le> 2 ^ 0" by (simp_all add: divide_le_eq less_imp_le)
  then show "0 \<le> rnd (of_nat (ns mod 1000000000) / 1000000000)"
    "rnd (of_nat (ns mod 1000000000) / 1000000000) \<le> 1"
    using rnd_nonneg rnd_le_pow2[of _ 0] by simp_all
qed

lemma as_secs_f64_Fin:
  assumes "duration_ok ns"
  shows "as_secs_f64 ns = Fin (secs_of ns)"
proof -
  have big: "(2::rat) ^ 54 \<le> 2 ^ 1023" "(1::rat) \<le> 2 ^ 1023" by (rule power_increasing, simp_all)+
  note s = secs_exact[OF assms] and f = nanos_fraction[of ns]
  have "of_nat (ns mod 1000000000) / (1000000000::rat) \<le> 1" by (simp add: divide_le_eq less_imp_le)
  then have "of_nat (ns mod 1000000000) / (1000000000::rat) \<le> 2 ^ 1023" using big(2) by linarith
  moreover have "of_nat (ns div 1000000000) + rnd (of_nat (ns mod 1000000000) / 1000000000) \<le> (2::rat) ^ 1023"
    using s(2) f(2) big(1) by simp
  ultimately show ?thesis
    using s f by (simp add: as_secs_f64_def f64_of_nat_def round_f64_Fin rnd_nonneg secs_of_def)
qed

text \<open>The conversion is monotone: the fraction never rounds past the next second.\<close>

lemma secs_of_mono:
  assumes "m \<le> n" "duration_ok n"
  shows "secs_of m \<le> secs_of n"
proof -
  let ?B = "1000000000 :: nat"
  have sm: "rnd (of_nat (m div ?B)) = of_nat (m div ?B)"
    and sn: "rnd (of_nat (n div ?B)) = of_nat (n div ?B)"
    using assms by (auto intro: secs_exact)
  have "of_nat (m div ?B) + rnd (of_nat (m mod ?B) / 1000000000)
    \<le> of_nat (n div ?B) + rnd (of_nat (n mod ?B) / 1000000000)"
  proof (cases "m div ?B = n div ?B")
    case True
    then have "m mod ?B \<le> n mod ?B"
      using assms(1) div_mult_mod_eq[of m ?B] div_mult_mod_eq[of n ?B] by linarith
    then have "rnd (of_nat (m mod ?B) / 1000000000) \<le> rnd (of_nat (n mod ?B) / 1000000000)"
      by (intro rnd_mono divide_right_mono) simp_all
    then show ?thesis using True by simp
  next
    case False
    then have "Suc (m div ?B) \<le> n div ?B" using div_le_mono[OF assms(1), of ?B] by linarith
    then have "of_nat (Suc (m div ?B)) \<le> (of_nat (n div ?B) :: rat)" by (simp only: of_nat_le_iff)
    then show ?thesis using nanos_fraction(2)[of m] nanos_fraction(1)[of n] by simp
  qed
  then show ?thesis
    unfolding secs_of_def sm sn using nanos_fraction(1)[of m] by (intro rnd_mono) simp_all
qed

text \<open>Seconds as the exact rational, and how far the conversion exceeds it.\<close>

lemma secs_of_upper:
  assumes "duration_ok ns"
  shows "secs_of ns \<le> (of_nat ns / 1000000000) * (1 + 1 / 2 ^ 53) ^ 2 + 3 * 2 powi (- 1075)"
proof -
  let ?u = "1 / 2 ^ 53 :: rat" and ?\<eta> = "2 powi (- 1075) :: rat"
  let ?s = "of_nat (ns div 1000000000) :: rat" and ?f = "of_nat (ns mod 1000000000) / 1000000000 :: rat"
  have f: "0 \<le> ?f" by simp
  have "rnd ?f \<le> ?f * (1 + ?u) + ?\<eta>" by (rule binary64.rd_upper[OF f])
  moreover have "secs_of ns \<le> (?s + rnd ?f) * (1 + ?u) + ?\<eta>"
    unfolding secs_of_def secs_exact(1)[OF assms] using nanos_fraction(1)[of ns]
    by (intro binary64.rd_upper) simp
  ultimately have "secs_of ns \<le> (?s + (?f * (1 + ?u) + ?\<eta>)) * (1 + ?u) + ?\<eta>"
    by (meson add_left_mono add_right_mono mult_right_mono order_trans add_nonneg_nonneg
        zero_le_divide_1_iff zero_le_numeral zero_le_one zero_le_power)
  also have "\<dots> \<le> ((?s + ?f) * (1 + ?u) + ?\<eta>) * (1 + ?u) + ?\<eta>"
    by (intro add_right_mono mult_right_mono) (simp_all add: algebra_simps)
  also have "\<dots> = (?s + ?f) * (1 + ?u) ^ 2 + (?\<eta> * (1 + ?u) + ?\<eta>)"
    by (simp add: power2_eq_square algebra_simps)
  also have "?\<eta> * (1 + ?u) + ?\<eta> \<le> 3 * ?\<eta>" by simp
  also have "?s + ?f = of_nat ns / 1000000000"
  proof -
    have "(of_nat ns :: rat) = of_nat (ns div 1000000000 * 1000000000 + ns mod 1000000000)" by simp
    then have "(of_nat ns :: rat) = ?s * 1000000000 + of_nat (ns mod 1000000000)"
      by (simp only: of_nat_add of_nat_mult of_nat_numeral)
    then show ?thesis by (simp add: field_simps)
  qed
  finally show ?thesis by simp
qed

end
