(* ===== verification/Rate_Limit.thy ===== *)
theory Rate_Limit
  imports Rust_F64 Rust_Net "HOL-Library.AList"
begin

text \<open>
  The per-client token-bucket limiter (\<open>gatepup-proxy/src/rate_limit.rs\<close>): 32 shards, each a
  map from (route, client address) to a bucket of \<open>f64\<close> tokens, swept of full buckets when it
  grows past a threshold. An \<open>Instant\<close> is a number of nanoseconds; a \<open>HashMap\<close> is an
  association list with distinct keys; \<open>DefaultHasher\<close> is the parameter \<open>hash\<close>.

  Rate and capacity come with every call, so the calls of one key may differ in them. The
  reference limiter is one map with no shards and no sweep: sharding and sweeping are
  unobservable on every key whose calls keep their parameters. After any history the decisions
  obey the token-bucket bounds with the rounding of binary64 written out. All this is for
  calls in time order.
\<close>

type_synonym instant = nat

definition SHARDS :: nat where
  "SHARDS = 32"

definition SWEEP_THRESHOLD :: nat where
  "SWEEP_THRESHOLD = 4096"

record Bucket =
  bk_tokens :: f64
  bk_last :: instant
  bk_rate :: f64
  bk_capacity :: f64

definition Bucket_refill :: "instant \<Rightarrow> Bucket \<Rightarrow> Bucket" where
  "Bucket_refill now b =
     (let elapsed = as_secs_f64 (now - bk_last b)
      in b\<lparr>bk_tokens := f64_min (f64_add (bk_tokens b) (f64_mul elapsed (bk_rate b))) (bk_capacity b),
           bk_last := now\<rparr>)"

definition Bucket_is_full_at :: "instant \<Rightarrow> Bucket \<Rightarrow> bool" where
  "Bucket_is_full_at now b =
     (let elapsed = as_secs_f64 (now - bk_last b)
      in f64_le (bk_capacity b) (f64_add (bk_tokens b) (f64_mul elapsed (bk_rate b))))"

type_synonym rl_key = "string \<times> ip_addr"
type_synonym shard_map = "(rl_key \<times> Bucket) list"
type_synonym RateLimiter = "shard_map list"

definition RateLimiter_new :: RateLimiter where
  "RateLimiter_new = replicate SHARDS []"

definition shard_index :: "(string \<Rightarrow> ip_addr \<Rightarrow> u64) \<Rightarrow> rl_key \<Rightarrow> nat" where
  "shard_index hash k = unat (hash (fst k) (snd k)) mod SHARDS"

definition fresh_bucket :: "f64 \<Rightarrow> f64 \<Rightarrow> instant \<Rightarrow> Bucket" where
  "fresh_bucket rate capacity now =
     \<lparr>bk_tokens = capacity, bk_last = now, bk_rate = rate, bk_capacity = capacity\<rparr>"

text \<open>What \<open>check\<close> does to the one bucket, given the entry's content before the call.\<close>

definition bucket_check ::
  "Bucket option \<Rightarrow> f64 \<Rightarrow> f64 \<Rightarrow> instant \<Rightarrow> bool \<times> Bucket" where
  "bucket_check entry rate capacity now =
     (let b0 = (case entry of Some b \<Rightarrow> b | None \<Rightarrow> fresh_bucket rate capacity now);
          b1 = Bucket_refill now (b0\<lparr>bk_rate := rate, bk_capacity := capacity\<rparr>)
      in if f64_le (Fin 1) (bk_tokens b1)
         then (True, b1\<lparr>bk_tokens := f64_sub (bk_tokens b1) (Fin 1)\<rparr>)
         else (False, b1))"

definition sweep :: "instant \<Rightarrow> shard_map \<Rightarrow> shard_map" where
  "sweep now m =
     (if SWEEP_THRESHOLD < length m then filter (\<lambda>(k, b). \<not> Bucket_is_full_at now b) m else m)"

definition check ::
  "(string \<Rightarrow> ip_addr \<Rightarrow> u64) \<Rightarrow> string \<Rightarrow> ip_addr \<Rightarrow> f64 \<Rightarrow> f64 \<Rightarrow> instant \<Rightarrow>
   RateLimiter \<Rightarrow> bool \<times> RateLimiter" where
  "check hash route ip rate capacity now rl =
     (let i = shard_index hash (route, ip);
          m = rl ! i;
          (allowed, b) = bucket_check (map_of m (route, ip)) rate capacity now
      in (allowed, rl[i := sweep now (AList.update (route, ip) b m)]))"


section \<open>Calls\<close>

record rl_call =
  rc_key :: rl_key
  rc_rate :: f64
  rc_capacity :: f64
  rc_now :: instant

text \<open>A sequence of \<open>check\<close> calls, as the locks of the shards serialise them.\<close>

fun run_checks ::
  "(string \<Rightarrow> ip_addr \<Rightarrow> u64) \<Rightarrow> rl_call list \<Rightarrow> RateLimiter \<Rightarrow> bool list \<times> RateLimiter" where
  "run_checks hash [] rl = ([], rl)"
| "run_checks hash (c # cs) rl =
     (let (a, rl1) = check hash (fst (rc_key c)) (snd (rc_key c)) (rc_rate c) (rc_capacity c) (rc_now c) rl;
          (as, rl2) = run_checks hash cs rl1
      in (a # as, rl2))"

text \<open>The reference limiter: one bucket per key, for ever.\<close>

fun reference_checks :: "rl_call list \<Rightarrow> (rl_key \<rightharpoonup> Bucket) \<Rightarrow> bool list" where
  "reference_checks [] st = []"
| "reference_checks (c # cs) st =
     (let (a, b) = bucket_check (st (rc_key c)) (rc_rate c) (rc_capacity c) (rc_now c)
      in a # reference_checks cs (st(rc_key c \<mapsto> b)))"


section \<open>One bucket over the rationals\<close>

definition refill_q :: "(rat \<Rightarrow> rat) \<Rightarrow> rat \<Rightarrow> rat \<Rightarrow> rat \<Rightarrow> rat \<Rightarrow> rat" where
  "refill_q rd r c t el = min (rd (t + rd (el * r))) c"

definition take_q :: "(rat \<Rightarrow> rat) \<Rightarrow> rat \<Rightarrow> rat" where
  "take_q rd t = (if 1 \<le> t then rd (t - 1) else t)"

context nearest_rounding
begin

lemma refill_q_range:
  "0 \<le> t \<Longrightarrow> 0 \<le> el \<Longrightarrow> 0 \<le> r \<Longrightarrow> 0 \<le> c \<Longrightarrow> 0 \<le> refill_q rd r c t el \<and> refill_q rd r c t el \<le> c"
  by (simp add: refill_q_def rd_nonneg)

lemma refill_q_rep: "0 \<le> t \<Longrightarrow> 0 \<le> el \<Longrightarrow> 0 \<le> r \<Longrightarrow> rd c = c \<Longrightarrow>
    rd (refill_q rd r c t el) = refill_q rd r c t el"
  by (simp add: refill_q_def min_def rd_idem rd_nonneg)

lemma refill_q_0: "rd t = t \<Longrightarrow> t \<le> c \<Longrightarrow> refill_q rd r c t 0 = t"
  by (simp add: refill_q_def rd_0)

lemma refill_q_arg_mono:
  "0 \<le> t \<Longrightarrow> 0 \<le> el \<Longrightarrow> el \<le> el' \<Longrightarrow> 0 \<le> r \<Longrightarrow> rd (t + rd (el * r)) \<le> rd (t + rd (el' * r))"
  by (intro rd_mono add_left_mono mult_right_mono) (simp_all add: rd_nonneg)

text \<open>A refill adds at most the exact amount, the two roundings, and nothing past capacity.\<close>

lemma refill_q_upper:
  assumes "0 \<le> t" "0 \<le> el" "0 \<le> r" "0 \<le> c"
  shows "refill_q rd r c t el \<le> t + el * r * (1 + u) + c * u + 2 * \<eta>"
proof -
  let ?x = "rd (el * r)"
  have x: "0 \<le> ?x" "?x \<le> el * r * (1 + u) + \<eta>"
    using assms by (simp_all add: rd_nonneg rd_upper)
  have cu: "0 \<le> c * u" using assms(4) u_nonneg by simp
  have "refill_q rd r c t el \<le> t + ?x + c * u + \<eta>"
  proof (cases "c \<le> t + ?x")
    case True
    then show ?thesis using cu eta_nonneg by (simp add: refill_q_def min_def)
  next
    case False
    have "rd (t + ?x) \<le> (t + ?x) * (1 + u) + \<eta>" using assms x by (intro rd_upper) simp
    also have "\<dots> = t + ?x + (t + ?x) * u + \<eta>" by (simp add: algebra_simps)
    also have "\<dots> \<le> t + ?x + c * u + \<eta>" using False u_nonneg by (simp add: mult_right_mono)
    finally show ?thesis by (simp add: refill_q_def min_def)
  qed
  then show ?thesis using x by simp
qed

lemma take_q_range: "0 \<le> t \<Longrightarrow> t \<le> c \<Longrightarrow> rd t = t \<Longrightarrow> 0 \<le> take_q rd t \<and> take_q rd t \<le> c"
  using rd_mono[of "t - 1" t] by (auto simp: take_q_def rd_nonneg)

lemma take_q_rep: "rd t = t \<Longrightarrow> rd (take_q rd t) = take_q rd t"
  by (simp add: take_q_def rd_idem)

lemma take_q_exact: "rd t = t \<Longrightarrow> t \<le> 2 ^ 53 \<Longrightarrow> take_q rd t = t - of_bool (1 \<le> t)"
  by (simp add: take_q_def rd_pred)

end


section \<open>The bucket operations are the rational ones\<close>

text \<open>
  Parameters of a route as validation and \<open>RateLimit::compile\<close> leave them: finite, not negative,
  the capacity a binary64 number.
\<close>

definition params_ok :: "rat \<times> rat \<Rightarrow> bool" where
  "params_ok p \<longleftrightarrow> 0 \<le> fst p \<and> 0 \<le> snd p \<and> rnd (snd p) = snd p \<and> snd p < 2 ^ 1024"

definition tokens_of :: "Bucket \<Rightarrow> rat" where
  "tokens_of b = (case bk_tokens b of Fin t \<Rightarrow> t | _ \<Rightarrow> 0)"

text \<open>
  A bucket as some earlier call left it, and one whose last call had the parameters \<open>p\<close>: a
  call may bring other parameters, which are then the bucket's.
\<close>

definition bucket_wf :: "instant \<Rightarrow> Bucket \<Rightarrow> bool" where
  "bucket_wf now b \<longleftrightarrow> bk_last b \<le> now \<and> (\<exists>t. bk_tokens b = Fin t \<and> 0 \<le> t \<and> rnd t = t)"

definition bucket_ok :: "rat \<times> rat \<Rightarrow> instant \<Rightarrow> Bucket \<Rightarrow> bool" where
  "bucket_ok p now b \<longleftrightarrow>
     bk_rate b = Fin (fst p) \<and> bk_capacity b = Fin (snd p) \<and> bucket_wf now b \<and> tokens_of b \<le> snd p"

definition level_at :: "rat \<times> rat \<Rightarrow> instant \<Rightarrow> Bucket \<Rightarrow> rat" where
  "level_at p now b = refill_q rnd (fst p) (snd p) (tokens_of b) (secs_of (now - bk_last b))"

lemma bucket_wfD:
  assumes "bucket_wf now b"
  shows "bk_last b \<le> now" "bk_tokens b = Fin (tokens_of b)" "0 \<le> tokens_of b" "rnd (tokens_of b) = tokens_of b"
  using assms by (auto simp: bucket_wf_def tokens_of_def)

lemma bucket_okD:
  assumes "bucket_ok p now b"
  shows "bk_rate b = Fin (fst p)" "bk_capacity b = Fin (snd p)" "bucket_wf now b" "tokens_of b \<le> snd p"
  using assms by (simp_all add: bucket_ok_def)

lemma secs_of_nonneg [simp]: "0 \<le> secs_of ns"
  by (simp add: secs_of_def rnd_nonneg)

lemma secs_of_0 [simp]: "secs_of 0 = 0"
  by (simp add: secs_of_def)

lemma level_at_range:
  assumes "params_ok p" "bucket_wf now0 b"
  shows "0 \<le> level_at p now b" "level_at p now b \<le> snd p" "rnd (level_at p now b) = level_at p now b"
  using assms bucket_wfD[OF assms(2)] binary64.refill_q_range binary64.refill_q_rep
  by (simp_all add: level_at_def params_ok_def)

lemma refill_level:
  assumes "params_ok p" "bucket_wf now0 b" "duration_ok now"
    and rate: "bk_rate b = Fin (fst p)" and capacity: "bk_capacity b = Fin (snd p)"
  shows "Bucket_refill now b = b\<lparr>bk_tokens := Fin (level_at p now b), bk_last := now\<rparr>"
    and "Bucket_is_full_at now b \<longleftrightarrow> level_at p now b = snd p"
proof -
  note b = bucket_wfD(2,3)[OF assms(2)]
  have "duration_ok (now - bk_last b)" using assms(3) by simp
  then have secs: "as_secs_f64 (now - bk_last b) = Fin (secs_of (now - bk_last b))"
    by (rule as_secs_f64_Fin)
  show "Bucket_refill now b = b\<lparr>bk_tokens := Fin (level_at p now b), bk_last := now\<rparr>"
    using secs assms(1) b rate capacity f64_add_mul_min[of "tokens_of b" "secs_of (now - bk_last b)" "fst p" "snd p"]
    by (simp add: Bucket_refill_def Let_def params_ok_def level_at_def refill_q_def
        del: f64_mul.simps f64_add.simps)
  show "Bucket_is_full_at now b \<longleftrightarrow> level_at p now b = snd p"
    using secs assms(1) b rate capacity f64_add_mul_ge[of "tokens_of b" "secs_of (now - bk_last b)" "fst p" "snd p"]
    by (auto simp add: Bucket_is_full_at_def Let_def params_ok_def level_at_def refill_q_def min_def
        simp del: f64_mul.simps f64_add.simps)
qed

lemma full_level:
  assumes "params_ok p" "bucket_ok p now0 b" "duration_ok now"
  shows "Bucket_is_full_at now b \<longleftrightarrow> level_at p now b = snd p"
  using refill_level(2)[OF assms(1) bucket_okD(3)[OF assms(2)] assms(3)] bucket_okD[OF assms(2)] by simp

lemma take_f64:
  assumes "0 \<le> t" "rnd t = t" "t < 2 ^ 1024" "1 \<le> t"
  shows "f64_sub (Fin t) (Fin 1) = Fin (rnd (t - 1))"
proof -
  have "rnd (t - 1) \<le> t" using binary64.rd_mono[of "t - 1" t] assms by simp
  then have "rnd (t - 1) < 2 ^ 1024" using assms(3) by simp
  then show ?thesis using assms(4) by (simp add: f64_sub_def round_f64_nonneg)
qed

lemma bucket_ok_fresh: "params_ok p \<Longrightarrow> bucket_ok p now (fresh_bucket (Fin (fst p)) (Fin (snd p)) now)"
  by (simp add: bucket_ok_def bucket_wf_def tokens_of_def fresh_bucket_def params_ok_def)

lemma bucket_check_None:
  "bucket_check None r c now = bucket_check (Some (fresh_bucket r c now)) r c now"
  by (simp add: bucket_check_def)

text \<open>
  \<open>check\<close> on an existing bucket, whatever its last call's parameters were: the level under the
  parameters of this call decides, and the token is taken from it.
\<close>

lemma bucket_check_Some:
  assumes "params_ok p" "bucket_wf now0 b" "duration_ok now"
  shows "bucket_check (Some b) (Fin (fst p)) (Fin (snd p)) now =
    (1 \<le> level_at p now b,
     \<lparr>bk_tokens = Fin (take_q rnd (level_at p now b)), bk_last = now, bk_rate = Fin (fst p), bk_capacity = Fin (snd p)\<rparr>)"
proof -
  let ?b = "b\<lparr>bk_rate := Fin (fst p), bk_capacity := Fin (snd p)\<rparr>"
  have wf: "bucket_wf now0 ?b" using assms(2) by (simp add: bucket_wf_def)
  have "level_at p now ?b = level_at p now b" by (simp add: level_at_def tokens_of_def)
  then have refill: "Bucket_refill now ?b = ?b\<lparr>bk_tokens := Fin (level_at p now b), bk_last := now\<rparr>"
    using refill_level(1)[OF assms(1) wf assms(3)] by simp
  have "level_at p now b < 2 ^ 1024"
    using level_at_range(2)[OF assms(1,2), of now] assms(1) by (simp add: params_ok_def)
  then show ?thesis
    using level_at_range[OF assms(1,2), of now]
    by (simp add: bucket_check_def refill take_f64 take_q_def Let_def)
qed

lemma bucket_check_ok:
  assumes "params_ok p" "bucket_wf now0 b" "duration_ok now"
  shows "bucket_ok p now (snd (bucket_check (Some b) (Fin (fst p)) (Fin (snd p)) now))"
  using level_at_range[OF assms(1,2), of now] binary64.take_q_range binary64.take_q_rep
  by (simp add: bucket_check_Some[OF assms] bucket_ok_def bucket_wf_def tokens_of_def)

text \<open>Once full, a bucket stays full: it cannot be told from a fresh one.\<close>

lemma full_stays:
  assumes "params_ok p" "bucket_wf now0 b" "now \<le> now'" "duration_ok now'"
    and "level_at p now b = snd p"
  shows "level_at p now' b = snd p"
proof -
  have "secs_of (now - bk_last b) \<le> secs_of (now' - bk_last b)"
    using assms(3,4) by (intro secs_of_mono) auto
  then have "rnd (tokens_of b + rnd (secs_of (now - bk_last b) * fst p))
      \<le> rnd (tokens_of b + rnd (secs_of (now' - bk_last b) * fst p))"
    using assms(1) bucket_wfD(3)[OF assms(2)] by (intro binary64.refill_q_arg_mono) (simp_all add: params_ok_def)
  then show ?thesis using assms(5) by (simp add: level_at_def refill_q_def min_def split: if_splits)
qed

lemma level_at_fresh:
  "params_ok p \<Longrightarrow> level_at p now (fresh_bucket (Fin (fst p)) (Fin (snd p)) now) = snd p"
  by (simp add: level_at_def tokens_of_def fresh_bucket_def params_ok_def binary64.refill_q_0)

text \<open>So checking an evicted entry and checking the full bucket it held are the same.\<close>

lemma bucket_check_evicted:
  assumes "params_ok p" "bucket_wf now0 b" "duration_ok now" "level_at p now b = snd p"
  shows "bucket_check (Some b) (Fin (fst p)) (Fin (snd p)) now =
    bucket_check None (Fin (fst p)) (Fin (snd p)) now"
  using assms(4)
  by (simp add: bucket_check_None bucket_check_Some[OF assms(1-3)] level_at_fresh[OF assms(1)]
      bucket_check_Some[OF assms(1) bucket_okD(3)[OF bucket_ok_fresh[OF assms(1)]] assms(3)])

lemma bucket_check_last: "bk_last (snd (bucket_check e r c now)) = now"
  by (simp add: bucket_check_def Bucket_refill_def Let_def)


section \<open>Tokens over time\<close>

text \<open>The exact tokens of a span of nanoseconds, and the rounding allowance of one call.\<close>

definition span_tokens :: "rat \<times> rat \<Rightarrow> nat \<Rightarrow> rat" where
  "span_tokens p d = of_nat d / 1000000000 * fst p * (1 + 1 / 2 ^ 53) ^ 3"

definition call_slack :: "rat \<times> rat \<Rightarrow> rat" where
  "call_slack p = snd p / 2 ^ 53 + (2 + 4 * fst p) * 2 powi (- 1075)"

lemma span_tokens_add: "span_tokens p (m + n) = span_tokens p m + span_tokens p n"
  by (simp add: span_tokens_def add_divide_distrib algebra_simps)

lemma span_tokens_mono: "params_ok p \<Longrightarrow> m \<le> n \<Longrightarrow> span_tokens p m \<le> span_tokens p n"
  unfolding span_tokens_def
  by (intro mult_right_mono divide_right_mono) (simp_all add: params_ok_def)

lemma call_slack_nonneg: "params_ok p \<Longrightarrow> 0 \<le> call_slack p"
  by (simp add: call_slack_def params_ok_def)

lemma level_at_upper:
  assumes "params_ok p" "bucket_wf now0 b" "duration_ok now"
  shows "level_at p now b \<le> tokens_of b + span_tokens p (now - bk_last b) + call_slack p"
proof -
  define u :: rat where "u = 1 / 2 ^ 53"
  define \<eta> :: rat where "\<eta> = 2 powi (- 1075)"
  let ?el = "secs_of (now - bk_last b)" and ?d = "of_nat (now - bk_last b) / 1000000000 :: rat"
  have r: "0 \<le> fst p" and c: "0 \<le> snd p" using assms(1) by (simp_all add: params_ok_def)
  have small: "3 * (1 + u) \<le> 4" "0 \<le> u" "0 \<le> \<eta>" by (simp_all add: u_def \<eta>_def)
  have "level_at p now b \<le> tokens_of b + ?el * fst p * (1 + u) + snd p * u + 2 * \<eta>"
    unfolding level_at_def u_def \<eta>_def using bucket_wfD(3)[OF assms(2)] r c
    by (intro binary64.refill_q_upper) simp_all
  also have "?el * fst p * (1 + u) \<le> (?d * (1 + u) ^ 2 + 3 * \<eta>) * fst p * (1 + u)"
    using secs_of_upper[of "now - bk_last b"] assms(3) r small(2)
    by (intro mult_right_mono) (simp_all add: u_def \<eta>_def)
  also have "\<dots> = ?d * fst p * (1 + u) ^ 3 + 3 * (1 + u) * (fst p * \<eta>)"
    by (simp add: power3_eq_cube power2_eq_square algebra_simps)
  also have "3 * (1 + u) * (fst p * \<eta>) \<le> 4 * (fst p * \<eta>)"
    using r small by (intro mult_right_mono) simp_all
  finally show ?thesis
    unfolding span_tokens_def call_slack_def u_def[symmetric] \<eta>_def[symmetric]
    by (simp add: u_def[symmetric] algebra_simps) (simp add: u_def)
qed

text \<open>A check conserves tokens: what is admitted is taken from the level.\<close>

lemma check_conserves:
  assumes "params_ok p" "\<And>b. e = Some b \<Longrightarrow> bucket_wf now b" "duration_ok now" "snd p \<le> 2 ^ 53"
    and "bucket_check e (Fin (fst p)) (Fin (snd p)) now = (a, b')"
  obtains l where "of_bool a + tokens_of b' = l" "a \<longleftrightarrow> 1 \<le> l" "l \<le> snd p" "bk_last b' = now"
    "\<And>b. e = Some b \<Longrightarrow> l = level_at p now b" "e = None \<Longrightarrow> l = snd p"
proof -
  define b0 where "b0 = (case e of Some b \<Rightarrow> b | None \<Rightarrow> fresh_bucket (Fin (fst p)) (Fin (snd p)) now)"
  have wf: "bucket_wf now b0"
    using assms(2) bucket_okD(3)[OF bucket_ok_fresh[OF assms(1)]] by (simp add: b0_def split: option.splits)
  have eq: "bucket_check (Some b0) (Fin (fst p)) (Fin (snd p)) now = (a, b')"
    using assms(5) by (cases e) (simp_all add: b0_def bucket_check_None)
  let ?l = "level_at p now b0"
  note rng = level_at_range[OF assms(1) wf, of now]
  have "a = (1 \<le> ?l)" "tokens_of b' = take_q rnd ?l" "bk_last b' = now"
    using eq by (auto simp: bucket_check_Some[OF assms(1) wf assms(3)] tokens_of_def)
  moreover have "take_q rnd ?l = ?l - of_bool (1 \<le> ?l)"
    using rng assms(4) by (intro binary64.take_q_exact) simp_all
  ultimately show ?thesis
    using that[of ?l] rng(2) level_at_fresh[OF assms(1), of now] by (auto simp: b0_def)
qed

lemma bucket_check_result_ok:
  assumes "params_ok p" "\<And>b. e = Some b \<Longrightarrow> bucket_wf now b" "duration_ok now"
  shows "bucket_ok p now (snd (bucket_check e (Fin (fst p)) (Fin (snd p)) now))"
proof (cases e)
  case None
  then show ?thesis
    using bucket_check_ok[OF assms(1) bucket_okD(3)[OF bucket_ok_fresh[OF assms(1)]] assms(3)]
    by (simp add: bucket_check_None)
next
  case (Some b)
  then show ?thesis using bucket_check_ok[OF assms(1) assms(2)[OF Some] assms(3)] by simp
qed


section \<open>Evicting stores\<close>

text \<open>
  What the limiter needs of the place its buckets are kept in: a bucket put under a key is
  found there again, and the buckets of other keys stay, except that full buckets may be
  dropped at any \<open>put\<close>.
\<close>

locale evicting_store =
  fixes get :: "'s \<Rightarrow> rl_key \<Rightarrow> Bucket option"
    and put :: "instant \<Rightarrow> rl_key \<Rightarrow> Bucket \<Rightarrow> 's \<Rightarrow> 's"
    and ok :: "'s \<Rightarrow> bool"
  assumes put_ok: "ok s \<Longrightarrow> ok (put now k b s)"
    and get_put: "ok s \<Longrightarrow>
      get (put now k b s) k' = ((get s)(k \<mapsto> b)) k' \<or>
      (get (put now k b s) k' = None \<and>
        (\<exists>b'. ((get s)(k \<mapsto> b)) k' = Some b' \<and> Bucket_is_full_at now b'))"

fun store_checks ::
  "('s \<Rightarrow> rl_key \<Rightarrow> Bucket option) \<Rightarrow> (instant \<Rightarrow> rl_key \<Rightarrow> Bucket \<Rightarrow> 's \<Rightarrow> 's) \<Rightarrow>
   rl_call list \<Rightarrow> 's \<Rightarrow> bool list \<times> 's" where
  "store_checks get put [] s = ([], s)"
| "store_checks get put (c # cs) s =
     (let (a, b) = bucket_check (get s (rc_key c)) (rc_rate c) (rc_capacity c) (rc_now c);
          (as, s') = store_checks get put cs (put (rc_now c) (rc_key c) b s)
      in (a # as, s'))"

lemma length_store_checks [simp]: "length (fst (store_checks get put cs s)) = length cs"
  by (induction cs arbitrary: s) (simp_all add: case_prod_unfold Let_def)

lemma store_checks_append:
  "store_checks get put (cs @ ds) s =
     (fst (store_checks get put cs s) @ fst (store_checks get put ds (snd (store_checks get put cs s))),
      snd (store_checks get put ds (snd (store_checks get put cs s))))"
  by (induction cs arbitrary: s) (simp_all add: case_prod_unfold Let_def)

text \<open>
  Calls in time order, and the parameters of a call: they come with each call, from the
  snapshot in force, so the calls of one key may differ in them.
\<close>

fun in_time :: "instant \<Rightarrow> rl_call list \<Rightarrow> bool" where
  "in_time t [] = True"
| "in_time t (c # cs) = (t \<le> rc_now c \<and> duration_ok (rc_now c) \<and> in_time (rc_now c) cs)"

fun last_time :: "instant \<Rightarrow> rl_call list \<Rightarrow> instant" where
  "last_time t [] = t"
| "last_time t (c # cs) = last_time (rc_now c) cs"

lemma in_time_append: "in_time t (cs @ ds) \<longleftrightarrow> in_time t cs \<and> in_time (last_time t cs) ds"
  by (induction cs arbitrary: t) auto

definition uses :: "rat \<times> rat \<Rightarrow> rl_call \<Rightarrow> bool" where
  "uses p c \<longleftrightarrow> rc_rate c = Fin (fst p) \<and> rc_capacity c = Fin (snd p)"

text \<open>The decisions on the calls of one key, how many of them let the call pass, how many there are.\<close>

fun decisions :: "rl_key \<Rightarrow> rl_call list \<Rightarrow> bool list \<Rightarrow> bool list" where
  "decisions k (c # cs) (d # ds) = (if rc_key c = k then d # decisions k cs ds else decisions k cs ds)"
| "decisions k _ _ = []"

definition admitted :: "rl_key \<Rightarrow> rl_call list \<Rightarrow> bool list \<Rightarrow> nat" where
  "admitted k cs ds = length (filter id (decisions k cs ds))"

definition calls_of :: "rl_key \<Rightarrow> rl_call list \<Rightarrow> nat" where
  "calls_of k cs = length (filter (\<lambda>c. rc_key c = k) cs)"

lemma admitted_simps [simp]:
  "admitted k [] ds = 0"
  "admitted k (c # cs) (d # ds) = of_bool (rc_key c = k \<and> d) + admitted k cs ds"
  by (simp_all add: admitted_def)

lemma calls_of_simps [simp]:
  "calls_of k [] = 0" "calls_of k (c # cs) = of_bool (rc_key c = k) + calls_of k cs"
  by (simp_all add: calls_of_def)

lemma decisions_eqI:
  assumes "length ds = length cs" "length ds' = length cs" "\<And>k. decisions k cs ds = decisions k cs ds'"
  shows "ds = ds'"
  using assms
proof (induction cs arbitrary: ds ds')
  case (Cons c cs)
  then obtain d r d' r' where "ds = d # r" "ds' = d' # r'" by (cases ds; cases ds') auto
  moreover from this have "d = d'" "\<And>k. decisions k cs r = decisions k cs r'"
    using Cons.prems(3) by (metis decisions.simps(1) list.inject)+
  ultimately show ?case using Cons.IH[of r r'] Cons.prems(1,2) by simp
qed simp

text \<open>
  The entry of a key against its bucket in the reference limiter, once all its calls have had
  the parameters \<open>p\<close>: the same bucket, or none any more and then the bucket is full.
\<close>

definition entry_sim :: "rat \<times> rat \<Rightarrow> instant \<Rightarrow> Bucket option \<Rightarrow> Bucket option \<Rightarrow> bool" where
  "entry_sim p now e r =
     (case r of
        None \<Rightarrow> e = None
      | Some b \<Rightarrow> bucket_ok p now b \<and> (e = Some b \<or> e = None \<and> level_at p now b = snd p))"

lemma bucket_wf_mono: "bucket_wf now b \<Longrightarrow> now \<le> now' \<Longrightarrow> bucket_wf now' b"
  by (auto simp: bucket_wf_def)

lemma bucket_ok_mono: "bucket_ok p now b \<Longrightarrow> now \<le> now' \<Longrightarrow> bucket_ok p now' b"
  by (auto simp: bucket_ok_def bucket_wf_mono)

lemma entry_sim_mono:
  "params_ok p \<Longrightarrow> entry_sim p now e r \<Longrightarrow> now \<le> now' \<Longrightarrow> duration_ok now' \<Longrightarrow> entry_sim p now' e r"
  by (auto simp: entry_sim_def bucket_ok_mono full_stays[OF _ bucket_okD(3)] split: option.splits)

text \<open>Related entries give the same decision and the same bucket.\<close>

lemma entry_sim_check:
  assumes "params_ok p" "entry_sim p now e r" "duration_ok now"
  shows "bucket_check e (Fin (fst p)) (Fin (snd p)) now = bucket_check r (Fin (fst p)) (Fin (snd p)) now"
  using assms(2) bucket_check_evicted[OF assms(1) bucket_okD(3)[of p now] assms(3)]
  by (auto simp: entry_sim_def split: option.splits)

lemma entry_sim_ok: "entry_sim p now e r \<Longrightarrow> r = Some b \<Longrightarrow> bucket_wf now b"
  by (auto simp: entry_sim_def dest: bucket_okD(3))

context evicting_store
begin

lemma get_put_Some: "ok s \<Longrightarrow> get (put now k b s) k' = Some b' \<Longrightarrow> ((get s)(k \<mapsto> b)) k' = Some b'"
  using get_put[of s now k b k'] by (auto simp del: fun_upd_apply)

lemma put_sim:
  assumes sim: "entry_sim p now (((get s)(k \<mapsto> b)) k') r" and par: "params_ok p" and ok: "ok s" and now: "duration_ok now"
  shows "entry_sim p now (get (put now k b s) k') r"
proof (cases "get (put now k b s) k' = ((get s)(k \<mapsto> b)) k'")
  case True
  then show ?thesis using sim by simp
next
  case False
  then obtain b' where b': "get (put now k b s) k' = None" "((get s)(k \<mapsto> b)) k' = Some b'"
    "Bucket_is_full_at now b'" using get_put[OF ok, of now k b k'] by blast
  then have r: "r = Some b'" and bok: "bucket_ok p now b'"
    using sim by (auto simp: entry_sim_def simp del: fun_upd_apply split: option.splits)
  then show ?thesis
    using b'(1,3) full_level[OF par bok now] by (simp add: entry_sim_def)
qed

text \<open>A call of another key and a call of the key itself.\<close>

lemma other_call_sim:
  assumes "params_ok p" "entry_sim p now (get s k) r" "ok s" "now \<le> now'" "duration_ok now'" "k' \<noteq> k"
  shows "entry_sim p now' (get (put now' k' b s) k) r"
  using put_sim[of p now' s k' b k r] entry_sim_mono[OF assms(1,2,4,5)] assms by simp

lemma own_call_sim:
  assumes "params_ok p" "\<And>b. r = Some b \<Longrightarrow> bucket_wf now b" "ok s" "duration_ok now"
    and "bucket_check r (Fin (fst p)) (Fin (snd p)) now = (a, b)"
  shows "entry_sim p now (get (put now k b s) k) (Some b)"
proof -
  have "bucket_ok p now b" using bucket_check_result_ok[OF assms(1,2,4)] assms(5) by (metis snd_conv)
  then show ?thesis using assms(1,3,4) by (intro put_sim) (simp_all add: entry_sim_def)
qed

text \<open>
  Every evicting store takes the decisions of the reference limiter on a key whose calls all
  have the same parameters, whatever the other keys do.
\<close>

lemma store_decisions:
  assumes "params_ok p"
  shows "\<lbrakk>entry_sim p now (get s k) (st k); ok s; in_time now cs; \<forall>c \<in> set cs. rc_key c = k \<longrightarrow> uses p c\<rbrakk> \<Longrightarrow>
    decisions k cs (fst (store_checks get put cs s)) = decisions k cs (reference_checks cs st)"
proof (induction cs arbitrary: now s st)
  case Nil
  then show ?case by simp
next
  case (Cons c cs)
  let ?t = "rc_now c"
  have t: "now \<le> ?t" "duration_ok ?t" and rest: "in_time ?t cs" "\<forall>c \<in> set cs. rc_key c = k \<longrightarrow> uses p c"
    using Cons.prems(3,4) by simp_all
  obtain a b where ab: "bucket_check (get s (rc_key c)) (rc_rate c) (rc_capacity c) ?t = (a, b)" by fastforce
  obtain a' b' where ab': "bucket_check (st (rc_key c)) (rc_rate c) (rc_capacity c) ?t = (a', b')" by fastforce
  have ok: "ok (put ?t (rc_key c) b s)" using Cons.prems(2) by (rule put_ok)
  have "entry_sim p ?t (get (put ?t (rc_key c) b s) k) ((st(rc_key c \<mapsto> b')) k) \<and> (rc_key c = k \<longrightarrow> a = a')"
  proof (cases "rc_key c = k")
    case False
    then show ?thesis using other_call_sim[OF assms Cons.prems(1,2) t] by simp
  next
    case True
    then have rc: "rc_rate c = Fin (fst p)" "rc_capacity c = Fin (snd p)" using Cons.prems(4) by (simp_all add: uses_def)
    have sim: "entry_sim p ?t (get s k) (st k)" using entry_sim_mono[OF assms Cons.prems(1) t] .
    have "(a, b) = (a', b')" using ab ab' entry_sim_check[OF assms sim t(2)] True rc by simp
    then show ?thesis
      using own_call_sim[OF assms entry_sim_ok[OF sim] Cons.prems(2) t(2)] ab' True rc by simp
  qed
  then show ?case
    using Cons.IH[OF _ ok rest, of "st(rc_key c \<mapsto> b')"]
    by (auto simp: ab ab' case_prod_unfold Let_def simp del: fun_upd_apply)
qed

text \<open>What a history leaves under a key, whatever parameters its calls had.\<close>

lemma store_ok: "ok s \<Longrightarrow> ok (snd (store_checks get put cs s))"
  by (induction cs arbitrary: s) (simp_all add: case_prod_unfold Let_def put_ok)

lemma store_kept:
  "\<lbrakk>\<And>b. get s k = Some b \<Longrightarrow> bucket_wf now b; ok s; in_time now cs;
    \<forall>c \<in> set cs. rc_key c = k \<longrightarrow> (\<exists>q. params_ok q \<and> uses q c); get (snd (store_checks get put cs s)) k = Some b\<rbrakk> \<Longrightarrow>
    bucket_wf (last_time now cs) b \<and> (get s k = Some b \<or> (\<exists>c \<in> set cs. rc_key c = k \<and> bk_last b = rc_now c))"
proof (induction cs arbitrary: now s)
  case Nil
  then show ?case by simp
next
  case (Cons c cs)
  let ?t = "rc_now c"
  have t: "now \<le> ?t" "duration_ok ?t" and rest: "in_time ?t cs" "\<forall>c \<in> set cs. rc_key c = k \<longrightarrow> (\<exists>q. params_ok q \<and> uses q c)"
    using Cons.prems(3,4) by simp_all
  obtain a b1 where ab: "bucket_check (get s (rc_key c)) (rc_rate c) (rc_capacity c) ?t = (a, b1)" by fastforce
  have old: "bucket_wf ?t b'" if "get s k = Some b'" for b' using bucket_wf_mono[OF Cons.prems(1)[OF that] t(1)] .
  have wf: "bucket_wf ?t b'" "rc_key c \<noteq> k \<Longrightarrow> get s k = Some b'" "rc_key c = k \<Longrightarrow> bk_last b' = ?t"
    if "get (put ?t (rc_key c) b1 s) k = Some b'" for b'
  proof -
    have g: "((get s)(rc_key c \<mapsto> b1)) k = Some b'" using get_put_Some[OF Cons.prems(2) that] .
    then show other: "get s k = Some b'" if "rc_key c \<noteq> k" using that by simp
    show "bk_last b' = ?t" if "rc_key c = k" using g that ab bucket_check_last by (metis fun_upd_same option.inject snd_conv)
    show "bucket_wf ?t b'"
    proof (cases "rc_key c = k")
      case True
      then obtain q where q: "params_ok q" "uses q c" using Cons.prems(4) by auto
      have "bucket_ok q ?t b1"
        using bucket_check_result_ok[OF q(1) old t(2)] ab True q(2) by (metis snd_conv uses_def)
      then show ?thesis using g True by (simp add: bucket_okD)
    qed (use old other in blast)
  qed
  have kept: "get (snd (store_checks get put cs (put ?t (rc_key c) b1 s))) k = Some b"
    using Cons.prems(5) by (simp add: ab case_prod_unfold Let_def)
  show ?case using Cons.IH[OF wf(1) put_ok[OF Cons.prems(2)] rest kept] wf(2,3) by auto
qed

text \<open>What is admitted from a bucket on.\<close>

lemma admitted_from_bucket:
  assumes par: "params_ok p" and cap: "snd p \<le> 2 ^ 53"
  shows "\<lbrakk>entry_sim p now (get s k) (Some b); ok s; in_time now cs; \<forall>c \<in> set cs. rc_key c = k \<longrightarrow> uses p c;
    \<forall>c \<in> set cs. rc_now c \<le> T; bk_last b \<le> T\<rbrakk> \<Longrightarrow>
    of_nat (admitted k cs (fst (store_checks get put cs s))) \<le>
      tokens_of b + span_tokens p (T - bk_last b) + of_nat (calls_of k cs) * call_slack p"
proof (induction cs arbitrary: now s b)
  case Nil
  have "0 \<le> tokens_of b" using bucket_wfD(3)[OF entry_sim_ok[OF Nil.prems(1) refl]] .
  moreover have "0 \<le> span_tokens p (T - bk_last b)"
    using span_tokens_mono[OF par, of 0] by (simp add: span_tokens_def)
  ultimately show ?case by simp
next
  case (Cons c cs)
  let ?t = "rc_now c"
  obtain a b' where ab: "bucket_check (get s (rc_key c)) (rc_rate c) (rc_capacity c) ?t = (a, b')" by fastforce
  have rest: "in_time ?t cs" "\<forall>c \<in> set cs. rc_key c = k \<longrightarrow> uses p c" "\<forall>c \<in> set cs. rc_now c \<le> T"
    and t: "?t \<le> T" "now \<le> ?t" "duration_ok ?t" using Cons.prems(3-5) by simp_all
  note IH = Cons.IH[OF _ put_ok[OF Cons.prems(2)] rest]
  show ?case
  proof (cases "rc_key c = k")
    case False
    then show ?thesis
      using IH[OF other_call_sim[OF par Cons.prems(1,2) t(2,3) False] Cons.prems(6)] by (simp add: ab case_prod_unfold Let_def)
  next
    case True
    have wf: "bucket_wf now b" using entry_sim_ok[OF Cons.prems(1) refl] .
    have eq: "bucket_check (Some b) (Fin (fst p)) (Fin (snd p)) ?t = (a, b')"
      using ab True Cons.prems(4) entry_sim_check[OF par entry_sim_mono[OF par Cons.prems(1) t(2,3)] t(3)] by (simp add: uses_def)
    have wf': "\<And>b''. Some b = Some b'' \<Longrightarrow> bucket_wf ?t b''"
      using bucket_wf_mono[OF wf t(2)] by simp
    obtain l where l: "of_bool a + tokens_of b' = l" "bk_last b' = ?t" "l = level_at p ?t b"
      by (rule check_conserves[OF par wf' t(3) cap eq]) auto
    have IH': "of_nat (admitted k cs (fst (store_checks get put cs (put ?t k b' s)))) \<le>
        tokens_of b' + span_tokens p (T - ?t) + of_nat (calls_of k cs) * call_slack p"
      using IH[OF own_call_sim[OF par wf' Cons.prems(2) t(3) eq], unfolded True] t(1) l(2) by simp
    have "T - bk_last b = (T - ?t) + (?t - bk_last b)" using t bucket_wfD(1)[OF wf] by simp
    then have "span_tokens p (T - bk_last b) = span_tokens p (T - ?t) + span_tokens p (?t - bk_last b)"
      by (simp only: span_tokens_add)
    moreover have "l \<le> tokens_of b + span_tokens p (?t - bk_last b) + call_slack p"
      using level_at_upper[OF par wf t(3)] l(3) by simp
    ultimately show ?thesis
      using IH' l(1) True ab by (simp add: case_prod_unfold Let_def algebra_simps)
  qed
qed

text \<open>
  What is admitted in a window, from any bucket that was there before: the first call of the
  window refills it to no more than the capacity of its own parameters.
\<close>

lemma admitted_in_window:
  assumes par: "params_ok p" and cap: "snd p \<le> 2 ^ 53"
  shows "\<lbrakk>\<And>b. get s k = Some b \<Longrightarrow> bucket_wf now b; ok s; in_time now cs; \<forall>c \<in> set cs. rc_key c = k \<longrightarrow> uses p c;
    \<forall>c \<in> set cs. rc_key c = k \<longrightarrow> t0 \<le> rc_now c; \<forall>c \<in> set cs. rc_now c \<le> T\<rbrakk> \<Longrightarrow>
    of_nat (admitted k cs (fst (store_checks get put cs s))) \<le>
      snd p + span_tokens p (T - t0) + of_nat (calls_of k cs) * call_slack p"
proof (induction cs arbitrary: now s)
  case Nil
  have "0 \<le> span_tokens p (T - t0)"
    using span_tokens_mono[OF par, of 0] by (simp add: span_tokens_def)
  then show ?case using par by (simp add: params_ok_def)
next
  case (Cons c cs)
  let ?t = "rc_now c"
  obtain a b' where ab: "bucket_check (get s (rc_key c)) (rc_rate c) (rc_capacity c) ?t = (a, b')" by fastforce
  have rest: "in_time ?t cs" "\<forall>c \<in> set cs. rc_key c = k \<longrightarrow> uses p c" "\<forall>c \<in> set cs. rc_key c = k \<longrightarrow> t0 \<le> rc_now c"
    "\<forall>c \<in> set cs. rc_now c \<le> T"
    and t: "?t \<le> T" "now \<le> ?t" "duration_ok ?t" using Cons.prems(3-6) by simp_all
  have wf: "bucket_wf ?t b" if "get s k = Some b" for b using bucket_wf_mono[OF Cons.prems(1)[OF that] t(2)] .
  show ?case
  proof (cases "rc_key c = k")
    case False
    then have "bucket_wf ?t b" if "get (put ?t (rc_key c) b' s) k = Some b" for b
      using wf get_put_Some[OF Cons.prems(2) that] by simp
    then show ?thesis
      using Cons.IH[OF _ put_ok[OF Cons.prems(2)] rest] False by (simp add: ab case_prod_unfold Let_def)
  next
    case True
    have eq: "bucket_check (get s k) (Fin (fst p)) (Fin (snd p)) ?t = (a, b')"
      using ab True Cons.prems(4) by (simp add: uses_def)
    obtain l where l: "of_bool a + tokens_of b' = l" "l \<le> snd p" "bk_last b' = ?t"
      by (rule check_conserves[OF par wf t(3) cap eq]) auto
    have "of_nat (admitted k cs (fst (store_checks get put cs (put ?t k b' s)))) \<le>
        tokens_of b' + span_tokens p (T - ?t) + of_nat (calls_of k cs) * call_slack p"
      using admitted_from_bucket[OF par cap own_call_sim[OF par wf Cons.prems(2) t(3) eq] put_ok[OF Cons.prems(2)] rest(1,2,4)]
        t(1) l(3) by simp
    moreover have "span_tokens p (T - ?t) \<le> span_tokens p (T - t0)"
      using Cons.prems(5) True by (intro span_tokens_mono par diff_le_mono2) simp
    ultimately show ?thesis
      using l(1,2) call_slack_nonneg[OF par] True ab by (simp add: case_prod_unfold Let_def algebra_simps)
  qed
qed

end


section \<open>The sharded store\<close>

definition shard_get :: "(string \<Rightarrow> ip_addr \<Rightarrow> u64) \<Rightarrow> RateLimiter \<Rightarrow> rl_key \<Rightarrow> Bucket option" where
  "shard_get hash rl k = map_of (rl ! shard_index hash k) k"

definition shard_put ::
  "(string \<Rightarrow> ip_addr \<Rightarrow> u64) \<Rightarrow> instant \<Rightarrow> rl_key \<Rightarrow> Bucket \<Rightarrow> RateLimiter \<Rightarrow> RateLimiter" where
  "shard_put hash now k b rl =
     rl[shard_index hash k := sweep now (AList.update k b (rl ! shard_index hash k))]"

definition shards_ok :: "RateLimiter \<Rightarrow> bool" where
  "shards_ok rl \<longleftrightarrow> length rl = SHARDS \<and> (\<forall>m \<in> set rl. distinct (map fst m))"

lemma check_as_store:
  "check hash route ip rate capacity now rl =
     (let (a, b) = bucket_check (shard_get hash rl (route, ip)) rate capacity now
      in (a, shard_put hash now (route, ip) b rl))"
  by (simp add: check_def shard_get_def shard_put_def Let_def)

lemma run_checks_store: "run_checks hash cs rl = store_checks (shard_get hash) (shard_put hash) cs rl"
  by (induction cs arbitrary: rl) (simp_all add: check_as_store case_prod_unfold Let_def)

lemma shard_index_less: "shard_index hash k < SHARDS"
  by (simp add: shard_index_def SHARDS_def)

lemma map_of_filter_distinct:
  "distinct (map fst m) \<Longrightarrow>
     map_of (filter (\<lambda>(k, v). P v) m) k =
     (case map_of m k of Some v \<Rightarrow> if P v then Some v else None | None \<Rightarrow> None)"
  by (induction m) (auto split: option.splits dest: map_of_SomeD intro: weak_map_of_SomeI rev_image_eqI)

lemma map_of_sweep:
  "distinct (map fst m) \<Longrightarrow>
     map_of (sweep now m) k = map_of m k \<or>
     (map_of (sweep now m) k = None \<and> (\<exists>b. map_of m k = Some b \<and> Bucket_is_full_at now b))"
  by (auto simp: sweep_def map_of_filter_distinct[where P = "\<lambda>b. \<not> Bucket_is_full_at now b"]
      split: option.splits)

lemma distinct_sweep: "distinct (map fst m) \<Longrightarrow> distinct (map fst (sweep now m))"
  by (auto simp: sweep_def distinct_map_filter)

interpretation shards: evicting_store "shard_get hash" "shard_put hash" shards_ok
proof
  fix s :: RateLimiter and now k b k'
  assume ok: "shards_ok s"
  let ?i = "shard_index hash k" and ?j = "shard_index hash k'"
  let ?m = "AList.update k b (s ! ?i)"
  have i: "?i < length s" "?j < length s" using ok shard_index_less by (simp_all add: shards_ok_def)
  have "distinct (map fst (s ! ?i))" using ok i(1) by (simp add: shards_ok_def)
  then have d: "distinct (map fst ?m)" by (rule distinct_update)
  show "shards_ok (shard_put hash now k b s)"
    using ok distinct_sweep[OF d]
    by (auto simp: shards_ok_def shard_put_def dest: set_update_subset_insert[THEN subsetD])
  show "shard_get hash (shard_put hash now k b s) k' = ((shard_get hash s)(k \<mapsto> b)) k' \<or>
      shard_get hash (shard_put hash now k b s) k' = None \<and>
      (\<exists>b'. ((shard_get hash s)(k \<mapsto> b)) k' = Some b' \<and> Bucket_is_full_at now b')"
  proof (cases "?i = ?j")
    case True
    have "((shard_get hash s)(k \<mapsto> b)) k' = map_of ?m k'"
      using True by (auto simp: shard_get_def update_conv')
    moreover have "shard_get hash (shard_put hash now k b s) k' = map_of (sweep now ?m) k'"
      using i True by (simp add: shard_get_def shard_put_def)
    ultimately show ?thesis using map_of_sweep[OF d, of now k'] by simp
  next
    case False
    then have "k \<noteq> k'" by auto
    then show ?thesis using False by (simp add: shard_get_def shard_put_def)
  qed
qed

lemma shards_ok_new [simp]: "shards_ok RateLimiter_new"
  by (simp add: shards_ok_def RateLimiter_new_def)

lemma shard_get_new [simp]: "shard_get hash RateLimiter_new k = None"
  using shard_index_less[of hash k] by (simp add: shard_get_def RateLimiter_new_def)

lemma length_reference_checks [simp]: "length (reference_checks cs st) = length cs"
  by (induction cs arbitrary: st) (simp_all add: case_prod_unfold Let_def)

text \<open>On one key, and on all of them when each keeps its parameters.\<close>

lemma run_checks_decisions:
  assumes "params_ok p" "in_time 0 cs" "\<forall>c \<in> set cs. rc_key c = k \<longrightarrow> uses p c"
  shows "decisions k cs (fst (run_checks hash cs RateLimiter_new)) = decisions k cs (reference_checks cs Map.empty)"
  unfolding run_checks_store
  by (rule shards.store_decisions[OF assms(1), where now = 0]) (simp_all add: assms(2,3) entry_sim_def)

lemma run_checks_reference:
  assumes "\<And>r. params_ok (par r)" "in_time 0 cs" "\<forall>c \<in> set cs. uses (par (fst (rc_key c))) c"
  shows "fst (run_checks hash cs RateLimiter_new) = reference_checks cs Map.empty"
proof (rule decisions_eqI[where cs = cs])
  show "decisions k cs (fst (run_checks hash cs RateLimiter_new)) = decisions k cs (reference_checks cs Map.empty)" for k
    using assms by (intro run_checks_decisions[where p = "par (fst k)"]) auto
qed (simp_all add: run_checks_store)


section \<open>Bursts, idle clients, floods\<close>

definition call_at :: "(string \<Rightarrow> rat \<times> rat) \<Rightarrow> instant \<Rightarrow> rl_key \<Rightarrow> rl_call" where
  "call_at par now k =
     \<lparr>rc_key = k, rc_rate = Fin (fst (par (fst k))), rc_capacity = Fin (snd (par (fst k))), rc_now = now\<rparr>"

lemma call_at_simps [simp]:
  "rc_key (call_at par now k) = k" "rc_now (call_at par now k) = now"
  "rc_rate (call_at par now k) = Fin (fst (par (fst k)))"
  "rc_capacity (call_at par now k) = Fin (snd (par (fst k)))"
  by (simp_all add: call_at_def)

lemma uses_call_at [simp]: "uses (par (fst k)) (call_at par now k)"
  by (simp add: uses_def)

lemma in_time_replicate:
  "duration_ok now \<Longrightarrow> t \<le> now \<Longrightarrow> in_time t (replicate n (call_at par now k))"
  by (induction n arbitrary: t) simp_all

lemma last_time_replicate: "last_time t (replicate n (call_at par now k)) = (if n = 0 then t else now)"
  by (induction n arbitrary: t) simp_all

lemma level_at_now: "bucket_ok p now b \<Longrightarrow> bk_last b = now \<Longrightarrow> level_at p now b = tokens_of b"
  using bucket_okD(3,4)[of p now b] bucket_wfD(4)[of now b] by (simp add: level_at_def binary64.refill_q_0)

text \<open>At one instant a bucket is spent token by token.\<close>

lemma burst_reference:
  assumes "params_ok p" "snd p \<le> 2 ^ 53" "duration_ok now" "p = par (fst k)"
  shows "\<lbrakk>bucket_ok p now b; bk_last b = now; st k = Some b\<rbrakk> \<Longrightarrow>
    reference_checks (replicate n (call_at par now k)) st = map (\<lambda>i. of_nat i + 1 \<le> tokens_of b) [0..<n]"
proof (induction n arbitrary: b st)
  case 0
  then show ?case by simp
next
  case (Suc n)
  obtain a b' where ab: "bucket_check (Some b) (Fin (fst p)) (Fin (snd p)) now = (a, b')" by fastforce
  note wf = bucket_okD(3)[OF Suc.prems(1)]
  have ok: "bucket_ok p now b'" using bucket_check_ok[OF assms(1) wf assms(3)] ab by simp
  obtain l where l: "of_bool a + tokens_of b' = l" "a \<longleftrightarrow> 1 \<le> l" "bk_last b' = now" "l = level_at p now b"
    using check_conserves[OF assms(1) _ assms(3,2) ab] wf by (metis option.inject)
  have t: "l = tokens_of b" using l(4) level_at_now[OF Suc.prems(1,2)] by simp
  have upt: "[0..<Suc n] = 0 # map Suc [0..<n]" by (simp add: map_Suc_upt upt_conv_Cons)
  have "of_nat i + 1 \<le> tokens_of b' \<longleftrightarrow> of_nat (Suc i) + 1 \<le> tokens_of b" for i
    using l(1,2) t by (cases a) (auto simp: algebra_simps)
  moreover have upd: "(st(k \<mapsto> b')) k = Some b'" by simp
  ultimately show ?case
    using Suc.IH[where st = "st(k \<mapsto> b')", OF ok l(3) upd] Suc.prems(3) ab l(2) t
    by (simp add: assms(4)[symmetric] upt comp_def del: upt_Suc fun_upd_apply)
qed

lemma burst_new:
  assumes "params_ok p" "snd p \<le> 2 ^ 53" "duration_ok now" "p = par (fst k)"
  shows "reference_checks (replicate n (call_at par now k)) Map.empty = map (\<lambda>i. of_nat i + 1 \<le> snd p) [0..<n]"
proof -
  let ?b = "fresh_bucket (Fin (fst p)) (Fin (snd p)) now"
  have "reference_checks (replicate n (call_at par now k)) Map.empty =
      reference_checks (replicate n (call_at par now k)) [k \<mapsto> ?b]"
    by (cases n) (simp_all add: bucket_check_None assms(4))
  also have "\<dots> = map (\<lambda>i. of_nat i + 1 \<le> tokens_of ?b) [0..<n]"
    using burst_reference[where st = "[k \<mapsto> ?b]" and k = k and par = par, OF assms
        bucket_ok_fresh[OF assms(1)]]
    by (simp add: fresh_bucket_def)
  finally show ?thesis by (simp add: tokens_of_def fresh_bucket_def)
qed

lemma burst_checks:
  assumes "\<And>r. params_ok (par r)" and "snd (par (fst k)) = of_nat c" and "c \<le> 2 ^ 53" and "duration_ok now"
  shows "fst (run_checks hash (replicate n (call_at par now k)) RateLimiter_new) = map (\<lambda>i. i < c) [0..<n]"
proof -
  have cap: "snd (par (fst k)) \<le> 2 ^ 53"
    using assms(2,3) by (metis of_nat_le_iff of_nat_numeral of_nat_power)
  have "in_time 0 (replicate n (call_at par now k))"
    using assms(4) by (rule in_time_replicate) simp
  then have "fst (run_checks hash (replicate n (call_at par now k)) RateLimiter_new) =
      map (\<lambda>i. of_nat i + 1 \<le> snd (par (fst k))) [0..<n]"
    using run_checks_reference[where par = par, OF assms(1)] burst_new[where p = "par (fst k)" and par = par, OF assms(1) cap assms(4) refl] by simp
  moreover have "of_nat i + 1 \<le> (of_nat c :: rat) \<longleftrightarrow> i < c" for i
    by (metis Suc_le_eq add.commute of_nat_Suc of_nat_le_iff)
  ultimately show ?thesis by (simp add: assms(2))
qed

text \<open>A bucket untouched for so long that the time alone earns a token.\<close>

lemma level_at_idle:
  assumes "params_ok p" "bucket_wf now b" "duration_ok now"
    and "bk_last b + d \<le> now" "1 \<le> rnd (secs_of d * fst p)" "1 \<le> snd p"
  shows "1 \<le> level_at p now b"
proof -
  let ?el = "secs_of (now - bk_last b)"
  have "secs_of d \<le> ?el" using assms(3,4) by (intro secs_of_mono) auto
  then have "secs_of d * fst p \<le> ?el * fst p" using assms(1) by (intro mult_right_mono) (simp_all add: params_ok_def)
  then have "1 \<le> rnd (?el * fst p)" using order_trans[OF assms(5) binary64.rd_mono] assms(1) by (simp add: params_ok_def)
  then have "1 \<le> rnd (tokens_of b + rnd (?el * fst p))"
    using rnd_pow2[of 0] bucket_wfD(3)[OF assms(2)] by (intro binary64.rd_ge) simp_all
  then show ?thesis using assms(6) by (simp add: level_at_def refill_q_def)
qed

lemma idle_admitted:
  assumes "params_ok p" "\<And>b. e = Some b \<Longrightarrow> bucket_wf now b \<and> bk_last b + d \<le> now"
    and "duration_ok now" "1 \<le> rnd (secs_of d * fst p)" "1 \<le> snd p"
  shows "fst (bucket_check e (Fin (fst p)) (Fin (snd p)) now)"
proof (cases e)
  case None
  then show ?thesis
    using assms(5) by (simp add: bucket_check_None level_at_fresh[OF assms(1)]
        bucket_check_Some[OF assms(1) bucket_okD(3)[OF bucket_ok_fresh[OF assms(1)]] assms(3)])
next
  case (Some b)
  then have b: "bucket_wf now b" "bk_last b + d \<le> now" using assms(2) by simp_all
  show ?thesis
    using Some level_at_idle[OF assms(1) b(1) assms(3) b(2) assms(4,5)]
    by (simp add: bucket_check_Some[OF assms(1) b(1) assms(3)])
qed

text \<open>A flood of distinct keys at one instant: no bucket is full, so none is ever swept.\<close>

definition spent :: "rat \<times> rat \<Rightarrow> instant \<Rightarrow> Bucket \<Rightarrow> bool" where
  "spent p now b \<longleftrightarrow> bucket_ok p now b \<and> bk_last b = now \<and> tokens_of b < snd p"

lemma spent_not_full: "params_ok p \<Longrightarrow> duration_ok now \<Longrightarrow> spent p now b \<Longrightarrow> \<not> Bucket_is_full_at now b"
  using full_level level_at_now by (fastforce simp: spent_def)

lemma bucket_check_spent:
  assumes "params_ok p" "1 \<le> snd p" "snd p \<le> 2 ^ 53" "duration_ok now"
  shows "spent p now (snd (bucket_check None (Fin (fst p)) (Fin (snd p)) now))"
proof -
  obtain a b where ab: "bucket_check None (Fin (fst p)) (Fin (snd p)) now = (a, b)" by fastforce
  have "bucket_ok p now b"
    using bucket_check_result_ok[OF assms(1) _ assms(4), of None] ab by simp
  moreover obtain l where "of_bool a + tokens_of b = l" "a \<longleftrightarrow> 1 \<le> l" "l = snd p" "bk_last b = now"
    using check_conserves[OF assms(1) _ assms(4,3) ab] by (metis option.distinct(1))
  ultimately show ?thesis using ab assms(2) by (simp add: spent_def)
qed

definition flooded :: "(string \<Rightarrow> rat \<times> rat) \<Rightarrow> instant \<Rightarrow> RateLimiter \<Rightarrow> bool" where
  "flooded par now rl \<longleftrightarrow> shards_ok rl \<and> (\<forall>m \<in> set rl. \<forall>(k, b) \<in> set m. spent (par (fst k)) now b)"

definition held :: "RateLimiter \<Rightarrow> nat" where
  "held rl = sum_list (map length rl)"

lemma held_new: "held RateLimiter_new = 0"
  by (simp add: held_def RateLimiter_new_def)

lemma sweep_spent:
  "(\<And>r. params_ok (par r)) \<Longrightarrow> duration_ok now \<Longrightarrow> \<forall>(k, b) \<in> set m. spent (par (fst k)) now b \<Longrightarrow>
     sweep now m = m"
  by (force simp: sweep_def filter_id_conv dest: spent_not_full[rotated 2])

lemma update_new: "k \<notin> fst ` set m \<Longrightarrow> AList.update k b m = m @ [(k, b)]"
  by (induction m) auto

lemma sum_list_length_update:
  "i < length rl \<Longrightarrow> sum_list (map length (rl[i := m])) + length (rl ! i) = sum_list (map length rl) + length m"
proof (induction rl arbitrary: i)
  case Nil
  then show ?case by simp
next
  case (Cons x rl)
  then show ?case by (cases i) auto
qed

lemma flood_step:
  assumes par: "\<And>r. params_ok (par r)" "\<And>r. 1 \<le> snd (par r) \<and> snd (par r) \<le> 2 ^ 53"
    and now: "duration_ok now" and rl: "flooded par now rl" and new: "shard_get hash rl k = None"
  shows "flooded par now (snd (check hash (fst k) (snd k) (Fin (fst (par (fst k)))) (Fin (snd (par (fst k)))) now rl))
    \<and> held (snd (check hash (fst k) (snd k) (Fin (fst (par (fst k)))) (Fin (snd (par (fst k)))) now rl)) = Suc (held rl)
    \<and> (\<forall>k'. k' \<noteq> k \<longrightarrow>
        shard_get hash (snd (check hash (fst k) (snd k) (Fin (fst (par (fst k)))) (Fin (snd (par (fst k)))) now rl)) k'
          = shard_get hash rl k')"
proof -
  let ?p = "par (fst k)" and ?i = "shard_index hash k"
  define b where "b = snd (bucket_check None (Fin (fst ?p)) (Fin (snd ?p)) now)"
  have sp: "spent ?p now b" unfolding b_def using par now by (intro bucket_check_spent) auto
  have ok: "shards_ok rl" and old: "\<forall>m \<in> set rl. \<forall>(k, b) \<in> set m. spent (par (fst k)) now b"
    using rl by (simp_all add: flooded_def)
  have i: "?i < length rl" using ok shard_index_less by (simp add: shards_ok_def)
  have m: "AList.update k b (rl ! ?i) = (rl ! ?i) @ [(k, b)]"
    using new by (intro update_new) (simp add: shard_get_def map_of_eq_None_iff)
  have all: "\<forall>(k, b) \<in> set ((rl ! ?i) @ [(k, b)]). spent (par (fst k)) now b"
    using old i sp by auto
  have put: "snd (check hash (fst k) (snd k) (Fin (fst ?p)) (Fin (snd ?p)) now rl) = rl[?i := (rl ! ?i) @ [(k, b)]]"
    using new sweep_spent[of par, OF par(1) now all]
    by (simp add: check_as_store shard_put_def b_def[symmetric] m case_prod_unfold)
  have "shards_ok (shard_put hash now k b rl)" using ok by (rule shards.put_ok)
  then have "shards_ok (rl[?i := (rl ! ?i) @ [(k, b)]])"
    using sweep_spent[of par, OF par(1) now all] by (simp add: shard_put_def m)
  moreover have "\<forall>m \<in> set (rl[?i := (rl ! ?i) @ [(k, b)]]). \<forall>(k, b) \<in> set m. spent (par (fst k)) now b"
    using set_update_subset_insert[of rl ?i "(rl ! ?i) @ [(k, b)]"] old all by blast
  ultimately have "flooded par now (rl[?i := (rl ! ?i) @ [(k, b)]])" by (simp only: flooded_def)
  moreover have "held (rl[?i := (rl ! ?i) @ [(k, b)]]) = Suc (held rl)"
    using sum_list_length_update[OF i, of "(rl ! ?i) @ [(k, b)]"] by (simp add: held_def)
  moreover have "shard_get hash (rl[?i := (rl ! ?i) @ [(k, b)]]) k' = shard_get hash rl k'" if "k' \<noteq> k" for k'
    using that i by (cases "shard_index hash k' = ?i") (simp_all add: shard_get_def map_add_def split: option.splits)
  ultimately show ?thesis unfolding put by blast
qed

lemma flood_run:
  assumes par: "\<And>r. params_ok (par r)" "\<And>r. 1 \<le> snd (par r) \<and> snd (par r) \<le> 2 ^ 53"
    and now: "duration_ok now"
  shows "\<lbrakk>distinct ks; flooded par now rl; \<forall>k \<in> set ks. shard_get hash rl k = None\<rbrakk> \<Longrightarrow>
    held (snd (run_checks hash (map (call_at par now) ks) rl)) = held rl + length ks"
proof (induction ks arbitrary: rl)
  case Nil
  then show ?case by simp
next
  case (Cons k ks)
  let ?rl = "snd (check hash (fst k) (snd k) (Fin (fst (par (fst k)))) (Fin (snd (par (fst k)))) now rl)"
  have "shard_get hash rl k = None" using Cons.prems(3) by simp
  note step = flood_step[OF par now Cons.prems(2) this]
  have "\<forall>k' \<in> set ks. shard_get hash ?rl k' = None"
    using step Cons.prems(1,3) by (metis distinct.simps(2) list.set_intros(2))
  then show ?case using Cons.IH[of ?rl] Cons.prems(1) step by (simp add: case_prod_unfold Let_def)
qed


section \<open>Properties\<close>

text \<open>C6. Sharding and sweeping are unobservable: whatever the hash function, over any sequence of
  calls in time order, the limiter takes on each (route, client) whose calls all have the
  same rate and capacity exactly the decisions of the reference limiter, which keeps one
  bucket per (route, client) for ever in a single map. The other keys may change their
  parameters as they like. (A key that changes them can tell, see
  \<open>swept_bucket_forgets_capacity\<close>.)\<close>

theorem limiter_refines_reference:
  assumes "in_time 0 cs" and "params_ok p" and "\<forall>c \<in> set cs. rc_key c = k \<longrightarrow> uses p c"
  shows "decisions k cs (fst (run_checks hash cs RateLimiter_new)) = decisions k cs (reference_checks cs Map.empty)"
  using assms(2,1,3) by (rule run_checks_decisions)

text \<open>C7. The rate bound: after any history \<open>pre\<close> in time order, in which the parameters of the
  route may have changed from call to call, of the calls one client makes on the route
  within a window from \<open>start\<close> to \<open>stop\<close>, all with the same rate and capacity (at most
  \<open>2^53\<close>, below which a token can be taken exactly), at most the capacity plus rate times
  the window's length are admitted, up to the rounding of binary64 (a relative \<open>(1 + 2^-53)^3\<close> on the window and \<open>call_slack\<close> per call).\<close>

theorem rate_limit_window:
  assumes "in_time 0 (pre @ cs)" and "params_ok p" and "snd p \<le> 2 ^ 53"
    and "\<forall>c \<in> set pre. rc_key c = k \<longrightarrow> (\<exists>q. params_ok q \<and> uses q c)"
    and "\<forall>c \<in> set cs. rc_key c = k \<longrightarrow> uses p c"
    and "\<forall>c \<in> set cs. start \<le> rc_now c \<and> rc_now c \<le> stop"
  shows "of_nat (admitted k cs (drop (length pre) (fst (run_checks hash (pre @ cs) RateLimiter_new))))
    \<le> snd p + span_tokens p (stop - start) + of_nat (calls_of k cs) * call_slack p"
proof -
  let ?s = "snd (store_checks (shard_get hash) (shard_put hash) pre RateLimiter_new)"
  have t: "in_time 0 pre" "in_time (last_time 0 pre) cs" using assms(1) by (simp_all add: in_time_append)
  have "bucket_wf (last_time 0 pre) b" if "shard_get hash ?s k = Some b" for b
    using shards.store_kept[OF _ shards_ok_new t(1) assms(4) that] by simp
  moreover have "shards_ok ?s" by (rule shards.store_ok) simp
  ultimately show ?thesis
    using shards.admitted_in_window[OF assms(2,3) _ _ t(2) assms(5), of hash ?s start stop] assms(6)
    by (simp add: run_checks_store store_checks_append)
qed

text \<open>The burst: of \<open>n\<close> simultaneous requests of a client not seen before, exactly the first
  \<open>capacity\<close> are admitted.\<close>

theorem burst_is_capacity:
  assumes "\<And>r. params_ok (par r)" and "snd (par (fst k)) = of_nat c" and "c \<le> 2 ^ 53" and "duration_ok now"
  shows "fst (run_checks hash (replicate n (call_at par now k)) RateLimiter_new) = map (\<lambda>i. i < c) [0..<n]"
  using assms by (rule burst_checks)

text \<open>C27. No starvation: a client that has not called a route for \<open>d\<close> nanoseconds, in which the
  rate of this call earns one token (the \<open>f64\<close> seconds of \<open>d\<close> times the rate round to one
  at least), is admitted, given that the capacity is at least one: whatever calls came before,
  of this client with any parameters and of others, in time order.\<close>

theorem idle_client_admitted:
  assumes "in_time 0 (pre @ [c])" and "params_ok p" and "uses p c"
    and "\<forall>c' \<in> set pre. rc_key c' = rc_key c \<longrightarrow> (\<exists>q. params_ok q \<and> uses q c') \<and> rc_now c' + d \<le> rc_now c"
    and "1 \<le> rnd (secs_of d * fst p)" and "1 \<le> snd p"
  shows "last (fst (run_checks hash (pre @ [c]) RateLimiter_new))"
proof -
  let ?s = "snd (store_checks (shard_get hash) (shard_put hash) pre RateLimiter_new)"
  have t: "in_time 0 pre" "last_time 0 pre \<le> rc_now c" "duration_ok (rc_now c)"
    using assms(1) by (simp_all add: in_time_append)
  have "bucket_wf (rc_now c) b \<and> bk_last b + d \<le> rc_now c" if "shard_get hash ?s (rc_key c) = Some b" for b
    using shards.store_kept[OF _ shards_ok_new t(1) _ that] bucket_wf_mono[OF _ t(2)] assms(4) by auto
  from idle_admitted[OF assms(2) this t(3) assms(5,6)] show ?thesis
    using assms(3) by (simp add: run_checks_store store_checks_append uses_def case_prod_unfold Let_def)
qed

text \<open>Why the parameters of the key have to stay: a full bucket is as good as a fresh one only for
  the capacity it is full at. Once the capacity is raised, the client whose full bucket was
  swept has two more calls, and the client whose bucket was kept has one.\<close>

theorem swept_bucket_forgets_capacity:
  "Bucket_is_full_at 0 (fresh_bucket (Fin 1) (Fin 1) 0) \<and>
   reference_checks (replicate 2 (call_at (\<lambda>_. (1, 2)) 0 k)) [k \<mapsto> fresh_bucket (Fin 1) (Fin 1) 0] = [True, False] \<and>
   reference_checks (replicate 2 (call_at (\<lambda>_. (1, 2)) 0 k)) Map.empty = [True, True]"
proof (intro conjI)
  let ?b = "fresh_bucket (Fin 1) (Fin 1) 0" and ?spent = "\<lparr>bk_tokens = Fin 0, bk_last = 0, bk_rate = Fin 1, bk_capacity = Fin 2\<rparr>"
  have p: "params_ok (1, 1)" "params_ok (1, 2)" using rnd_of_nat[of 1] rnd_of_nat[of 2] by (simp_all add: params_ok_def)
  have wf: "bucket_wf 0 ?b" "bucket_wf 0 ?spent"
    using bucket_okD(3)[OF bucket_ok_fresh[OF p(1), of 0]] by (simp_all add: bucket_wf_def)
  have lvl: "level_at (1, 2) 0 ?b = 1" "level_at (1, 2) 0 ?spent = 0"
    using rnd_of_nat[of 1] by (simp_all add: level_at_def tokens_of_def fresh_bucket_def binary64.refill_q_0)
  show "Bucket_is_full_at 0 ?b"
    using full_level[OF p(1) bucket_ok_fresh[OF p(1)], of 0 0] level_at_fresh[OF p(1), of 0] by simp
  have "bucket_check (Some ?b) (Fin 1) (Fin 2) 0 = (True, ?spent)" "fst (bucket_check (Some ?spent) (Fin 1) (Fin 2) 0) = False"
    using bucket_check_Some[OF p(2) wf(1), of 0] bucket_check_Some[OF p(2) wf(2), of 0] by (simp_all add: lvl take_q_def)
  then show "reference_checks (replicate 2 (call_at (\<lambda>_. (1, 2)) 0 k)) [k \<mapsto> ?b] = [True, False]"
    by (simp add: numeral_2_eq_2 case_prod_unfold Let_def)
  show "reference_checks (replicate 2 (call_at (\<lambda>_. (1, 2)) 0 k)) Map.empty = [True, True]"
    using burst_new[where p = "(1, 2)" and par = "\<lambda>_. (1, 2)" and k = k and n = 2 and now = 0] p(2)
    by (simp add: upt_rec numeral_2_eq_2)
qed

text \<open>Memory is not bounded under a flood of distinct clients: only full buckets are swept, so
  however many distinct keys call at one instant, the limiter holds a bucket for each.\<close>

theorem flood_is_kept:
  assumes "\<And>r. params_ok (par r)" and "\<And>r. 1 \<le> snd (par r) \<and> snd (par r) \<le> 2 ^ 53"
    and "duration_ok now" and "distinct ks"
  shows "held (snd (run_checks hash (map (call_at par now) ks) RateLimiter_new)) = length ks"
proof -
  have "flooded par now RateLimiter_new"
    using shards_ok_new by (simp add: flooded_def RateLimiter_new_def)
  then show ?thesis
    using flood_run[where rl = RateLimiter_new and hash = hash and par = par, OF assms(1-4)]
    by (simp add: held_new)
qed


section \<open>Witnesses\<close>

text \<open>Two tokens per second with a burst of three.\<close>

definition example_params :: "string \<Rightarrow> rat \<times> rat" where
  "example_params = (\<lambda>_. (2, 3))"

lemma example_params_ok: "params_ok (example_params r)"
  using rnd_of_nat[of 3] by (simp add: params_ok_def example_params_def)

abbreviation example_key :: rl_key where
  "example_key \<equiv> (''api'', V4 10 0 0 1)"

text \<open>The same client of another route, with a limit that has just been raised.\<close>

abbreviation raised_call :: rl_call where
  "raised_call \<equiv> call_at (\<lambda>_. (16, 1)) 600 (''raised'', V4 10 0 0 1)"

theorem limiter_refines_reference_witness:
  "decisions example_key (replicate 4 (call_at example_params 0 example_key) @ [raised_call])
     (fst (run_checks (\<lambda>_ _. 7) (replicate 4 (call_at example_params 0 example_key) @ [raised_call]) RateLimiter_new))
   = decisions example_key (replicate 4 (call_at example_params 0 example_key) @ [raised_call])
       (reference_checks (replicate 4 (call_at example_params 0 example_key) @ [raised_call]) Map.empty)"
proof (rule limiter_refines_reference[OF _ example_params_ok[of "''api''"]])
  show "in_time 0 (replicate 4 (call_at example_params 0 example_key) @ [raised_call])"
    unfolding in_time_append last_time_replicate by (intro conjI in_time_replicate) simp_all
qed (auto simp: uses_def)

theorem burst_is_capacity_witness:
  "fst (run_checks (\<lambda>_ _. 7) (replicate 4 (call_at example_params 0 example_key)) RateLimiter_new)
   = [True, True, True, False]"
proof -
  have "[0..<4::nat] = [0, 1, 2, 3]" by (simp add: upt_rec)
  then show ?thesis
    using burst_is_capacity[where par = example_params and k = example_key and c = 3 and n = 4 and now = 0
        and hash = "\<lambda>_ _. 7", OF example_params_ok]
    by (simp add: example_params_def)
qed

text \<open>Before the window the route had another limit.\<close>

theorem rate_limit_window_witness:
  "of_nat (admitted example_key (replicate 4 (call_at example_params 500 example_key))
     (drop (length [call_at (\<lambda>_. (16, 1)) 100 example_key])
       (fst (run_checks (\<lambda>_ _. 7)
         ([call_at (\<lambda>_. (16, 1)) 100 example_key] @ replicate 4 (call_at example_params 500 example_key)) RateLimiter_new))))
   \<le> 3 + span_tokens (2, 3) 100 + 4 * call_slack (2, 3)"
proof -
  have "in_time 0 ([call_at (\<lambda>_. (16, 1)) 100 example_key] @ replicate 4 (call_at example_params 500 example_key))"
    using in_time_replicate[of 500 100] by simp
  moreover have "params_ok (16, 1)" using rnd_of_nat[of 1] by (simp add: params_ok_def)
  ultimately show ?thesis
    using rate_limit_window[where k = example_key and start = 450 and stop = 550 and hash = "\<lambda>_ _. 7"
        and pre = "[call_at (\<lambda>_. (16, 1)) 100 example_key]" and cs = "replicate 4 (call_at example_params 500 example_key)",
        OF _ example_params_ok[of "''api''"]]
    by (auto simp: example_params_def uses_def calls_of_def)
qed

text \<open>A sixteenth of a second at sixteen requests per second.\<close>

lemma sixteenth: "secs_of 62500000 = 1 / 16"
proof -
  have "rnd (1 / 16) = 1 / 16" using rnd_exact[of "1 / 16" 1 "- 4"] by (simp add: power_int_def power_divide)
  then have "rnd (rnd (1 / 16)) = 1 / 16" by (simp only:)
  then show ?thesis by (simp add: secs_of_def)
qed

theorem idle_client_admitted_witness:
  "last (fst (run_checks (\<lambda>_ _. 7)
     (replicate 4 (call_at example_params 0 example_key) @ [call_at (\<lambda>_. (16, 1)) 62500000 example_key])
     RateLimiter_new))"
proof (rule idle_client_admitted[where p = "(16, 1)" and d = 62500000])
  show "in_time 0 (replicate 4 (call_at example_params 0 example_key) @ [call_at (\<lambda>_. (16, 1)) 62500000 example_key])"
    unfolding in_time_append last_time_replicate by (intro conjI in_time_replicate) simp_all
  show "params_ok (16, 1)" using rnd_of_nat[of 1] by (simp add: params_ok_def)
  show "1 \<le> rnd (secs_of 62500000 * fst (16, 1))" using rnd_of_nat[of 1] by (simp add: sixteenth)
qed (use example_params_ok[of "''api''"] in \<open>auto simp: uses_def example_params_def\<close>)

theorem flood_is_kept_witness:
  "held (snd (run_checks (\<lambda>_ _. 7)
     (map (call_at example_params 0) [(''api'', V4 10 0 0 1), (''api'', V4 10 0 0 2)]) RateLimiter_new)) = 2"
  using flood_is_kept[where par = example_params and now = 0 and hash = "\<lambda>_ _. 7"
      and ks = "[(''api'', V4 10 0 0 1), (''api'', V4 10 0 0 2)]", OF example_params_ok]
  by (simp add: example_params_def)

end
