(* ===== verification/Router.thy ===== *)
theory Router
  imports Validator Rate_Limit "HOL-Library.Product_Lexorder"
begin

text \<open>
  The per-listener routing table (\<open>gatepup-proxy/src/router.rs\<close>): compilation of the route
  configuration, host and path matching, the choice of the most specific route, the path
  rewrite of \<open>stripPrefix\<close>, header rewrites and IP access lists. A request URI enters
  through its \<open>path_and_query\<close>; header maps and networks are those of \<open>Http_Api\<close>.
\<close>

section \<open>Rate-limit parameters\<close>

record RateLimit =
  rlim_rate :: f64
  rlim_capacity :: f64

definition RateLimit_compile :: "RateLimitConfig \<Rightarrow> RateLimit" where
  "RateLimit_compile cfg =
     \<lparr>rlim_rate = rl_requests_per_second cfg,
      rlim_capacity =
        (if rl_burst cfg = 0 then f64_max (f64_ceil (rl_requests_per_second cfg)) (Fin 1)
         else f64_of_nat (unat (rl_burst cfg)))\<rparr>"


section \<open>IP access\<close>

record 'n IpAccess =
  acc_allow :: "'n list"
  acc_deny :: "'n list"

definition IpAccess_default :: "'n IpAccess" where
  "IpAccess_default = \<lparr>acc_allow = [], acc_deny = []\<rparr>"

definition IpAccess_compile :: "'n net_api \<Rightarrow> IpAccessConfig \<Rightarrow> 'n IpAccess" where
  "IpAccess_compile net cfg =
     \<lparr>acc_allow = List.map_filter (parse_trusted_proxy net) (ip_allow cfg),
      acc_deny = List.map_filter (parse_trusted_proxy net) (ip_deny cfg)\<rparr>"

definition IpAccess_allows :: "'n net_api \<Rightarrow> 'n IpAccess \<Rightarrow> ip_addr \<Rightarrow> bool" where
  "IpAccess_allows net acc ip =
     (if list_ex (\<lambda>n. net_contains net n ip) (acc_deny acc) then False
      else if acc_allow acc \<noteq> [] \<and> \<not> list_ex (\<lambda>n. net_contains net n ip) (acc_allow acc) then False
      else True)"


section \<open>Header rewrites\<close>

record HeaderOps =
  ops_set :: "(string \<times> string) list"
  ops_remove :: "string list"

definition HeaderOps_default :: HeaderOps where
  "HeaderOps_default = \<lparr>ops_set = [], ops_remove = []\<rparr>"

definition HeaderOps_compile :: "'h header_api \<Rightarrow> HeaderOpsConfig \<Rightarrow> HeaderOps" where
  "HeaderOps_compile api cfg =
     \<lparr>ops_set = List.map_filter (\<lambda>(n, v).
         Option.bind (header_name api n) (\<lambda>n'.
         Option.bind (header_value api v) (\<lambda>v'. Some (n', v')))) (ho_set cfg),
      ops_remove = List.map_filter (header_name api) (ho_remove cfg)\<rparr>"

definition HeaderOps_apply :: "'h header_api \<Rightarrow> HeaderOps \<Rightarrow> 'h \<Rightarrow> 'h" where
  "HeaderOps_apply api ops headers =
     (let removed = foldl (hm_remove api) headers (ops_remove ops)
      in foldl (\<lambda>h (n, v). hm_insert api h n v) removed (ops_set ops))"


section \<open>Hosts\<close>

datatype HostMatch = Any | Exact string | Wildcard string

definition HostMatch_compile :: "string option \<Rightarrow> HostMatch" where
  "HostMatch_compile host =
     (case host of
        None \<Rightarrow> Any
      | Some h \<Rightarrow>
          if h = [] then Any
          else if prefix ''*.'' h then Wildcard (drop 1 h)
          else Exact h)"

fun HostMatch_matches :: "HostMatch \<Rightarrow> string \<Rightarrow> bool" where
  "HostMatch_matches Any host = True"
| "HostMatch_matches (Exact h) host = (h = host)"
| "HostMatch_matches (Wildcard s) host = (length s < length host \<and> suffix s host)"

fun HostMatch_rank :: "HostMatch \<Rightarrow> nat" where
  "HostMatch_rank (Exact _) = 2"
| "HostMatch_rank (Wildcard _) = 1"
| "HostMatch_rank Any = 0"


section \<open>Routes\<close>

record 'n CompiledRoute =
  cr_name :: string
  cr_upstream :: string
  cr_host :: "string option"
  cr_host_match :: HostMatch
  cr_path_prefix :: string
  cr_strip_prefix :: bool
  cr_request_headers :: HeaderOps
  cr_response_headers :: HeaderOps
  cr_ip_access :: "'n IpAccess"
  cr_rate_limit :: "RateLimit option"
  cr_basic_auth :: "(string \<rightharpoonup> string) option"

record RouteSummary =
  rs_name :: string
  rs_host :: "string option"
  rs_path_prefix :: string
  rs_upstream :: string

definition route_matches :: "'n CompiledRoute \<Rightarrow> string \<Rightarrow> string \<Rightarrow> bool" where
  "route_matches r host path = (HostMatch_matches (cr_host_match r) host \<and> prefix (cr_path_prefix r) path)"

definition specificity :: "'n CompiledRoute \<Rightarrow> nat \<times> nat" where
  "specificity r = (HostMatch_rank (cr_host_match r), length (cr_path_prefix r))"

definition rewritten_path_and_query :: "'n CompiledRoute \<Rightarrow> string option \<Rightarrow> string" where
  "rewritten_path_and_query r uri_pq =
     (let original = (case uri_pq of Some p \<Rightarrow> p | None \<Rightarrow> ''/'')
      in if \<not> cr_strip_prefix r then original
         else
           let (path, query) =
                 (case split_once (CHR ''?'') original of
                    Some (p, q) \<Rightarrow> (p, Some q)
                  | None \<Rightarrow> (original, None));
               stripped = (case strip_prefix (cr_path_prefix r) path of Some s \<Rightarrow> s | None \<Rightarrow> path);
               new_path =
                 (if stripped = [] then ''/''
                  else if prefix ''/'' stripped then stripped
                  else ''/'' @ stripped)
           in case query of Some q \<Rightarrow> new_path @ ''?'' @ q | None \<Rightarrow> new_path)"

definition CompiledRoute_of :: "'h header_api \<Rightarrow> 'n net_api \<Rightarrow> RouteConfig \<Rightarrow> 'n CompiledRoute" where
  "CompiledRoute_of api net r =
     (let host = (case mt_host (rt_matcher r) of Some h \<Rightarrow> if h \<noteq> [] then Some h else None | None \<Rightarrow> None)
      in \<lparr>cr_name = rt_name r,
          cr_upstream = rt_upstream r,
          cr_host = host,
          cr_host_match = HostMatch_compile host,
          cr_path_prefix =
            (case mt_path_prefix (rt_matcher r) of Some p \<Rightarrow> if p \<noteq> [] then p else ''/'' | None \<Rightarrow> ''/''),
          cr_strip_prefix = rt_strip_prefix r,
          cr_request_headers =
            (case rt_headers r of Some h \<Rightarrow> HeaderOps_compile api (hr_request h) | None \<Rightarrow> HeaderOps_default),
          cr_response_headers =
            (case rt_headers r of Some h \<Rightarrow> HeaderOps_compile api (hr_response h) | None \<Rightarrow> HeaderOps_default),
          cr_ip_access =
            (case rt_ip_access r of Some a \<Rightarrow> IpAccess_compile net a | None \<Rightarrow> IpAccess_default),
          cr_rate_limit = map_option RateLimit_compile (rt_rate_limit r),
          cr_basic_auth = map_option (\<lambda>b. map_of (ba_users b)) (rt_basic_auth r)\<rparr>)"

type_synonym 'n Router = "'n CompiledRoute list"

definition Router_build :: "'h header_api \<Rightarrow> 'n net_api \<Rightarrow> RouteConfig list \<Rightarrow> 'n Router" where
  "Router_build api net routes = map (CompiledRoute_of api net) routes"

definition match_route :: "'n Router \<Rightarrow> string \<Rightarrow> string \<Rightarrow> 'n CompiledRoute option" where
  "match_route router host path =
     max_by_key specificity (filter (\<lambda>r. route_matches r host path) router)"

definition summaries :: "'n Router \<Rightarrow> RouteSummary list" where
  "summaries router =
     map (\<lambda>r. \<lparr>rs_name = cr_name r, rs_host = cr_host r, rs_path_prefix = cr_path_prefix r,
               rs_upstream = cr_upstream r\<rparr>) router"


section \<open>Matching\<close>

lemma match_route_None_iff:
  "match_route router host path = None \<longleftrightarrow> (\<forall>r \<in> set router. \<not> route_matches r host path)"
  by (simp add: match_route_def filter_empty_conv)

lemma match_route_Some:
  assumes "match_route router host path = Some r"
  shows "r \<in> set router" "route_matches r host path"
    and "r' \<in> set router \<Longrightarrow> route_matches r' host path \<Longrightarrow> specificity r' \<le> specificity r"
proof -
  have "r \<in> set (filter (\<lambda>r. route_matches r host path) router)"
    using assms unfolding match_route_def by (rule max_by_key_mem)
  then show "r \<in> set router" "route_matches r host path" by simp_all
  show "r' \<in> set router \<Longrightarrow> route_matches r' host path \<Longrightarrow> specificity r' \<le> specificity r"
    using assms max_by_key_ge[of specificity "filter (\<lambda>r. route_matches r host path) router" r r']
    by (simp add: match_route_def)
qed

text \<open>A route that beats every other matching route strictly is the one chosen.\<close>

lemma match_route_unique:
  assumes "r \<in> set router" "route_matches r host path"
    and "\<And>r'. r' \<in> set router \<Longrightarrow> route_matches r' host path \<Longrightarrow> r' \<noteq> r \<Longrightarrow> specificity r' < specificity r"
  shows "match_route router host path = Some r"
proof (cases "match_route router host path")
  case None
  then show ?thesis using assms(1,2) by (simp add: match_route_None_iff)
next
  case (Some s)
  note s = match_route_Some[OF Some]
  have "s = r" using s(3)[OF assms(1,2)] assms(3)[OF s(1,2)] by (meson not_less)
  then show ?thesis using Some by simp
qed

text \<open>Two prefixes of one path of equal length are equal.\<close>

lemma prefix_same_length: "prefix p s \<Longrightarrow> prefix q s \<Longrightarrow> length p = length q \<Longrightarrow> p = q"
  by (metis prefix_length_le prefix_length_prefix prefix_order.antisym order_refl)

lemma specificity_eqD:
  assumes "specificity r = specificity s" "route_matches r host path" "route_matches s host path"
  shows "cr_path_prefix r = cr_path_prefix s"
    and "HostMatch_rank (cr_host_match r) = HostMatch_rank (cr_host_match s)"
    and "cr_host_match r = Exact h \<Longrightarrow> cr_host_match s = Exact h"
    and "cr_host_match r = Any \<Longrightarrow> cr_host_match s = Any"
    and "cr_host_match r = Wildcard w \<Longrightarrow> \<exists>w'. cr_host_match s = Wildcard w'"
  using assms prefix_same_length[of "cr_path_prefix r" path "cr_path_prefix s"]
  by (cases "cr_host_match r"; cases "cr_host_match s"; auto simp: specificity_def route_matches_def)+

lemma CompiledRoute_of_match [simp]:
  "cr_host_match (CompiledRoute_of api net r) = HostMatch_compile (mt_host (rt_matcher r))"
  "cr_path_prefix (CompiledRoute_of api net r) = effective_prefix r"
  by (simp_all add: CompiledRoute_of_def Let_def effective_prefix_def HostMatch_compile_def
      split: option.splits)

lemma HostMatch_compile_inj:
  "HostMatch_compile a = HostMatch_compile b \<Longrightarrow> a \<noteq> Some [] \<Longrightarrow> b \<noteq> Some [] \<Longrightarrow> a = b"
  by (auto simp: HostMatch_compile_def prefix_def split: option.splits if_splits)

text \<open>A request host that falls under a wildcard route.\<close>

definition under_wildcard :: "string \<Rightarrow> RouteConfig \<Rightarrow> bool" where
  "under_wildcard host r =
     (case HostMatch_compile (mt_host (rt_matcher r)) of
        Wildcard w \<Rightarrow> HostMatch_matches (Wildcard w) host
      | _ \<Rightarrow> False)"

lemma same_specificity_same_route:
  assumes keys: "distinct (map route_key rs)" and hosts: "\<forall>r \<in> set rs. mt_host (rt_matcher r) \<noteq> Some []"
    and wild: "\<forall>r \<in> set rs. \<forall>s \<in> set rs. under_wildcard host r \<longrightarrow> under_wildcard host s \<longrightarrow>
        mt_host (rt_matcher r) = mt_host (rt_matcher s)"
    and r: "r \<in> set rs" and s: "s \<in> set rs"
    and mr: "route_matches (CompiledRoute_of api net r) host path"
    and ms: "route_matches (CompiledRoute_of api net s) host path"
    and eq: "specificity (CompiledRoute_of api net r) = specificity (CompiledRoute_of api net s)"
  shows "r = s"
proof -
  note d = specificity_eqD[OF eq mr ms, simplified]
  have "mt_host (rt_matcher r) = mt_host (rt_matcher s)"
  proof (cases "HostMatch_compile (mt_host (rt_matcher r))")
    case (Wildcard w)
    then obtain w' where w': "HostMatch_compile (mt_host (rt_matcher s)) = Wildcard w'" using d(5) by blast
    have "under_wildcard host r" "under_wildcard host s"
      using mr ms Wildcard w' by (simp_all add: route_matches_def under_wildcard_def)
    then show ?thesis using wild r s by blast
  qed (use d hosts r s HostMatch_compile_inj in metis)+
  then have "route_key r = route_key s" using d(1) by (simp add: route_key_def)
  then show ?thesis using keys r s by (meson distinct_map inj_onD)
qed

lemma match_route_ties_free:
  assumes "set router = set router'"
    and "\<And>r s. r \<in> set router \<Longrightarrow> s \<in> set router \<Longrightarrow> route_matches r host path \<Longrightarrow>
        route_matches s host path \<Longrightarrow> specificity r = specificity s \<Longrightarrow> r = s"
  shows "match_route router' host path = match_route router host path"
proof (cases "match_route router host path")
  case None
  then have "match_route router' host path = None" using assms(1) by (simp add: match_route_None_iff)
  with None show ?thesis by simp
next
  case (Some r)
  note r = match_route_Some[OF Some]
  have "match_route router' host path = Some r"
  proof (rule match_route_unique)
    show "r \<in> set router'" using r(1) assms(1) by simp
    fix s
    assume "s \<in> set router'" "route_matches s host path" "s \<noteq> r"
    then show "specificity s < specificity r"
      using r assms(2)[of s r] assms(1) by (auto simp: order.strict_iff_order)
  qed (rule r(2))
  with Some show ?thesis by simp
qed


section \<open>Path rewriting\<close>

definition slashed :: "string \<Rightarrow> string" where
  "slashed s = (if prefix ''/'' s then s else ''/'' @ s)"

lemma split_once_absent: "c \<notin> set s \<Longrightarrow> split_once c s = None"
  by (simp add: split_once_None_iff)

lemma split_once_at: "c \<notin> set s \<Longrightarrow> split_once c (s @ c # t) = Some (s, t)"
  by (simp add: split_once_Some_iff)

lemma slashed_simps: "slashed [] = ''/''" "s \<noteq> [] \<Longrightarrow> \<not> prefix ''/'' s \<Longrightarrow> slashed s = ''/'' @ s"
  "prefix ''/'' s \<Longrightarrow> slashed s = s"
  by (simp_all add: slashed_def)

lemma rewritten_stripped:
  assumes "cr_strip_prefix r" "CHR ''?'' \<notin> set (cr_path_prefix r @ rest)"
    and "q = [] \<or> (\<exists>q'. q = CHR ''?'' # q')"
  shows "rewritten_path_and_query r (Some (cr_path_prefix r @ rest @ q)) = slashed rest @ q"
proof (cases q)
  case Nil
  then show ?thesis
    using assms(1,2) by (simp add: rewritten_path_and_query_def split_once_absent slashed_def)
next
  case (Cons c q')
  then have "cr_path_prefix r @ rest @ q = (cr_path_prefix r @ rest) @ CHR ''?'' # q'"
    using assms(3) by simp
  then have "split_once (CHR ''?'') (cr_path_prefix r @ rest @ q) = Some (cr_path_prefix r @ rest, q')"
    using split_once_at[OF assms(2)] by simp
  then show ?thesis
    using assms(1,3) Cons by (auto simp: rewritten_path_and_query_def slashed_def)
qed


section \<open>Header rewrites\<close>

lemma tchar_iff: "tchar c \<longleftrightarrow> is_ascii_alphanumeric c \<or> c \<in> set token_punctuation"
  by (auto simp: tchar_def is_ascii_alphanumeric_def token_punctuation_def Let_def of_char_nat_iff)

lemma is_valid_header_name_tchar: "is_valid_header_name n \<longleftrightarrow> n \<noteq> [] \<and> (\<forall>c \<in> set n. tchar c)"
  by (simp add: is_valid_header_name_def tchar_iff list_all_iff)

context header_map
begin

text \<open>Removal first, then the sets in order: the last \<open>set\<close> of a name decides.\<close>

lemma HeaderOps_apply_get_all:
  "hm_get_all api (HeaderOps_apply api ops h) n =
     (case map_of (rev (ops_set ops)) n of
        Some v \<Rightarrow> [v]
      | None \<Rightarrow> if n \<in> set (ops_remove ops) then [] else hm_get_all api h n)"
  by (simp add: HeaderOps_apply_def get_all_insert_fold get_all_remove_fold split: option.splits)

lemma HeaderOps_compile_set:
  assumes "header_ops_wf cfg"
  shows "ops_set (HeaderOps_compile api cfg) = map (\<lambda>(n, v). (to_ascii_lowercase n, v)) (ho_set cfg)"
    and "ops_remove (HeaderOps_compile api cfg) = map to_ascii_lowercase (ho_remove cfg)"
proof -
  have name: "header_name api n = Some (to_ascii_lowercase n)" if "is_valid_header_name n" for n
    using that header_name_token[of n] header_name_lower[of n]
    by (auto simp: is_valid_header_name_tchar)
  have "\<forall>c \<in> set v. text_byte c" if "is_valid_header_value v" for v
  proof
    fix c
    assume "c \<in> set v"
    then have c: "of_char c = (9::nat) \<or> (32 \<le> (of_char c :: nat) \<and> (of_char c :: nat) \<le> 126)"
      using that by (auto simp: is_valid_header_value_def list_all_iff)
    have "of_char c = (9::nat) \<Longrightarrow> c = char_of (9::nat)" by (metis char_of_char)
    then show "text_byte c" using c by (auto simp: text_byte_def)
  qed
  then have val: "header_value api v = Some v" if "is_valid_header_value v" for v
    using that header_value_text by blast
  show "ops_set (HeaderOps_compile api cfg) = map (\<lambda>(n, v). (to_ascii_lowercase n, v)) (ho_set cfg)"
    unfolding HeaderOps_compile_def HeaderOps.simps using assms(1)
    by (intro map_filter_total) (auto simp: header_ops_wf_def name val)
  show "ops_remove (HeaderOps_compile api cfg) = map to_ascii_lowercase (ho_remove cfg)"
    unfolding HeaderOps_compile_def HeaderOps.simps using assms(1)
    by (intro map_filter_total) (auto simp: header_ops_wf_def name)
qed

end


section \<open>Rate limits\<close>

text \<open>The finite values a binary64 can hold.\<close>

definition f64_wf :: "f64 \<Rightarrow> bool" where
  "f64_wf x = (case x of Fin q \<Rightarrow> rnd q = q \<and> \<bar>q\<bar> < 2 ^ 1024 | _ \<Rightarrow> True)"

lemma rnd_ceiling:
  assumes "rnd q = q" "0 < q" "q < 2 ^ 1024"
  shows "rnd (of_int \<lceil>q\<rceil>) = of_int \<lceil>q\<rceil>" "(of_int \<lceil>q\<rceil> :: rat) < 2 ^ 1024"
proof -
  obtain m e where q: "q = of_int m * 2 powi e" and m: "0 \<le> m" "m \<le> 2 ^ 53"
    using rnd_shape[of q] assms(1,2) by (metis less_imp_le)
  have "rnd (of_int \<lceil>q\<rceil>) = of_int \<lceil>q\<rceil> \<and> (of_int \<lceil>q\<rceil> :: rat) < 2 ^ 1024"
  proof (cases "0 \<le> e")
    case True
    then have "q = of_int (m * 2 ^ nat e)" by (simp add: q power_int_def)
    then have "of_int \<lceil>q\<rceil> = q" by (metis ceiling_of_int)
    then show ?thesis using assms(1,3) by (simp only: simp_thms)
  next
    case False
    have "q \<le> of_int m * 1"
      unfolding q using m False power_int_increasing[of e 0 "2::rat"]
      by (intro mult_left_mono) simp_all
    then have "\<lceil>q\<rceil> \<le> m" by (simp add: ceiling_le_iff)
    then have "\<lceil>q\<rceil> \<le> 2 ^ 53" using m(2) by linarith
    moreover have "0 \<le> \<lceil>q\<rceil>" using assms(2) by simp
    ultimately have n: "\<lceil>q\<rceil> = int (nat \<lceil>q\<rceil>)" "nat \<lceil>q\<rceil> \<le> 2 ^ 53" by (simp_all add: nat_le_iff)
    then have r: "rnd (of_nat (nat \<lceil>q\<rceil>)) = of_nat (nat \<lceil>q\<rceil>)" by (intro rnd_of_nat)
    have "(of_nat (nat \<lceil>q\<rceil>) :: rat) \<le> 2 ^ 53"
      using n(2) by (metis of_nat_le_iff of_nat_numeral of_nat_power)
    moreover have "(2::rat) ^ 53 < 2 ^ 1024" by (rule power_strict_increasing) simp_all
    ultimately show ?thesis using r n(1) by (metis of_int_of_nat_eq order_le_less_trans)
  qed
  then show "rnd (of_int \<lceil>q\<rceil>) = of_int \<lceil>q\<rceil>" "(of_int \<lceil>q\<rceil> :: rat) < 2 ^ 1024" by simp_all
qed

lemma f64_max_ge: "y \<le> x \<Longrightarrow> f64_max (Fin x) (Fin y) = Fin x"
  by (auto simp: f64_max_def)

lemma RateLimit_compile_params:
  assumes "rl_requests_per_second cfg = Fin q" "0 < q" "f64_wf (Fin q)"
  obtains c where "RateLimit_compile cfg = \<lparr>rlim_rate = Fin q, rlim_capacity = Fin c\<rparr>"
    "params_ok (q, c)" "1 \<le> c"
proof (cases "rl_burst cfg = 0")
  case True
  have q: "rnd q = q" "q < 2 ^ 1024" using assms by (simp_all add: f64_wf_def)
  note ceil = rnd_ceiling[OF q(1) assms(2) q(2)]
  have "1 \<le> \<lceil>q\<rceil>" using assms(2) by linarith
  then have ge: "(1::rat) \<le> of_int \<lceil>q\<rceil>" by simp
  then have "RateLimit_compile cfg = \<lparr>rlim_rate = Fin q, rlim_capacity = Fin (of_int \<lceil>q\<rceil>)\<rparr>"
    using True assms(1) f64_max_ge[OF ge] by (simp add: RateLimit_compile_def f64_ceil_def)
  then show ?thesis using that ceil ge assms(2) by (simp add: params_ok_def)
next
  case False
  define n where "n = unat (rl_burst cfg)"
  have "n < 2 ^ 32" using unsigned_less[of "rl_burst cfg"] by (simp add: n_def)
  then have n: "n \<le> 2 ^ 53" by simp
  then have r: "rnd (of_nat n) = of_nat n" by (rule rnd_of_nat)
  have "(of_nat n :: rat) \<le> 2 ^ 53" using n by (metis of_nat_le_iff of_nat_numeral of_nat_power)
  moreover have "(2::rat) ^ 53 < 2 ^ 1024" by (rule power_strict_increasing) simp_all
  ultimately have lt: "(of_nat n :: rat) < 2 ^ 1024" by linarith
  have "1 \<le> n" using False by (simp add: unat_gt_0 Suc_le_eq n_def)
  then have ge: "1 \<le> (of_nat n :: rat)" by (metis of_nat_1 of_nat_le_iff)
  have "RateLimit_compile cfg = \<lparr>rlim_rate = Fin q, rlim_capacity = Fin (of_nat n)\<rparr>"
    using False assms(1) lt r by (simp add: RateLimit_compile_def n_def[symmetric] f64_of_nat_def round_f64_nonneg)
  then show ?thesis using that r lt ge assms(2) by (simp add: params_ok_def)
qed


section \<open>Properties\<close>

text \<open>C9. \<open>match_route\<close> returns the most specific of the matching routes, the last of them in
  configuration order when several are equally specific, and none exactly when none
  matches.\<close>

theorem match_route_most_specific:
  "case match_route router host path of
     None \<Rightarrow> (\<forall>r \<in> set router. \<not> route_matches r host path)
   | Some r \<Rightarrow> route_matches r host path \<and>
       (\<exists>us vs. router = us @ r # vs \<and>
          (\<forall>u \<in> set us. route_matches u host path \<longrightarrow> specificity u \<le> specificity r) \<and>
          (\<forall>v \<in> set vs. route_matches v host path \<longrightarrow> specificity v < specificity r))"
proof (cases "match_route router host path")
  case None
  then show ?thesis using match_route_None_iff[of router host path] by simp
next
  case (Some r)
  let ?P = "\<lambda>r. route_matches r host path"
  obtain us vs where split: "filter ?P router = us @ r # vs"
    "\<forall>u \<in> set us. specificity u \<le> specificity r" "\<forall>v \<in> set vs. specificity v < specificity r"
    using max_by_key_last[of specificity _ r] Some unfolding match_route_def by blast
  obtain us' vs' where "router = us' @ r # vs'" "us = filter ?P us'" "vs = filter ?P vs'"
    using filter_split[OF split(1)] by blast
  then show ?thesis using Some split(2,3) match_route_Some(2)[OF Some]
    by (simp only: option.case) (rule conjI, simp, rule exI[of _ us'], rule exI[of _ vs'], simp)
qed

text \<open>C24. Routing does not depend on the order of the routes in the configuration, as long as no
  host is the empty string and no two different wildcard hosts cover the request's
  host: the uniqueness of (host, path prefix) that validation enforces rules out every
  other tie.\<close>

theorem routing_order_independent:
  assumes "distinct (map route_key rs)" and "\<forall>r \<in> set rs. mt_host (rt_matcher r) \<noteq> Some []"
    and "\<forall>r \<in> set rs. \<forall>s \<in> set rs. under_wildcard host r \<longrightarrow> under_wildcard host s \<longrightarrow>
        mt_host (rt_matcher r) = mt_host (rt_matcher s)"
    and "set rs' = set rs"
  shows "match_route (Router_build api net rs') host path = match_route (Router_build api net rs) host path"
proof (rule match_route_ties_free)
  show "set (Router_build api net rs) = set (Router_build api net rs')"
    using assms(4) by (simp add: Router_build_def)
  fix r s
  assume "r \<in> set (Router_build api net rs)" "s \<in> set (Router_build api net rs)"
  then obtain a b where "r = CompiledRoute_of api net a" "a \<in> set rs" "s = CompiledRoute_of api net b" "b \<in> set rs"
    by (auto simp: Router_build_def)
  moreover assume "route_matches r host path" "route_matches s host path" "specificity r = specificity s"
  ultimately show "r = s" using same_specificity_same_route[OF assms(1-3), of a b] by blast
qed

text \<open>With \<open>stripPrefix\<close>, a path under the route's prefix is forwarded as the rest of it with
  a leading slash, and the query is kept as it is.\<close>

theorem strip_prefix_rewrite:
  assumes "cr_strip_prefix r" and "CHR ''?'' \<notin> set (cr_path_prefix r @ rest)"
    and "q = [] \<or> (\<exists>q'. q = CHR ''?'' # q')"
  shows "rewritten_path_and_query r (Some (cr_path_prefix r @ rest @ q)) = slashed rest @ q"
  using assms by (rule rewritten_stripped)

text \<open>The header rewrite of a validated rule set: a name that is \<open>set\<close> ends up with exactly
  that value, one that is only removed is gone, and every other header is unchanged,
  names being compared in lower case.\<close>

theorem header_rules_apply:
  assumes "header_map api" and "header_ops_wf cfg"
  shows "hm_get_all api (HeaderOps_apply api (HeaderOps_compile api cfg) h) n =
    (case map_of (rev (map (\<lambda>(n, v). (to_ascii_lowercase n, v)) (ho_set cfg))) n of
       Some v \<Rightarrow> [v]
     | None \<Rightarrow> if n \<in> to_ascii_lowercase ` set (ho_remove cfg) then [] else hm_get_all api h n)"
  using header_map.HeaderOps_apply_get_all[OF assms(1), of "HeaderOps_compile api cfg"]
    header_map.HeaderOps_compile_set[OF assms]
  by simp

text \<open>C28. IP access on a validated list fails closed: an address in a denied network is refused
  whatever the allow list says, and with a non-empty allow list only addresses in an
  allowed network pass.\<close>

theorem ip_access_fails_closed:
  assumes "nets_wf net (ip_allow cfg)"
  shows "IpAccess_allows net (IpAccess_compile net cfg) ip \<longleftrightarrow>
    (\<forall>e \<in> set (ip_deny cfg). \<forall>n. parse_trusted_proxy net e = Some n \<longrightarrow> \<not> net_contains net n ip) \<and>
    (ip_allow cfg = [] \<or>
      (\<exists>e \<in> set (ip_allow cfg). \<exists>n. parse_trusted_proxy net e = Some n \<and> net_contains net n ip))"
proof -
  have "List.map_filter (parse_trusted_proxy net) (ip_allow cfg) = [] \<longleftrightarrow> ip_allow cfg = []"
    using assms by (cases "ip_allow cfg") (auto simp: nets_wf_def List.map_filter_def)
  then show ?thesis
    by (simp add: IpAccess_allows_def IpAccess_compile_def list_ex_iff set_map_filter_iff Bex_def
        del: parse_trusted_proxy.simps) blast
qed


section \<open>Ties\<close>

definition example_route :: "string \<Rightarrow> string option \<Rightarrow> string option \<Rightarrow> RouteConfig" where
  "example_route name host pp =
     \<lparr>rt_name = name, rt_matcher = \<lparr>mt_host = host, mt_path_prefix = pp\<rparr>, rt_upstream = ''up'',
      rt_strip_prefix = True, rt_headers = None, rt_ip_access = None, rt_rate_limit = None,
      rt_basic_auth = None\<rparr>"

definition outer_wildcard :: RouteConfig where
  "outer_wildcard = example_route ''outer'' (Some ''*.example.com'') None"

definition inner_wildcard :: RouteConfig where
  "inner_wildcard = example_route ''inner'' (Some ''*.eu.example.com'') None"

text \<open>Nested wildcard hosts tie: both are valid together, and for a host under both the
  route listed last wins, even when it is the broader one.\<close>

theorem nested_wildcards_follow_order:
  "map_option cr_name (match_route (Router_build list_headers prefix_nets [outer_wildcard, inner_wildcard])
      ''a.eu.example.com'' ''/'') = Some ''inner'' \<and>
   map_option cr_name (match_route (Router_build list_headers prefix_nets [inner_wildcard, outer_wildcard])
      ''a.eu.example.com'' ''/'') = Some ''outer'' \<and>
   check_routes prefix_nets {''up''} ''l'' {} Map.empty [outer_wildcard, inner_wildcard] = []"
  by code_simp

text \<open>An absent host and an empty host route alike but count as different matches in
  validation: two such routes with one path prefix are accepted, and the second one
  shadows the first for every request.\<close>

theorem empty_host_conflict_accepted:
  "check_routes prefix_nets {''up''} ''l'' {} Map.empty
     [example_route ''a'' None (Some ''/api''), example_route ''b'' (Some '''') (Some ''/api'')] = [] \<and>
   map_option cr_name (match_route (Router_build list_headers prefix_nets
     [example_route ''a'' None (Some ''/api''), example_route ''b'' (Some '''') (Some ''/api'')]) host (''/api'' @ rest))
     = Some ''b''"
proof
  show "check_routes prefix_nets {''up''} ''l'' {} Map.empty
     [example_route ''a'' None (Some ''/api''), example_route ''b'' (Some '''') (Some ''/api'')] = []"
    by code_simp
  show "map_option cr_name (match_route (Router_build list_headers prefix_nets
     [example_route ''a'' None (Some ''/api''), example_route ''b'' (Some '''') (Some ''/api'')]) host (''/api'' @ rest))
     = Some ''b''"
    by (simp add: match_route_def Router_build_def route_matches_def specificity_def HostMatch_compile_def
        effective_prefix_def example_route_def CompiledRoute_of_def Let_def)
qed


section \<open>Witnesses\<close>

definition example_router :: "(ip_addr \<times> nat) Router" where
  "example_router = Router_build list_headers prefix_nets
     [example_route ''all'' None (Some ''/''), example_route ''api'' (Some ''a.com'') (Some ''/api'')]"

theorem match_route_most_specific_witness:
  "map_option cr_name (match_route example_router ''a.com'' ''/api/x'') = Some ''api'' \<and>
   (\<exists>r. match_route example_router ''a.com'' ''/api/x'' = Some r \<and> route_matches r ''a.com'' ''/api/x'')"
proof -
  have "map_option cr_name (match_route example_router ''a.com'' ''/api/x'') = Some ''api''" by code_simp
  then show ?thesis
    using match_route_most_specific[of example_router "''a.com''" "''/api/x''"]
    by (auto split: option.splits)
qed

theorem routing_order_independent_witness:
  "match_route (Router_build list_headers prefix_nets
     [example_route ''api'' (Some ''a.com'') (Some ''/api''), outer_wildcard]) ''b.example.com'' ''/x''
   = match_route (Router_build list_headers prefix_nets
     [outer_wildcard, example_route ''api'' (Some ''a.com'') (Some ''/api'')]) ''b.example.com'' ''/x''"
proof (rule routing_order_independent)
  show "distinct (map route_key [outer_wildcard, example_route ''api'' (Some ''a.com'') (Some ''/api'')])"
    by code_simp
  show "\<forall>r \<in> set [outer_wildcard, example_route ''api'' (Some ''a.com'') (Some ''/api'')].
      mt_host (rt_matcher r) \<noteq> Some []" by code_simp
  show "\<forall>r \<in> set [outer_wildcard, example_route ''api'' (Some ''a.com'') (Some ''/api'')].
      \<forall>s \<in> set [outer_wildcard, example_route ''api'' (Some ''a.com'') (Some ''/api'')].
        under_wildcard ''b.example.com'' r \<longrightarrow> under_wildcard ''b.example.com'' s \<longrightarrow>
        mt_host (rt_matcher r) = mt_host (rt_matcher s)" by code_simp
qed auto

theorem strip_prefix_rewrite_witness:
  "rewritten_path_and_query (CompiledRoute_of list_headers prefix_nets (example_route ''api'' None (Some ''/api'')))
     (Some ''/api/v1?x=1'') = ''/v1?x=1''"
  using strip_prefix_rewrite[of "CompiledRoute_of list_headers prefix_nets (example_route ''api'' None (Some ''/api''))"
      "''/v1''" "''?x=1''"]
  by (simp add: CompiledRoute_of_def Let_def example_route_def slashed_def)

definition example_ops :: HeaderOpsConfig where
  "example_ops = \<lparr>ho_set = [(''X-Env'', ''prod'')], ho_remove = [''X-Env'', ''Server'']\<rparr>"

theorem header_rules_apply_witness:
  "hm_get_all list_headers (HeaderOps_apply list_headers (HeaderOps_compile list_headers example_ops)
     [(''server'', ''x''), (''x-env'', ''dev'')]) ''x-env'' = [''prod'']"
proof -
  have wf: "header_ops_wf example_ops" by code_simp
  have "to_ascii_lowercase ''X-Env'' = ''x-env''" by code_simp
  then show ?thesis
    unfolding header_rules_apply[OF list_headers.header_map_axioms wf] by (simp add: example_ops_def)
qed

definition example_access :: IpAccessConfig where
  "example_access = \<lparr>ip_allow = [''10.0.0.0/8''], ip_deny = [''10.0.0.5'']\<rparr>"

theorem ip_access_fails_closed_witness:
  "IpAccess_allows prefix_nets (IpAccess_compile prefix_nets example_access) (V4 10 0 0 1) \<and>
   \<not> IpAccess_allows prefix_nets (IpAccess_compile prefix_nets example_access) (V4 10 0 0 5)"
proof -
  have wf: "nets_wf prefix_nets (ip_allow example_access)" by code_simp
  have p: "parse_trusted_proxy prefix_nets ''10.0.0.0/8'' = Some (V4 10 0 0 0, 8)"
    "parse_trusted_proxy prefix_nets ''10.0.0.5'' = Some (V4 10 0 0 5, 32)" by code_simp+
  have c: "net_contains prefix_nets (V4 10 0 0 0, 8) (V4 10 0 0 1)"
    "\<not> net_contains prefix_nets (V4 10 0 0 5, 32) (V4 10 0 0 1)"
    "net_contains prefix_nets (V4 10 0 0 5, 32) (V4 10 0 0 5)"
    by (simp_all add: prefix_nets_def prefix_contains_def)
  have e: "ip_allow example_access = [''10.0.0.0/8'']" "ip_deny example_access = [''10.0.0.5'']"
    by (simp_all add: example_access_def)
  show ?thesis
    unfolding ip_access_fails_closed[OF wf] e using p c by (simp del: parse_trusted_proxy.simps)
qed

end
