(* ===== verification/Snapshot.thy ===== *)
theory Snapshot
  imports Upstream Router "HOL-Library.Code_Target_Nat"
begin

text \<open>
  The immutable runtime view of a configuration (\<open>gatepup-proxy/src/snapshot.rs\<close>): its
  construction from a validated configuration, the variant for a hot reload, and the
  read-only views of the admin API. A \<open>HashMap\<close> of upstreams is an association list with
  distinct keys in some iteration order; \<open>build_acceptor\<close> stands for the TLS set-up of a
  listener and returns an acceptor or the text of its error.
\<close>

datatype ProxyError =
    ProxyInvalidBind string string             \<comment> \<open>name, bind\<close>
  | ProxyBind string socket_addr string        \<comment> \<open>name, bind, io error\<close>
  | ProxyMetrics string
  | ProxyTls string string                     \<comment> \<open>listener, message\<close>
  | ProxyUpstreamTls string

record Compression =
  co_gzip :: bool
  co_br :: bool
  co_min_bytes :: u64
  co_types :: "string set"

record ('n, 't) ListenerRuntime =
  lr_name :: string
  lr_bind :: socket_addr
  lr_router :: "'n Router"
  lr_tls :: "'t option"

record ('n, 't) RuntimeConfig =
  sn_listeners :: "('n, 't) ListenerRuntime list"
  sn_upstreams :: "(string \<times> UpstreamRuntime) list"
  sn_connect_timeout :: duration
  sn_request_timeout :: duration
  sn_max_body_bytes :: u64
  sn_header_read_timeout :: "duration option"
  sn_max_header_bytes :: "usize option"
  sn_trusted_proxies :: "'n list"
  sn_compression :: "Compression option"


section \<open>Construction\<close>

definition build_upstream :: "(string \<Rightarrow> string option) \<Rightarrow> UpstreamConfig \<Rightarrow> UpstreamRuntime" where
  "build_upstream method_from_bytes upstream =
     (let hc = us_health_check upstream;
          managed = (case hc of Some h \<Rightarrow> hc_enabled h | None \<Rightarrow> False);
          (healthy_threshold, unhealthy_threshold) =
            (case hc of Some h \<Rightarrow> (hc_healthy_threshold h, hc_unhealthy_threshold h) | None \<Rightarrow> (1, 3));
          settings =
            (if managed
             then map_option (\<lambda>h. \<lparr>hs_path = hc_path h, hs_interval = from_secs (hc_interval_seconds h),
                                   hs_timeout = from_millis (hc_timeout_ms h)\<rparr>) hc
             else None);
          schedule0 = build_schedule (map tg_weight (us_targets upstream));
          schedule =
            (if schedule0 = [] \<and> us_targets upstream \<noteq> [] then [0..<length (us_targets upstream)] else schedule0)
      in \<lparr>up_targets = map (\<lambda>t. \<lparr>tr_url = tg_url t,
            tr_state = HealthState_new managed healthy_threshold unhealthy_threshold\<rparr>) (us_targets upstream),
          up_health = settings,
          up_retry = Option.bind (us_retries upstream) (RetryPolicy_from_config method_from_bytes),
          up_tls_insecure = us_tls_insecure_skip_verify upstream,
          up_schedule = schedule,
          up_next = 0\<rparr>)"

definition build_upstreams ::
  "(string \<Rightarrow> string option) \<Rightarrow> UpstreamConfig list \<Rightarrow> (string \<times> UpstreamRuntime) list" where
  "build_upstreams method_from_bytes us =
     foldl (\<lambda>m u. AList.update (us_name u) (build_upstream method_from_bytes u) m) [] us"

definition build_listener ::
  "'h header_api \<Rightarrow> 'n net_api \<Rightarrow> (TlsConfig \<Rightarrow> ('t, string) result) \<Rightarrow> bool \<Rightarrow> ListenerConfig \<Rightarrow>
   (('n, 't) ListenerRuntime, ProxyError) result" where
  "build_listener api net build_acceptor with_tls listener =
     (case parse_socket_addr (ls_bind listener) of
        None \<Rightarrow> Err (ProxyInvalidBind (ls_name listener) (ls_bind listener))
      | Some addr \<Rightarrow>
          (let done = (\<lambda>tls. \<lparr>lr_name = ls_name listener, lr_bind = addr,
                              lr_router = Router_build api net (ls_routes listener), lr_tls = tls\<rparr>)
           in case (ls_tls listener, with_tls) of
                (Some cfg, True) \<Rightarrow>
                  (case build_acceptor cfg of
                     Err message \<Rightarrow> Err (ProxyTls (ls_name listener) message)
                   | Ok acceptor \<Rightarrow> Ok (done (Some acceptor)))
              | _ \<Rightarrow> Ok (done None)))"

fun build_listeners ::
  "'h header_api \<Rightarrow> 'n net_api \<Rightarrow> (TlsConfig \<Rightarrow> ('t, string) result) \<Rightarrow> bool \<Rightarrow> ListenerConfig list \<Rightarrow>
   (('n, 't) ListenerRuntime list, ProxyError) result" where
  "build_listeners api net build_acceptor with_tls [] = Ok []"
| "build_listeners api net build_acceptor with_tls (l # ls) =
     (case build_listener api net build_acceptor with_tls l of
        Err e \<Rightarrow> Err e
      | Ok lr \<Rightarrow>
          (case build_listeners api net build_acceptor with_tls ls of
             Err e \<Rightarrow> Err e
           | Ok lrs \<Rightarrow> Ok (lr # lrs)))"

definition build_compression :: "CompressionConfig option \<Rightarrow> Compression option" where
  "build_compression cfg =
     (case cfg of
        None \<Rightarrow> None
      | Some c \<Rightarrow>
          if \<not> cmp_enabled c then None
          else Some \<lparr>co_gzip = list_ex (\<lambda>a. a = ''gzip'') (cmp_algorithms c),
                     co_br = list_ex (\<lambda>a. a = ''br'') (cmp_algorithms c),
                     co_min_bytes = cmp_min_bytes c,
                     co_types = set (cmp_types c)\<rparr>)"

definition build_snapshot_inner ::
  "'h header_api \<Rightarrow> 'n net_api \<Rightarrow> (string \<Rightarrow> string option) \<Rightarrow> (TlsConfig \<Rightarrow> ('t, string) result) \<Rightarrow>
   GatePupConfig \<Rightarrow> bool \<Rightarrow> (('n, 't) RuntimeConfig, ProxyError) result" where
  "build_snapshot_inner api net method_from_bytes build_acceptor config with_tls =
     (case build_listeners api net build_acceptor with_tls (cf_listeners config) of
        Err e \<Rightarrow> Err e
      | Ok listeners \<Rightarrow>
          (let limits = cf_limits config
           in Ok \<lparr>
             sn_listeners = listeners,
             sn_upstreams = build_upstreams method_from_bytes (cf_upstreams config),
             sn_connect_timeout = from_millis (tmo_connect_timeout_ms (cf_timeouts config)),
             sn_request_timeout = from_millis (tmo_request_timeout_ms (cf_timeouts config)),
             sn_max_body_bytes = lim_max_body_bytes limits,
             sn_header_read_timeout =
               (if 0 < lim_header_read_timeout_ms limits
                then Some (from_millis (lim_header_read_timeout_ms limits)) else None),
             sn_max_header_bytes =
               (if 0 < lim_max_header_bytes limits then Some (lim_max_header_bytes limits) else None),
             sn_trusted_proxies = List.map_filter (parse_trusted_proxy net) (cf_trusted_proxies config),
             sn_compression = build_compression (cf_compression config) \<rparr>))"

definition build_snapshot where
  "build_snapshot api net method_from_bytes build_acceptor config =
     build_snapshot_inner api net method_from_bytes build_acceptor config True"

definition build_reload_snapshot where
  "build_reload_snapshot api net method_from_bytes build_acceptor config =
     build_snapshot_inner api net method_from_bytes build_acceptor config False"


section \<open>Views\<close>

record RouteView =
  rv_listener :: string
  rv_name :: string
  rv_host :: "string option"
  rv_path_prefix :: string
  rv_upstream :: string

record TargetView =
  tv_url :: string
  tv_healthy :: bool
  tv_last_check_epoch_ms :: u64

record UpstreamView =
  uv_name :: string
  uv_targets :: "TargetView list"

definition routes :: "('n, 't) RuntimeConfig \<Rightarrow> RouteView list" where
  "routes snap =
     concat (map (\<lambda>l. map (\<lambda>s. \<lparr>rv_listener = lr_name l, rv_name = rs_name s, rv_host = rs_host s,
         rv_path_prefix = rs_path_prefix s, rv_upstream = rs_upstream s\<rparr>) (summaries (lr_router l)))
       (sn_listeners snap))"

definition target_view :: "TargetRuntime \<Rightarrow> TargetView" where
  "target_view t =
     \<lparr>tv_url = tr_url t, tv_healthy = is_healthy (tr_state t), tv_last_check_epoch_ms = last_check_ms (tr_state t)\<rparr>"

definition upstreams_view :: "('n, 't) RuntimeConfig \<Rightarrow> UpstreamView list" where
  "upstreams_view snap =
     sort_key uv_name (map (\<lambda>(name, u). \<lparr>uv_name = name, uv_targets = map target_view (up_targets u)\<rparr>)
       (sn_upstreams snap))"

definition healthy_counts :: "('n, 't) RuntimeConfig \<Rightarrow> (string \<times> int) list" where
  "healthy_counts snap =
     map (\<lambda>(name, u). (name, int (length (filter (\<lambda>t. is_healthy (tr_state t)) (up_targets u)))))
       (sn_upstreams snap)"


section \<open>Upstreams of a snapshot\<close>

lemma build_upstream_simps [simp]:
  "length (up_targets (build_upstream mfb u)) = length (us_targets u)"
  "up_next (build_upstream mfb u) = 0"
  by (simp_all add: build_upstream_def Let_def case_prod_unfold)

lemma build_upstream_wf: "up_wf (build_upstream mfb u)"
  using build_schedule_range[of _ "map tg_weight (us_targets u)"]
  by (auto simp: up_wf_def build_upstream_def Let_def case_prod_unfold)

lemma build_upstream_schedule_nonempty: "us_targets u \<noteq> [] \<Longrightarrow> up_schedule (build_upstream mfb u) \<noteq> []"
  by (auto simp: build_upstream_def Let_def case_prod_unfold)

lemma build_upstream_all_healthy: "i < length (us_targets u) \<Longrightarrow> healthy_at (build_upstream mfb u) i"
  by (simp add: healthy_at_def build_upstream_def Let_def case_prod_unfold HealthState_new_def
      is_healthy_def)

lemma map_of_build_upstreams:
  "map_of (build_upstreams mfb us) = map_of (rev (map (\<lambda>u. (us_name u, build_upstream mfb u)) us))"
proof (induction us rule: rev_induct)
  case Nil
  show ?case by (simp add: build_upstreams_def)
next
  case (snoc u us)
  then show ?case by (simp add: build_upstreams_def update_conv')
qed

lemma distinct_build_upstreams: "distinct (map fst (build_upstreams mfb us))"
  by (induction us rule: rev_induct) (simp_all add: build_upstreams_def distinct_update)

lemma build_upstreams_lookup:
  assumes "distinct (map us_name us)"
  shows "map_of (build_upstreams mfb us) n = Some v \<longleftrightarrow> (\<exists>u \<in> set us. us_name u = n \<and> v = build_upstream mfb u)"
proof -
  have d: "distinct (map fst (rev (map (\<lambda>u. (us_name u, build_upstream mfb u)) us)))"
    using assms by (simp add: rev_map[symmetric] comp_def)
  show ?thesis unfolding map_of_build_upstreams map_of_eq_Some_iff[OF d] by auto
qed


section \<open>Listeners of a snapshot\<close>

lemma build_listener_cases:
  "build_listener api net ba wt l = Ok lr \<longleftrightarrow>
     (\<exists>addr. parse_socket_addr (ls_bind l) = Some addr \<and>
        (if wt \<and> ls_tls l \<noteq> None
         then \<exists>a. ba (the (ls_tls l)) = Ok a \<and>
           lr = \<lparr>lr_name = ls_name l, lr_bind = addr, lr_router = Router_build api net (ls_routes l), lr_tls = Some a\<rparr>
         else lr = \<lparr>lr_name = ls_name l, lr_bind = addr, lr_router = Router_build api net (ls_routes l), lr_tls = None\<rparr>))"
  by (auto simp: build_listener_def Let_def split: option.splits bool.splits sum.splits)

lemma build_listeners_Ok_iff:
  "build_listeners api net ba wt ls = Ok lrs \<longleftrightarrow>
     list_all2 (\<lambda>l lr. build_listener api net ba wt l = Ok lr) ls lrs"
proof (induction ls arbitrary: lrs)
  case Nil
  show ?case by auto
next
  case (Cons l ls)
  show ?case by (auto simp: list_all2_Cons1 Cons.IH[symmetric] split: sum.splits)
qed

lemma build_listeners_succeeds:
  assumes "\<forall>l \<in> set ls. \<exists>lr. build_listener api net ba wt l = Ok lr"
  shows "\<exists>lrs. build_listeners api net ba wt ls = Ok lrs"
  using assms by (induction ls) auto

lemma build_listeners_mem:
  assumes "build_listeners api net ba wt ls = Ok lrs" "lr \<in> set lrs"
  shows "\<exists>l \<in> set ls. build_listener api net ba wt l = Ok lr"
proof -
  obtain i where i: "i < length lrs" "lr = lrs ! i" using assms(2) by (auto simp: in_set_conv_nth)
  have rel: "list_all2 (\<lambda>l lr. build_listener api net ba wt l = Ok lr) ls lrs"
    using assms(1) by (simp only: build_listeners_Ok_iff)
  then have "i < length ls" using i(1) list_all2_lengthD by fastforce
  moreover have "build_listener api net ba wt (ls ! i) = Ok (lrs ! i)"
    using rel i(1) by (rule list_all2_nthD2)
  ultimately show ?thesis using i(2) nth_mem by blast
qed

lemma build_listeners_names:
  "build_listeners api net ba wt ls = Ok lrs \<Longrightarrow> map lr_name lrs = map ls_name ls"
  unfolding build_listeners_Ok_iff
  by (induction rule: list_all2_induct) (auto simp: build_listener_cases split: if_splits)

lemma snapshot_Ok_iff:
  "(\<exists>s. build_snapshot_inner api net mfb ba c wt = Ok s) \<longleftrightarrow>
   (\<exists>lrs. build_listeners api net ba wt (cf_listeners c) = Ok lrs)"
  by (auto simp: build_snapshot_inner_def Let_def split: sum.splits)

lemma snapshot_fields:
  assumes "build_snapshot_inner api net mfb ba c wt = Ok s"
  shows "build_listeners api net ba wt (cf_listeners c) = Ok (sn_listeners s)"
    and "sn_upstreams s = build_upstreams mfb (cf_upstreams c)"
  using assms by (auto simp: build_snapshot_inner_def Let_def split: sum.splits)


section \<open>Snapshots of validated configurations\<close>

text \<open>What a request needs of the upstream its route names.\<close>

definition servable :: "UpstreamRuntime \<Rightarrow> bool" where
  "servable u \<longleftrightarrow>
     up_wf u \<and> up_schedule u \<noteq> [] \<and> (\<exists>i. fst (pick_target u) = Picked i) \<and>
     (\<forall>h. up_health u = Some h \<longrightarrow> 0 < hs_interval h \<and> hs_timeout h < hs_interval h)"

lemma build_upstream_health:
  assumes "upstream_wf url_parse u" "up_health (build_upstream mfb u) = Some h"
  shows "0 < hs_interval h \<and> hs_timeout h < hs_interval h"
proof -
  obtain hc where hc: "us_health_check u = Some hc" "hs_interval h = from_secs (hc_interval_seconds hc)"
    "hs_timeout h = from_millis (hc_timeout_ms hc)"
    using assms(2) by (auto simp: build_upstream_def Let_def case_prod_unfold split: option.splits if_splits)
  then have "unat (hc_timeout_ms hc) < unat (hc_interval_seconds hc) * 1000"
    using assms(1) by (simp add: upstream_wf_def)
  then show ?thesis using hc(2,3) by (simp add: from_secs_def from_millis_def)
qed

lemma build_upstream_servable:
  assumes "upstream_wf url_parse u"
  shows "servable (build_upstream mfb u)"
proof -
  have ne: "up_schedule (build_upstream mfb u) \<noteq> []"
    using assms by (intro build_upstream_schedule_nonempty) (simp add: upstream_wf_def)
  have "\<forall>i \<in> set (up_schedule (build_upstream mfb u)). healthy_at (build_upstream mfb u) i"
    using build_upstream_wf[of mfb u] build_upstream_all_healthy by (auto simp: up_wf_def)
  then show ?thesis
    using pick_target_all_healthy[OF build_upstream_wf ne] ne build_upstream_wf
      build_upstream_health[OF assms] by (simp add: servable_def)
qed

lemma snapshot_routes_servable:
  assumes "config_wf net url_parse c" "build_snapshot_inner api net mfb ba c wt = Ok s"
    and "lr \<in> set (sn_listeners s)" "r \<in> set (lr_router lr)"
  shows "\<exists>u. map_of (sn_upstreams s) (cr_upstream r) = Some u \<and> servable u"
proof -
  note f = snapshot_fields[OF assms(2)]
  obtain l where l: "l \<in> set (cf_listeners c)" "build_listener api net ba wt l = Ok lr"
    using build_listeners_mem[OF f(1) assms(3)] by blast
  then have "lr_router lr = Router_build api net (ls_routes l)"
    by (auto simp: build_listener_cases split: if_splits)
  then obtain rc where rc: "rc \<in> set (ls_routes l)" "cr_upstream r = rt_upstream rc"
    using assms(4) by (auto simp: Router_build_def CompiledRoute_of_def Let_def)
  then have "rt_upstream rc \<in> us_name ` set (cf_upstreams c)"
    using assms(1) l(1) by (auto simp: config_wf_def listener_wf_def route_wf_def)
  then obtain u where u: "u \<in> set (cf_upstreams c)" "us_name u = rt_upstream rc" by auto
  have "map_of (sn_upstreams s) (cr_upstream r) = Some (build_upstream mfb u)"
    unfolding f(2) using u rc(2) assms(1) by (subst build_upstreams_lookup) (auto simp: config_wf_def)
  moreover have "servable (build_upstream mfb u)"
    using u(1) assms(1) by (intro build_upstream_servable) (auto simp: config_wf_def)
  ultimately show ?thesis by blast
qed

lemma validated_listeners_build:
  assumes "config_wf net url_parse c"
    and "\<forall>l \<in> set (cf_listeners c). \<forall>t. ls_tls l = Some t \<longrightarrow> wt \<longrightarrow> (\<exists>a. ba t = Ok a)"
  shows "\<exists>s. build_snapshot_inner api net mfb ba c wt = Ok s"
  unfolding snapshot_Ok_iff
proof (rule build_listeners_succeeds, rule ballI)
  fix l
  assume l: "l \<in> set (cf_listeners c)"
  then have "parse_socket_addr (ls_bind l) \<noteq> None"
    using assms(1) by (auto simp: config_wf_def listener_wf_def)
  then show "\<exists>lr. build_listener api net ba wt l = Ok lr"
    using assms(2) l by (cases "ls_tls l"; cases wt) (fastforce simp: build_listener_def Let_def)+
qed

lemma build_listeners_no_tls:
  "build_listeners api net ba False ls = build_listeners api net ba' False ls"
proof -
  have "build_listener api net ba False l = build_listener api net ba' False l" for l
    by (simp add: build_listener_def Let_def split: option.splits)
  then show ?thesis by (induction ls) (simp_all split: sum.splits)
qed

lemma distinct_sort_key: "distinct (map k xs) \<Longrightarrow> distinct (map k (sort_key k xs))"
  by (simp add: distinct_map)

lemma sorted_names:
  "distinct (map fst us) \<Longrightarrow>
     sorted_wrt (<) (map uv_name (sort_key uv_name (map (\<lambda>(name, u). \<lparr>uv_name = name, uv_targets = f u\<rparr>) us)))"
proof -
  assume d: "distinct (map fst us)"
  let ?vs = "map (\<lambda>(name, u). \<lparr>uv_name = name, uv_targets = f u\<rparr>) us"
  have "map uv_name ?vs = map fst us" by (auto simp: comp_def case_prod_unfold)
  then have "distinct (map uv_name ?vs)" using d by (simp only:)
  then have "distinct (map uv_name (sort_key uv_name ?vs))" by (rule distinct_sort_key)
  then show ?thesis by (simp add: strict_sorted_iff)
qed


section \<open>Properties\<close>

text \<open>C29. A configuration that validates builds into a snapshot once its certificates load, and the
  snapshot can serve: listener names are unique, every route's upstream exists, its
  schedule is in range and non-empty, its first pick succeeds, and an active health check
  has a positive interval longer than its timeout.\<close>

theorem validated_config_serves:
  assumes "validate net url_parse c = Ok ()"
    and "\<forall>l \<in> set (cf_listeners c). \<forall>t. ls_tls l = Some t \<longrightarrow> (\<exists>a. ba t = Ok a)"
  shows "\<exists>s. build_snapshot api net mfb ba c = Ok s \<and>
    distinct (map lr_name (sn_listeners s)) \<and>
    (\<forall>lr \<in> set (sn_listeners s). \<forall>r \<in> set (lr_router lr).
       \<exists>u. map_of (sn_upstreams s) (cr_upstream r) = Some u \<and> servable u)"
proof -
  have wf: "config_wf net url_parse c" using assms(1) by (simp add: validate_Ok_iff)
  then obtain s where s: "build_snapshot_inner api net mfb ba c True = Ok s"
    using validated_listeners_build[of net url_parse c True ba api mfb] assms(2) by auto
  have "distinct (map lr_name (sn_listeners s))"
    using build_listeners_names[OF snapshot_fields(1)[OF s]] wf by (simp add: config_wf_def)
  then show ?thesis
    using s snapshot_routes_servable[OF wf s] by (auto simp: build_snapshot_def)
qed

text \<open>A reload never touches certificate files: the reload snapshot of a validated configuration
  always builds, is the same whatever loading the certificates would give, and carries
  no TLS acceptor.\<close>

theorem reload_snapshot_needs_no_certificates:
  fixes net :: "'n net_api"
  assumes "validate net url_parse c = Ok ()"
  shows "\<exists>s :: ('n, 't) RuntimeConfig. (\<forall>ba. build_reload_snapshot api net mfb ba c = Ok s) \<and> (\<forall>lr \<in> set (sn_listeners s). lr_tls lr = None)"
proof -
  have wf: "config_wf net url_parse c" using assms by (simp add: validate_Ok_iff)
  define ba0 where "ba0 = (\<lambda>_::TlsConfig. Err '''' :: ('t, string) result)"
  obtain s where s: "build_snapshot_inner api net mfb ba0 c False = Ok s"
    using validated_listeners_build[OF wf, of False ba0 api mfb] by auto
  have "build_snapshot_inner api net mfb ba c False = Ok s" for ba
    using s build_listeners_no_tls[of api net ba "cf_listeners c" ba0] by (simp add: build_snapshot_inner_def)
  moreover have "lr_tls lr = None" if "lr \<in> set (sn_listeners s)" for lr
    using build_listeners_mem[OF snapshot_fields(1)[OF s] that] by (auto simp: build_listener_cases)
  ultimately show ?thesis by (auto simp: build_reload_snapshot_def)
qed

text \<open>\<open>GET /upstreams\<close> lists every configured upstream once, in strictly ascending order of
  name, whatever order the hash map iterates in.\<close>

theorem upstreams_view_sorted:
  assumes "build_snapshot_inner api net mfb ba c wt = Ok s"
  shows "sorted_wrt (<) (map uv_name (upstreams_view s)) \<and>
    uv_name ` set (upstreams_view s) = us_name ` set (cf_upstreams c)"
proof -
  have us: "sn_upstreams s = build_upstreams mfb (cf_upstreams c)" by (rule snapshot_fields(2)[OF assms])
  have "uv_name ` set (upstreams_view s) = fst ` set (sn_upstreams s)"
    by (force simp: upstreams_view_def)
  also have "\<dots> = dom (map_of (sn_upstreams s))" by (simp add: dom_map_of_conv_image_fst)
  also have "\<dots> = us_name ` set (cf_upstreams c)"
    unfolding us map_of_build_upstreams by (auto simp: dom_map_of_conv_image_fst image_image)
  finally show ?thesis
    using sorted_names[OF distinct_build_upstreams] by (simp add: upstreams_view_def us)
qed


section \<open>Witnesses\<close>

definition example_config :: GatePupConfig where
  "example_config =
     \<lparr>cf_app = \<lparr>app_name = ''gatepup'', app_log_level = ''info''\<rparr>,
      cf_listeners = [\<lparr>ls_name = ''web'', ls_bind = ''0.0.0.0:80'', ls_protocol = Https,
        ls_tls = Some \<lparr>tls_cert = ''c.pem'', tls_key = ''k.pem''\<rparr>,
        ls_routes = [example_route ''all'' None (Some ''/'')]\<rparr>],
      cf_upstreams = [\<lparr>us_name = ''up'', us_load_balancing = RoundRobin,
        us_targets = [\<lparr>tg_url = ''http://a:1'', tg_weight = 2\<rparr>, \<lparr>tg_url = ''http://b:1'', tg_weight = 1\<rparr>],
        us_health_check = Some \<lparr>hc_enabled = True, hc_path = ''/h'', hc_interval_seconds = 1, hc_timeout_ms = 5,
          hc_healthy_threshold = 1, hc_unhealthy_threshold = 2\<rparr>,
        us_retries = Some \<lparr>re_enabled = True, re_attempts = 2, re_methods = [''GET''],
          re_retry_on = [''connect_error'', ''upstream_5xx'']\<rparr>,
        us_tls_insecure_skip_verify = False\<rparr>],
      cf_timeouts = TimeoutConfig_default,
      cf_limits = LimitsConfig_default,
      cf_trusted_proxies = [''10.0.0.1''],
      cf_compression = None,
      cf_admin = None,
      cf_metrics = None\<rparr>"

definition example_url_parse :: "string \<Rightarrow> (string \<times> bool) option" where
  "example_url_parse s = (if prefix ''http://'' s then Some (''http'', True) else None)"

lemma example_config_valid: "validate prefix_nets example_url_parse example_config = Ok ()"
  by code_simp

theorem validated_config_serves_witness:
  "\<exists>s. build_snapshot list_headers prefix_nets Some (\<lambda>_. Ok ()) example_config = Ok s \<and>
     distinct (map lr_name (sn_listeners s)) \<and>
     (\<forall>lr \<in> set (sn_listeners s). \<forall>r \<in> set (lr_router lr).
       \<exists>u. map_of (sn_upstreams s) (cr_upstream r) = Some u \<and> servable u)"
  by (rule validated_config_serves[OF example_config_valid]) simp

theorem reload_snapshot_needs_no_certificates_witness:
  "\<exists>s. (\<forall>ba :: TlsConfig \<Rightarrow> (unit, string) result.
      build_reload_snapshot list_headers prefix_nets Some ba example_config = Ok s) \<and>
     (\<forall>lr \<in> set (sn_listeners s). lr_tls lr = None)"
  by (rule reload_snapshot_needs_no_certificates[OF example_config_valid])

theorem upstreams_view_sorted_witness:
  "\<exists>s. build_snapshot_inner list_headers prefix_nets Some (\<lambda>_. Ok ()) example_config True = Ok s \<and>
     uv_name ` set (upstreams_view s) = {''up''}"
proof -
  have "validate prefix_nets example_url_parse example_config = Ok ()" by (rule example_config_valid)
  then have wf: "config_wf prefix_nets example_url_parse example_config" by (simp only: validate_Ok_iff)
  have "\<exists>s. build_snapshot_inner list_headers prefix_nets Some (\<lambda>_. Ok ()) example_config True = Ok s"
    by (rule validated_listeners_build[OF wf]) simp
  then obtain s where s: "build_snapshot_inner list_headers prefix_nets Some (\<lambda>_. Ok ()) example_config True = Ok s"
    by (rule exE)
  have "us_name ` set (cf_upstreams example_config) = {''up''}" by (simp add: example_config_def)
  then have "uv_name ` set (upstreams_view s) = {''up''}" using upstreams_view_sorted[OF s] by (simp only: simp_thms)
  with s show ?thesis by (intro exI conjI)
qed

end
