(* ===== verification/Ip_Round_Trip.thy ===== *)
theory Ip_Round_Trip
  imports Rust_Net
begin

text \<open>
  Every address survives printing and parsing: \<open>Display\<close> and \<open>FromStr\<close> of \<open>std::net::IpAddr\<close> fit
  together, for IPv6 with its shortened runs of zero groups and its mapped IPv4 addresses too.
\<close>

section \<open>Hexadecimal groups\<close>

fun hex_digits :: "nat \<Rightarrow> nat list" where
  "hex_digits n = (if n < 16 then [n] else hex_digits (n div 16) @ [n mod 16])"

declare hex_digits.simps [simp del]

lemma hex_of_nat_digits: "hex_of_nat n = map hex_digit (hex_digits n)"
proof (induction n rule: hex_digits.induct)
  case (1 n)
  then show ?case by (simp add: hex_of_nat.simps[of n] hex_digits.simps[of n])
qed

lemma hex_digits_small: "d \<in> set (hex_digits n) \<Longrightarrow> d < 16"
proof (induction n rule: hex_digits.induct)
  case (1 n)
  then show ?case by (auto simp: hex_digits.simps[of n] split: if_splits)
qed

lemma num_value_hex_digits: "num_value 16 (hex_digits n) = n"
proof (induction n rule: hex_digits.induct)
  case (1 n)
  then show ?case by (auto simp: hex_digits.simps[of n] num_value_def)
qed

lemma hex_digits_not_Nil [simp]: "hex_digits n \<noteq> []"
  by (simp add: hex_digits.simps[of n])

lemma length_hex_digits: "n < 65536 \<Longrightarrow> length (hex_digits n) \<le> 4"
  by (simp add: hex_digits.simps)

lemma digit_of_hex_digit: "d < 16 \<Longrightarrow> digit_of 16 (hex_digit d) = Some d"
  by (simp add: digit_of_def hex_digit_def)

text \<open>What may follow a group: nothing, or a colon.\<close>

definition ends_group :: "string \<Rightarrow> bool" where
  "ends_group r \<longleftrightarrow> r = [] \<or> hd r = CHR '':''"

lemma read_run_hex:
  "(\<And>d. d \<in> set ds \<Longrightarrow> d < 16) \<Longrightarrow> ends_group r \<Longrightarrow> read_run 16 (map hex_digit ds @ r) = (ds, r)"
proof (induction ds)
  case Nil
  then show ?case by (cases r) (auto simp: ends_group_def digit_of_def)
next
  case (Cons d ds)
  then show ?case by (simp add: digit_of_hex_digit)
qed

lemma read_number_group:
  assumes "ends_group r"
  shows "read_number 16 (Some 4) True 65535 (hex_of_nat (unat (g::u16)) @ r) = Some (unat g, r)"
proof -
  have g: "unat g < 65536" using unsigned_less[of g] by simp
  have "read_run 16 (hex_of_nat (unat g) @ r) = (hex_digits (unat g), r)"
    unfolding hex_of_nat_digits using hex_digits_small assms by (rule read_run_hex)
  then show ?thesis using g length_hex_digits[OF g]
    by (simp add: read_number_def num_value_hex_digits)
qed


section \<open>No IPv4 address without a dot\<close>

lemma read_run_suffix: "set (snd (read_run radix s)) \<subseteq> set s"
  by (induction s) (auto simp: case_prod_unfold Let_def split: option.splits)

lemma read_number_suffix: "read_number radix m z l s = Some (n, r) \<Longrightarrow> set r \<subseteq> set s"
  using read_run_suffix[of radix s] by (auto simp: read_number_def case_prod_unfold Let_def split: if_splits)

lemma read_octet_needs_dot: "0 < i \<Longrightarrow> CHR ''.'' \<notin> set s \<Longrightarrow> read_octet i s = None"
  by (cases s) (auto simp: read_octet_def read_separator_def read_given_char_def)

lemma read_ipv4_needs_dot:
  assumes "CHR ''.'' \<notin> set s"
  shows "read_ipv4_addr s = None"
proof (cases "read_octet 0 s")
  case None
  then show ?thesis by (simp add: read_ipv4_addr_def)
next
  case (Some nr)
  then obtain n r where nr: "read_octet 0 s = Some (n, r)" by (cases nr) simp
  then have "set r \<subseteq> set s" by (simp add: read_octet_def read_separator_def read_number_suffix)
  then have "read_octet 1 r = None" using assms by (intro read_octet_needs_dot) auto
  then show ?thesis using nr by (simp add: read_ipv4_addr_def)
qed

lemma read_separator_ipv4:
  assumes "CHR ''.'' \<notin> set s"
  shows "read_separator (CHR '':'') i read_ipv4_addr s = None"
proof (cases s)
  case (Cons c r)
  then have "read_ipv4_addr r = None" using assms by (intro read_ipv4_needs_dot) simp
  then show ?thesis using Cons read_ipv4_needs_dot[OF assms] by (simp add: read_separator_def read_given_char_def)
qed (simp add: read_separator_def read_given_char_def read_ipv4_needs_dot)


section \<open>Runs of groups\<close>

definition colon_groups :: "u16 list \<Rightarrow> string" where
  "colon_groups gs = concat (map (\<lambda>g. CHR '':'' # hex_of_nat (unat g)) gs)"

lemma colon_groups_simps [simp]:
  "colon_groups [] = []" "colon_groups (g # gs) = CHR '':'' # hex_of_nat (unat g) @ colon_groups gs"
  by (simp_all add: colon_groups_def)

lemma fmt_subslice_Cons: "fmt_subslice (g # gs) = hex_of_nat (unat g) @ colon_groups gs"
  by (induction gs arbitrary: g) simp_all

lemma hex_no_dot: "CHR ''.'' \<notin> set (hex_of_nat n)"
proof -
  have "hex_digit d \<noteq> CHR ''.''" if "d < 16" for d
  proof
    assume "hex_digit d = CHR ''.''"
    then have "(of_char (hex_digit d) :: nat) = of_char CHR ''.''" by simp
    then show False using that by (simp add: hex_digit_def split: if_splits)
  qed
  then show ?thesis unfolding hex_of_nat_digits using hex_digits_small by fastforce
qed

lemma colon_groups_no_dot: "CHR ''.'' \<notin> set (colon_groups gs)"
  using hex_no_dot by (induction gs) simp_all

lemma fmt_subslice_no_dot: "CHR ''.'' \<notin> set (fmt_subslice gs)"
  using hex_no_dot colon_groups_no_dot by (cases gs) (simp_all add: fmt_subslice_Cons)

text \<open>A run of groups ends at the end of the text or at a double colon.\<close>

definition ends_groups :: "string \<Rightarrow> bool" where
  "ends_groups r \<longleftrightarrow> r = [] \<or> (\<exists>r'. r = ''::'' @ r')"

lemma ends_groups_group: "ends_groups r \<Longrightarrow> ends_group (colon_groups gs @ r)"
  by (cases gs) (auto simp: ends_groups_def ends_group_def)

lemma no_number: "read_number 16 m z l (CHR '':'' # s) = None" "read_number 16 m z l [] = None"
  by (simp_all add: read_number_def digit_of_def)

lemma read_groups_end:
  assumes "ends_groups r" "CHR ''.'' \<notin> set r"
  shows "read_groups i k r = ([], False, r)"
  using assms read_separator_ipv4[OF assms(2), of i]
  by (cases k) (auto simp: ends_groups_def read_separator_def read_given_char_def no_number)

lemma read_groups_colon:
  assumes "0 < i" "length gs \<le> k" "ends_groups r" "CHR ''.'' \<notin> set r"
  shows "read_groups i k (colon_groups gs @ r) = (gs, False, r)"
  using assms(1,2)
proof (induction gs arbitrary: i k)
  case Nil
  then show ?case using read_groups_end[OF assms(3,4)] by simp
next
  case (Cons g gs)
  obtain k' where k: "k = Suc k'" using Cons.prems(2) by (cases k) auto
  let ?s = "colon_groups (g # gs) @ r"
  have "CHR ''.'' \<notin> set ?s" using colon_groups_no_dot[of "g # gs"] assms(4) by simp
  then have "read_separator (CHR '':'') i read_ipv4_addr ?s = None" by (rule read_separator_ipv4)
  moreover have "read_separator (CHR '':'') i (read_number 16 (Some 4) True 65535) ?s = Some (unat g, colon_groups gs @ r)"
    using Cons.prems(1) read_number_group[OF ends_groups_group[OF assms(3)], of g gs]
    by (simp add: read_separator_def read_given_char_def)
  moreover have "read_groups (Suc i) k' (colon_groups gs @ r) = (gs, False, r)"
    using Cons.prems(2) k by (intro Cons.IH) simp_all
  moreover have "length gs \<le> k'" using Cons.prems(2) k by simp
  ultimately show ?case by (auto simp: k simp del: colon_groups_simps)
qed

lemma read_groups_fmt:
  assumes "length gs \<le> k" "ends_groups r" "CHR ''.'' \<notin> set r"
  shows "read_groups 0 k (fmt_subslice gs @ r) = (gs, False, r)"
proof (cases gs)
  case Nil
  then show ?thesis using read_groups_end[OF assms(2,3)] by simp
next
  case (Cons g gs')
  obtain k' where k: "k = Suc k'" using assms(1) Cons by (cases k) auto
  let ?s = "fmt_subslice gs @ r"
  have "CHR ''.'' \<notin> set ?s" using fmt_subslice_no_dot[of gs] assms(3) by simp
  then have "read_separator (CHR '':'') 0 read_ipv4_addr ?s = None" by (rule read_separator_ipv4)
  moreover have "read_separator (CHR '':'') 0 (read_number 16 (Some 4) True 65535) ?s = Some (unat g, colon_groups gs' @ r)"
    using read_number_group[OF ends_groups_group[OF assms(2)], of g gs'] Cons
    by (simp add: read_separator_def fmt_subslice_Cons del: fmt_subslice.simps)
  moreover have "read_groups (Suc 0) k' (colon_groups gs' @ r) = (gs', False, r)"
    using assms Cons k by (intro read_groups_colon) simp_all
  moreover have "length gs' \<le> k'" using assms(1) Cons k by simp
  ultimately show ?thesis by (auto simp: k Cons simp del: fmt_subslice.simps)
qed


section \<open>The run of zeros left out\<close>

definition zeros_at :: "u16 list \<Rightarrow> nat \<Rightarrow> nat \<Rightarrow> bool" where
  "zeros_at gs s l \<longleftrightarrow> s + l \<le> length gs \<and> (\<forall>j < l. gs ! (s + j) = 0)"

lemma zero_span_zeros:
  assumes "zeros_at gs ls ll" "0 < cl \<longrightarrow> cs + cl = i \<and> zeros_at gs cs cl" "rest = drop i gs" "i \<le> length gs"
  shows "case zero_span i (cs, cl) (ls, ll) rest of (s, l) \<Rightarrow> zeros_at gs s l"
  using assms
proof (induction i "(cs, cl)" "(ls, ll)" rest arbitrary: cs cl ls ll rule: zero_span.induct)
  case (1 i cs cl ls ll)
  then show ?case by simp
next
  case (2 i cs cl ls ll g rest)
  have i: "i < length gs" "gs ! i = g" "rest = drop (Suc i) gs"
    using 2(5,6) by (metis drop_all le_neq_implies_less list.discI order_refl, metis drop_eq_Nil2 hd_drop_conv_nth leI list.discI list.sel(1),
        metis drop_Suc list.sel(3) tl_drop)
  show ?case
  proof (cases "g = 0")
    case True
    define cs' where "cs' = (if cl = 0 then i else cs)"
    have z: "cs' + Suc cl = Suc i" "zeros_at gs cs' (Suc cl)"
      using 2(4) i True by (auto simp: cs'_def zeros_at_def less_Suc_eq)
    show ?thesis
      using 2(1)[OF True, of cs' "Suc cl"] z i 2(3) True by (auto simp: cs'_def Let_def split: if_splits)
  next
    case False
    then show ?thesis using 2(2)[OF False] 2(3) i by simp
  qed
qed

lemma zero_span_replicate:
  assumes "zero_span 0 (0, 0) (0, 0) gs = (s, l)"
  shows "gs = take s gs @ replicate l 0 @ drop (s + l) gs" "s + l \<le> length gs"
proof -
  have z: "zeros_at gs s l" using zero_span_zeros[of gs 0 0 0 0 0 gs] assms by (simp add: zeros_at_def)
  then show len: "s + l \<le> length gs" by (simp add: zeros_at_def)
  have "take l (drop s gs) = replicate l 0" using z by (intro nth_equalityI) (auto simp: zeros_at_def)
  then show "gs = take s gs @ replicate l 0 @ drop (s + l) gs"
    by (metis add.commute append_take_drop_id drop_drop)
qed


section \<open>Round trip\<close>

lemma be_u16_bytes: "be_u16 (of_nat (unat g div 256)) (of_nat (unat g mod 256)) = g"
proof -
  have "unat g div 256 < 256" using unsigned_less[of g] by (simp add: div_less_iff_less_mult)
  then show ?thesis by (simp add: be_u16_def unat_of_nat)
qed

lemma read_ipv6_compressed:
  assumes "zero_span 0 (0, 0) (0, 0) gs = (s, l)" "1 < l" "length gs = 8" "ip_of_groups gs = Some ip"
  shows "read_ipv6_addr (fmt_subslice (take s gs) @ ''::'' @ fmt_subslice (drop (s + l) gs)) = Some (ip, [])"
proof -
  note z = zero_span_replicate[OF assms(1)]
  let ?tail = "drop (s + l) gs"
  have "CHR ''.'' \<notin> set (''::'' @ fmt_subslice ?tail)" using fmt_subslice_no_dot[of ?tail] by simp
  then have head: "read_groups 0 8 (fmt_subslice (take s gs) @ ''::'' @ fmt_subslice ?tail) =
      (take s gs, False, ''::'' @ fmt_subslice ?tail)"
    using assms(3) by (intro read_groups_fmt) (auto simp: ends_groups_def)
  have tail: "read_groups 0 (8 - (s + 1)) (fmt_subslice ?tail) = (?tail, False, [])"
    using read_groups_fmt[of ?tail "8 - (s + 1)" "[]"] assms(2,3) z(2) by (simp add: ends_groups_def)
  have len: "length (take s gs) = s" "8 - s - length ?tail = l" "s \<noteq> 8" using z(2) assms(2,3) by auto
  show ?thesis
    using head tail z(1) assms(4) len
    by (simp add: read_ipv6_addr_def read_given_char_def del: length_take length_drop)
qed

lemma read_ipv6_plain:
  assumes "length gs = 8" "ip_of_groups gs = Some ip"
  shows "read_ipv6_addr (fmt_subslice gs) = Some (ip, [])"
  using read_groups_fmt[of gs 8 "[]"] assms by (simp add: read_ipv6_addr_def ends_groups_def)

lemma read_ipv4_none:
  "read_ipv4_addr (CHR '':'' # s) = None" "read_ipv4_addr (CHR ''f'' # s) = None"
  by (simp_all add: read_ipv4_addr_def read_octet_def read_separator_def read_number_def digit_of_def)

lemma read_ffff: "read_number 16 (Some 4) True 65535 (''ffff:'' @ s) = Some (65535, CHR '':'' # s)"
  by (simp add: read_number_def digit_of_def num_value_def)

lemma read_groups_none: "read_groups 0 (Suc k) (CHR '':'' # s) = ([], False, CHR '':'' # s)"
  by (simp add: read_separator_def read_ipv4_none no_number)

lemma read_groups_v4:
  "read_groups (Suc i) (Suc (Suc k)) (CHR '':'' # ipv4_to_string a b c d) = ([be_u16 a b, be_u16 c d], True, [])"
  by (simp add: read_separator_def read_given_char_def read_ipv4_to_string del: read_groups.simps(1))

lemma read_groups_ffff:
  "read_groups 0 (Suc (Suc (Suc k))) (''ffff:'' @ ipv4_to_string a b c d) = ([0xFFFF, be_u16 a b, be_u16 c d], True, [])"
proof -
  let ?s = "''ffff:'' @ ipv4_to_string a b c d"
  have "read_separator (CHR '':'') 0 read_ipv4_addr ?s = None" by (simp add: read_separator_def read_ipv4_none)
  moreover have "read_separator (CHR '':'') 0 (read_number 16 (Some 4) True 65535) ?s =
      Some (65535, CHR '':'' # ipv4_to_string a b c d)" unfolding read_separator_def by (simp only: read_ffff simp_thms if_True less_irrefl if_False)
  ultimately show ?thesis by (subst read_groups.simps(2)) (simp add: read_groups_v4 del: read_groups.simps)
qed

lemma read_ipv6_mapped:
  "read_ipv6_addr (''::ffff:'' @ ipv4_to_string a b c d) = Some (V6 0 0 0 0 0 0xFFFF (be_u16 a b) (be_u16 c d), [])"
proof -
  let ?v4 = "ipv4_to_string a b c d"
  have head: "read_groups 0 8 (''::ffff:'' @ ?v4) = ([], False, ''::ffff:'' @ ?v4)"
    using read_groups_none[of 7 "'':ffff:'' @ ?v4"] by (simp add: numeral_eq_Suc)
  have tail: "read_groups 0 7 (''ffff:'' @ ?v4) = ([0xFFFF, be_u16 a b, be_u16 c d], True, [])"
    using read_groups_ffff[of 4] by (simp add: numeral_eq_Suc)
  have "replicate (8 - 3) 0 @ [0xFFFF, x, y] = [0, 0, 0, 0, 0, 0xFFFF, x, y]" for x y :: u16
    by (simp add: eval_nat_numeral)
  then show ?thesis using head tail by (simp add: read_ipv6_addr_def read_given_char_def)
qed

theorem parse_ip_to_string: "parse_ip (ip_to_string ip) = Some ip"
proof (cases ip)
  case (V4 a b c d)
  then show ?thesis by (simp only: parse_ip_to_string_V4)
next
  case (V6 a b c d e f g h)
  let ?gs = "[a, b, c, d, e, f, g, h]"
  have "read_ipv4_addr (ip_to_string ip) = None \<and> read_ipv6_addr (ip_to_string ip) = Some (ip, [])"
  proof (cases "a = 0 \<and> b = 0 \<and> c = 0 \<and> d = 0 \<and> e = 0 \<and> f = 0xFFFF")
    case True
    then have s: "ip_to_string ip = ''::ffff:'' @ ipv4_to_string (of_nat (unat g div 256)) (of_nat (unat g mod 256))
        (of_nat (unat h div 256)) (of_nat (unat h mod 256))" using V6 by simp
    have "read_ipv4_addr (CHR '':'' # s) = None" for s
      by (simp add: read_ipv4_addr_def read_octet_def read_separator_def read_number_def digit_of_def)
    then show ?thesis using True V6 unfolding s read_ipv6_mapped be_u16_bytes by simp
  next
    case False
    obtain s l where z: "zero_span 0 (0, 0) (0, 0) ?gs = (s, l)" by fastforce
    then have s: "ip_to_string ip =
        (if 1 < l then fmt_subslice (take s ?gs) @ ''::'' @ fmt_subslice (drop (s + l) ?gs) else fmt_subslice ?gs)"
      using False V6 by (simp only: ip_to_string.simps if_False Let_def prod.case)
    have "CHR ''.'' \<notin> set (ip_to_string ip)" unfolding s
      using fmt_subslice_no_dot[of ?gs] fmt_subslice_no_dot[of "take s ?gs"] fmt_subslice_no_dot[of "drop (s + l) ?gs"]
      by (simp del: fmt_subslice.simps take_Cons drop_Cons)
    then have "read_ipv4_addr (ip_to_string ip) = None" by (rule read_ipv4_needs_dot)
    moreover have "read_ipv6_addr (ip_to_string ip) = Some (ip, [])"
      unfolding s using read_ipv6_compressed[OF z, of ip] read_ipv6_plain[of ?gs ip] V6 by simp
    ultimately show ?thesis by blast
  qed
  then show ?thesis by (simp add: parse_ip_def parse_with_def read_ip_addr_def)
qed

end
