(* ===== verification/Proxy.thy ===== *)
theory Proxy
  imports Snapshot Ip_Round_Trip
begin

unbundle bit_operations_syntax

text \<open>
  The building blocks of request handling (\<open>gatepup-proxy/src/proxy.rs\<close>): the errors and
  their responses, the rewriting of request headers, the resolution of the client's
  address, basic authentication, body limits, request ids. Base64 decoding is the
  parameter \<open>b64_decode\<close>; a clock reading and the id counter are passed explicitly.
\<close>

definition BODY_BUFFER_CAP :: usize where
  "BODY_BUFFER_CAP = 64 * 1024"

definition HOP_BY_HOP :: "string list" where
  "HOP_BY_HOP = [''connection'', ''keep-alive'', ''proxy-authenticate'', ''proxy-authorization'', ''te'',
     ''trailer'', ''transfer-encoding'', ''upgrade'']"

definition UPGRADE_STRIP :: "string list" where
  "UPGRADE_STRIP = [''keep-alive'', ''proxy-authenticate'', ''proxy-authorization'', ''te'',
     ''trailer'', ''transfer-encoding'']"


section \<open>Requests and responses\<close>

text \<open>What a body yields when polled: a data frame, a trailer frame, an error, or not yet.\<close>

datatype body_event = DataFrame string | TrailerFrame | BodyError string | NotReady

type_synonym body = "body_event list"

text \<open>A request as the handlers observe it; the URI through its accessors.\<close>

record 'h request =
  rq_method :: string
  rq_path :: string
  rq_path_and_query :: "string option"
  rq_authority :: "string option"
  rq_version :: string
  rq_headers :: 'h
  rq_body :: body

record 'h response =
  res_status :: nat
  res_headers :: 'h
  res_body :: string


section \<open>Errors\<close>

datatype GatewayError =
    RouteNotFound
  | Forbidden
  | Unauthorized
  | TooManyRequests
  | PayloadTooLarge
  | UpstreamMissing
  | NoHealthyUpstream
  | UpstreamTimeout
  | UpstreamConnect
  | BadGateway

fun parts :: "GatewayError \<Rightarrow> nat \<times> string" where
  "parts RouteNotFound = (404, ''route_not_found'')"
| "parts Forbidden = (403, ''forbidden'')"
| "parts Unauthorized = (401, ''unauthorized'')"
| "parts TooManyRequests = (429, ''rate_limited'')"
| "parts PayloadTooLarge = (413, ''payload_too_large'')"
| "parts NoHealthyUpstream = (503, ''no_healthy_upstream'')"
| "parts UpstreamTimeout = (504, ''upstream_timeout'')"
| "parts UpstreamConnect = (502, ''upstream_connect_error'')"
| "parts UpstreamMissing = (502, ''bad_gateway'')"
| "parts BadGateway = (502, ''bad_gateway'')"

definition is_client_error :: "GatewayError \<Rightarrow> bool" where
  "is_client_error e =
     (e \<in> {RouteNotFound, Forbidden, Unauthorized, TooManyRequests, PayloadTooLarge})"

definition error_response :: "'h header_api \<Rightarrow> GatewayError \<Rightarrow> string \<Rightarrow> 'h response" where
  "error_response api err request_id =
     (let (status, code) = parts err;
          body = [CHR ''{'', CHR 0x22] @ ''error'' @ [CHR 0x22, CHR '':'', CHR 0x22] @ code @
                 [CHR 0x22, CHR ''}'', CHR 0x0A];
          h0 = hm_insert api (hm_empty api) ''content-type'' ''application/json'';
          h1 = (case header_value api request_id of
                  Some v \<Rightarrow> hm_insert api h0 ''x-request-id'' v
                | None \<Rightarrow> h0);
          h2 = (if err = TooManyRequests then hm_insert api h1 ''retry-after'' ''1'' else h1);
          h3 = (if err = Unauthorized
                then hm_insert api h2 ''www-authenticate''
                       (''Basic realm='' @ [CHR 0x22] @ ''restricted'' @ [CHR 0x22])
                else h2)
      in \<lparr>res_status = status, res_headers = h3, res_body = body\<rparr>)"


section \<open>Rewriting the request's headers\<close>

definition set_header :: "'h header_api \<Rightarrow> 'h \<Rightarrow> string \<Rightarrow> string \<Rightarrow> 'h" where
  "set_header api headers name value =
     (case header_value api value of Some v \<Rightarrow> hm_insert api headers name v | None \<Rightarrow> headers)"

definition append_forwarded_for :: "'h header_api \<Rightarrow> 'h \<Rightarrow> ip_addr \<Rightarrow> 'h" where
  "append_forwarded_for api headers ip =
     (let value =
        (case header_str api headers ''x-forwarded-for'' of
           Some existing \<Rightarrow> existing @ '', '' @ ip_to_string ip
         | None \<Rightarrow> ip_to_string ip)
      in set_header api headers ''x-forwarded-for'' value)"

definition rewrite_headers ::
  "'h header_api \<Rightarrow> 'h \<Rightarrow> string \<Rightarrow> string \<Rightarrow> ip_addr \<Rightarrow> string \<Rightarrow> 'h" where
  "rewrite_headers api headers fwd_host scheme remote request_id =
     (let h0 = hm_remove api (foldl (hm_remove api) headers HOP_BY_HOP) ''host'';
          h1 = append_forwarded_for api h0 remote;
          h2 = set_header api h1 ''x-forwarded-host'' fwd_host;
          h3 = set_header api h2 ''x-forwarded-proto'' scheme
      in set_header api h3 ''x-request-id'' request_id)"


section \<open>Who is asking\<close>

definition resolve_client_ip ::
  "'n net_api \<Rightarrow> ip_addr \<Rightarrow> string option \<Rightarrow> 'n list \<Rightarrow> ip_addr" where
  "resolve_client_ip net peer xff trusted =
     (let is_trusted = (\<lambda>ip. list_ex (\<lambda>n. net_contains net n ip) trusted)
      in if trusted = [] \<or> \<not> is_trusted peer then peer
         else case xff of
                None \<Rightarrow> peer
              | Some s \<Rightarrow>
                  (case find (\<lambda>ip. \<not> is_trusted ip)
                          (List.map_filter (\<lambda>hop. parse_ip (trim hop)) (rsplit_on (CHR '','') s)) of
                     Some ip \<Rightarrow> ip
                   | None \<Rightarrow> peer))"

definition request_host :: "'h header_api \<Rightarrow> 'h request \<Rightarrow> string" where
  "request_host api req =
     (let raw =
        (case header_str api (rq_headers req) ''host'' of
           Some h \<Rightarrow> h
         | None \<Rightarrow> (case rq_authority req of Some a \<Rightarrow> a | None \<Rightarrow> []))
      in to_ascii_lowercase (first_piece (CHR '':'') raw))"

text \<open>\<open>s.as_bytes()\<close>\<close>

definition as_bytes :: "string \<Rightarrow> u8 list" where
  "as_bytes s = map (\<lambda>c. of_nat (of_char c)) s"

definition constant_time_eq :: "string \<Rightarrow> string \<Rightarrow> bool" where
  "constant_time_eq a b =
     (if length a \<noteq> length b then False
      else foldl (\<lambda>diff (x, y). diff OR (x XOR y)) (0 :: u8) (zip (as_bytes a) (as_bytes b)) = 0)"

definition basic_auth_ok ::
  "'h header_api \<Rightarrow> (string \<Rightarrow> string option) \<Rightarrow> 'h \<Rightarrow> (string \<rightharpoonup> string) \<Rightarrow> bool" where
  "basic_auth_ok api b64_decode headers users =
     (case header_str api headers ''authorization'' of
        None \<Rightarrow> False
      | Some value \<Rightarrow>
          (case (case strip_prefix ''Basic '' value of
                   Some b64 \<Rightarrow> Some b64
                 | None \<Rightarrow> strip_prefix ''basic '' value) of
             None \<Rightarrow> False
           | Some b64 \<Rightarrow>
               (case b64_decode (trim b64) of
                  None \<Rightarrow> False
                | Some decoded \<Rightarrow>
                    (case from_utf8 decoded of
                       None \<Rightarrow> False
                     | Some creds \<Rightarrow>
                         (case split_once (CHR '':'') creds of
                            None \<Rightarrow> False
                          | Some (user, pass) \<Rightarrow>
                              (case users user of
                                 Some expected \<Rightarrow> constant_time_eq pass expected
                               | None \<Rightarrow> False))))))"

definition is_upgrade :: "'h header_api \<Rightarrow> 'h request \<Rightarrow> bool" where
  "is_upgrade api req =
     (let connection_upgrade =
        (case header_str api (rq_headers req) ''connection'' of
           Some v \<Rightarrow> list_ex (\<lambda>t. eq_ignore_ascii_case (trim t) ''upgrade'') (split_on (CHR '','') v)
         | None \<Rightarrow> False)
      in connection_upgrade \<and> hm_contains api (rq_headers req) ''upgrade'')"


section \<open>Body limits\<close>

definition content_length :: "'h header_api \<Rightarrow> 'h \<Rightarrow> usize option" where
  "content_length api headers =
     Option.bind (header_str api headers ''content-length'') parse_usize"

definition body_exceeds_limit :: "'h header_api \<Rightarrow> 'h \<Rightarrow> u64 \<Rightarrow> bool" where
  "body_exceeds_limit api headers max_body_bytes =
     (0 < max_body_bytes \<and>
      (case content_length api headers of Some len \<Rightarrow> max_body_bytes < len | None \<Rightarrow> False))"


section \<open>Request ids\<close>

text \<open>\<open>format!("{nanos:x}{seq:08x}")\<close>: the counter is fetched and incremented, wrapping.\<close>

definition generate_request_id :: "nat \<Rightarrow> u64 \<Rightarrow> string \<times> u64" where
  "generate_request_id nanos counter =
     (let hex = hex_of_nat (unat counter)
      in (hex_of_nat nanos @ replicate (8 - length hex) (CHR ''0'') @ hex, counter + 1))"

definition ensure_request_id :: "'h header_api \<Rightarrow> 'h request \<Rightarrow> nat \<Rightarrow> u64 \<Rightarrow> string \<times> u64" where
  "ensure_request_id api req nanos counter =
     (case header_str api (rq_headers req) ''x-request-id'' of
        Some s \<Rightarrow> if s \<noteq> [] then (s, counter) else generate_request_id nanos counter
      | None \<Rightarrow> generate_request_id nanos counter)"


section \<open>Forwarded headers\<close>

lemma text_ip_to_string: "c \<in> set (ip_to_string ip) \<Longrightarrow> text_byte c"
  using graphic_ip_to_string graphic_text_byte by blast

lemma text_comma_space: "text_byte CHR '',''" "text_byte CHR '' ''"
  by (simp_all add: text_byte_def)

text \<open>The value the forwarding header gets: what was there, and the peer.\<close>

definition forwarded_value :: "'h header_api \<Rightarrow> 'h \<Rightarrow> ip_addr \<Rightarrow> string" where
  "forwarded_value api h ip =
     (case header_str api h ''x-forwarded-for'' of
        Some existing \<Rightarrow> existing @ '', '' @ ip_to_string ip
      | None \<Rightarrow> ip_to_string ip)"

context header_map
begin

lemma set_header_other: "m \<noteq> n \<Longrightarrow> hm_get_all api (set_header api h n v) m = hm_get_all api h m"
  by (simp add: set_header_def get_all_insert split: option.splits)

lemma set_header_text:
  "\<forall>c \<in> set v. text_byte c \<Longrightarrow> hm_get_all api (set_header api h n v) n = [v]"
  by (simp add: set_header_def get_all_insert header_value_text)

lemma text_forwarded_value: "\<forall>c \<in> set (forwarded_value api h ip). text_byte c"
  using header_str_text[of h "''x-forwarded-for''"] text_ip_to_string text_comma_space
  by (auto simp: forwarded_value_def split: option.splits)

lemma append_forwarded_for_get_all:
  "hm_get_all api (append_forwarded_for api h ip) m =
     (if m = ''x-forwarded-for'' then [forwarded_value api h ip] else hm_get_all api h m)"
  using set_header_text[OF text_forwarded_value] set_header_other
  by (simp add: append_forwarded_for_def forwarded_value_def)

lemma header_str_single:
  "hm_get_all api h n = [v] \<Longrightarrow> \<forall>c \<in> set v. text_byte c \<Longrightarrow> header_str api h n = Some v"
  by (simp add: header_str_cases)

text \<open>Every header of the rewritten request.\<close>

lemma rewrite_headers_get_all:
  assumes "\<forall>c \<in> set fwd_host. text_byte c" "\<forall>c \<in> set scheme. text_byte c" "\<forall>c \<in> set rid. text_byte c"
  shows "hm_get_all api (rewrite_headers api h fwd_host scheme remote rid) n =
    (if n = ''x-request-id'' then [rid]
     else if n = ''x-forwarded-proto'' then [scheme]
     else if n = ''x-forwarded-host'' then [fwd_host]
     else if n = ''x-forwarded-for'' then [forwarded_value api h remote]
     else if n \<in> set HOP_BY_HOP \<or> n = ''host'' then []
     else hm_get_all api h n)"
proof -
  let ?h0 = "hm_remove api (foldl (hm_remove api) h HOP_BY_HOP) ''host''"
  have h0: "hm_get_all api ?h0 m = (if m \<in> set HOP_BY_HOP \<or> m = ''host'' then [] else hm_get_all api h m)" for m
    by (simp add: get_all_remove get_all_remove_fold)
  then have "header_str api ?h0 ''x-forwarded-for'' = header_str api h ''x-forwarded-for''"
    by (intro header_str_cong) (simp add: HOP_BY_HOP_def)
  then have fv: "forwarded_value api ?h0 remote = forwarded_value api h remote" by (simp add: forwarded_value_def)
  show ?thesis
    by (simp add: rewrite_headers_def Let_def set_header_def header_value_text assms get_all_insert
        append_forwarded_for_get_all fv h0)
qed

end


section \<open>Resolving the client\<close>

abbreviation trusts :: "'n net_api \<Rightarrow> 'n list \<Rightarrow> ip_addr \<Rightarrow> bool" where
  "trusts net trusted ip \<equiv> \<exists>n \<in> set trusted. net_contains net n ip"

text \<open>The hops of a forwarding header, nearest first.\<close>

definition hops :: "string \<Rightarrow> ip_addr list" where
  "hops s = List.map_filter (\<lambda>hop. parse_ip (trim hop)) (rsplit_on (CHR '','') s)"

lemma resolve_client_ip_hops:
  "resolve_client_ip net peer xff trusted =
     (if \<not> trusts net trusted peer then peer
      else case xff of
             None \<Rightarrow> peer
           | Some s \<Rightarrow> (case find (\<lambda>ip. \<not> trusts net trusted ip) (hops s) of Some ip \<Rightarrow> ip | None \<Rightarrow> peer))"
  by (auto simp: resolve_client_ip_def Let_def list_ex_iff hops_def split: option.splits)

lemma hops_append:
  assumes "\<forall>c \<in> set t. graphic c \<and> c \<noteq> CHR '',''"
  shows "hops (s @ '', '' @ t) = (case parse_ip t of Some ip \<Rightarrow> [ip] | None \<Rightarrow> []) @ hops s"
    and "hops t = (case parse_ip t of Some ip \<Rightarrow> [ip] | None \<Rightarrow> [])"
proof -
  have no: "CHR '','' \<notin> set (CHR '' '' # t)" "CHR '','' \<notin> set t" using assms by auto
  have "rsplit_on CHR '','' (s @ '', '' @ t) = (CHR '' '' # t) # rsplit_on CHR '','' s"
    using rsplit_on_snoc[OF no(1), of s] by simp
  moreover have "trim (CHR '' '' # t) = t" "trim t = t"
    using assms by (simp_all add: trim_space_graphic trim_graphic)
  moreover have "rsplit_on CHR '','' t = [t]" using no(2) by (simp add: rsplit_on_def split_on_no_sep)
  ultimately show "hops (s @ '', '' @ t) = (case parse_ip t of Some ip \<Rightarrow> [ip] | None \<Rightarrow> []) @ hops s"
    "hops t = (case parse_ip t of Some ip \<Rightarrow> [ip] | None \<Rightarrow> [])"
    by (simp_all add: hops_def List.map_filter_def split: option.splits)
qed

context header_map
begin

text \<open>The peer's address is read back as the nearest hop, before the hops that were there.\<close>

lemma hops_forwarded_value:
  "hops (forwarded_value api h ip) =
     ip # (case header_str api h ''x-forwarded-for'' of Some s \<Rightarrow> hops s | None \<Rightarrow> [])"
  using hops_append[of "ip_to_string ip"] graphic_ip_to_string[of _ ip] parse_ip_to_string[of ip]
  by (auto simp: forwarded_value_def split: option.splits)

end


section \<open>Comparing secrets\<close>

lemma fold_or_zero:
  "foldl (\<lambda>diff (x, y). diff OR (x XOR y)) d (zip xs ys) = (0 :: u8) \<longleftrightarrow>
     d = 0 \<and> (\<forall>(x, y) \<in> set (zip xs ys). x = y)"
proof (induction xs arbitrary: d ys)
  case Nil
  show ?case by simp
next
  case (Cons x xs)
  have "a OR b = 0 \<longleftrightarrow> a = 0 \<and> b = 0" for a b :: u8
    by (simp add: or_eq_0_iff)
  moreover have "x XOR y = 0 \<longleftrightarrow> x = y" for x y :: u8
    by (auto simp: bit_eq_iff bit_xor_iff)
  ultimately show ?case by (cases ys) (auto simp: Cons.IH)
qed

lemma of_char_byte_inj: "(of_nat (of_char c) :: u8) = of_nat (of_char d) \<longleftrightarrow> c = d"
proof -
  have "unat (of_nat (of_char c) :: u8) = of_char c" for c
    by (simp add: unat_of_nat)
  then show ?thesis by (metis of_char_eq_iff)
qed

lemma constant_time_eq_iff: "constant_time_eq a b \<longleftrightarrow> a = b"
proof (cases "length a = length b")
  case True
  have "(\<forall>(x, y) \<in> set (zip (as_bytes a) (as_bytes b)). x = y) \<longleftrightarrow>
      (\<forall>(c, d) \<in> set (zip a b). c = d)"
    by (simp add: as_bytes_def zip_map_map of_char_byte_inj case_prod_unfold)
  also have "\<dots> \<longleftrightarrow> a = b"
    using True by (induction a b rule: list_induct2) auto
  finally show ?thesis using True by (simp add: constant_time_eq_def fold_or_zero)
next
  case False
  then show ?thesis by (auto simp: constant_time_eq_def)
qed


section \<open>Request ids\<close>

lemma hex_of_nat_length: "n < 16 ^ Suc k \<Longrightarrow> length (hex_of_nat n) \<le> Suc k"
proof (induction k arbitrary: n)
  case 0
  then show ?case by (simp add: hex_of_nat.simps[of n])
next
  case (Suc k)
  then have "n div 16 < 16 ^ Suc k" by (simp add: less_mult_imp_div_less mult.commute)
  then show ?case using Suc.IH[of "n div 16"] by (simp add: hex_of_nat.simps[of n])
qed

fun hex_value :: "nat \<Rightarrow> nat list \<Rightarrow> nat" where
  "hex_value acc [] = acc"
| "hex_value acc (d # ds) = hex_value (acc * 16 + d) ds"

definition hex_digit_value :: "char \<Rightarrow> nat" where
  "hex_digit_value c = (let b = of_char c :: nat in if b < 58 then b - 48 else b - 87)"

lemma hex_digit_value_inv: "d < 16 \<Longrightarrow> hex_digit_value (hex_digit d) = d"
  by (simp add: hex_digit_value_def hex_digit_def)

lemma hex_value_append: "hex_value acc (xs @ [d]) = hex_value acc xs * 16 + d"
  by (induction xs arbitrary: acc) simp_all

text \<open>Reading the digits back gives the number, leading zeros or not.\<close>

lemma hex_value_of_nat: "hex_value 0 (map hex_digit_value (hex_of_nat n)) = n"
proof (induction n rule: hex_of_nat.induct)
  case (1 n)
  then show ?case
    by (simp add: hex_of_nat.simps[of n] hex_digit_value_inv hex_value_append)
qed

lemma hex_value_zeros: "hex_value 0 (replicate k 0 @ ds) = hex_value 0 ds"
  by (induction k) simp_all

lemma hex_zero: "hex_digit_value CHR ''0'' = 0"
  by (simp add: hex_digit_value_def)

lemma request_id_suffix:
  assumes "unat seq < 2 ^ 32"
  shows "length (replicate (8 - length (hex_of_nat (unat seq))) CHR ''0'' @ hex_of_nat (unat seq)) = 8"
    and "hex_value 0 (map hex_digit_value
      (replicate (8 - length (hex_of_nat (unat seq))) CHR ''0'' @ hex_of_nat (unat seq))) = unat seq"
proof -
  have "length (hex_of_nat (unat seq)) \<le> 8" using hex_of_nat_length[of "unat seq" 7] assms by simp
  then show "length (replicate (8 - length (hex_of_nat (unat seq))) CHR ''0'' @ hex_of_nat (unat seq)) = 8"
    by simp
  show "hex_value 0 (map hex_digit_value
      (replicate (8 - length (hex_of_nat (unat seq))) CHR ''0'' @ hex_of_nat (unat seq))) = unat seq"
    by (simp add: hex_zero hex_value_zeros hex_value_of_nat)
qed


section \<open>Properties\<close>

text \<open>C17. The client address: a peer outside the trusted networks is the client whatever
  \<open>X-Forwarded-For\<close> says; behind a trusted peer the client is the nearest hop that is not
  trusted, every hop nearer than it being trusted, and the peer when there is none.\<close>

theorem resolve_client_ip_spec:
  "(\<not> trusts net trusted peer \<longrightarrow> resolve_client_ip net peer xff trusted = peer) \<and>
   (trusts net trusted peer \<longrightarrow>
      (\<exists>s nearer farther. xff = Some s \<and> hops s = nearer @ resolve_client_ip net peer xff trusted # farther \<and>
         \<not> trusts net trusted (resolve_client_ip net peer xff trusted) \<and> (\<forall>h \<in> set nearer. trusts net trusted h)) \<or>
      resolve_client_ip net peer xff trusted = peer \<and>
         (\<forall>s. xff = Some s \<longrightarrow> (\<forall>h \<in> set (hops s). trusts net trusted h)))"
proof (cases "trusts net trusted peer \<and> xff \<noteq> None")
  case True
  then obtain s where s: "xff = Some s" "trusts net trusted peer" by auto
  show ?thesis
  proof (cases "find (\<lambda>ip. \<not> trusts net trusted ip) (hops s)")
    case None
    then have "resolve_client_ip net peer xff trusted = peer" using s by (simp add: resolve_client_ip_hops)
    then show ?thesis using s None unfolding find_None_iff by blast
  next
    case (Some ip)
    then obtain i where i: "i < length (hops s)" "\<not> trusts net trusted ip" "ip = hops s ! i"
      "\<forall>j < i. trusts net trusted (hops s ! j)"
      by (auto simp: find_Some_iff)
    then have "hops s = take i (hops s) @ ip # drop (Suc i) (hops s)"
      by (simp add: id_take_nth_drop[symmetric])
    moreover have "\<forall>h \<in> set (take i (hops s)). trusts net trusted h"
      using i by (auto simp: in_set_conv_nth)
    moreover have "resolve_client_ip net peer xff trusted = ip"
      using s Some by (simp add: resolve_client_ip_hops)
    ultimately show ?thesis using s i(2) by blast
  qed
qed (auto simp: resolve_client_ip_hops split: option.splits)

text \<open>C30. Two gateways in a row with the same trusted networks agree on the client: what the first
  one appends to \<open>X-Forwarded-For\<close> makes the second one, which trusts the first, resolve the
  client the first one resolved, for IPv4 and IPv6 addresses, for trusted and untrusted peers and
  whatever headers the client sent. Only when every address of the chain is trusted is there no
  client to agree on: then each takes its own peer.\<close>

theorem forwarded_chain_resolves:
  fixes net :: "'n net_api" and trusted :: "'n list" and api :: "'h header_api" and h :: 'h and peer :: ip_addr
  defines "client \<equiv> resolve_client_ip net peer (header_str api h ''x-forwarded-for'') trusted"
  assumes "header_map api"
    and "\<forall>c \<in> set fwd_host. text_byte c" and "\<forall>c \<in> set scheme. text_byte c" and "\<forall>c \<in> set rid. text_byte c"
    and "trusts net trusted gateway"
  shows "resolve_client_ip net gateway
      (header_str api (rewrite_headers api h fwd_host scheme peer rid) ''x-forwarded-for'') trusted =
    (if trusts net trusted client then gateway else client)"
proof -
  let ?untrusted = "find (\<lambda>ip. \<not> trusts net trusted ip)"
  let ?old = "case header_str api h ''x-forwarded-for'' of Some s \<Rightarrow> hops s | None \<Rightarrow> []"
  have "hm_get_all api (rewrite_headers api h fwd_host scheme peer rid) ''x-forwarded-for'' = [forwarded_value api h peer]"
    by (simp add: header_map.rewrite_headers_get_all[OF assms(2-5)])
  then have x: "header_str api (rewrite_headers api h fwd_host scheme peer rid) ''x-forwarded-for'' =
      Some (forwarded_value api h peer)"
    by (rule header_map.header_str_single[OF assms(2)]) (rule header_map.text_forwarded_value[OF assms(2)])
  have "client = (if trusts net trusted peer then case ?untrusted ?old of Some ip \<Rightarrow> ip | None \<Rightarrow> peer else peer)"
    by (auto simp: client_def resolve_client_ip_hops split: option.splits)
  moreover have "\<not> trusts net trusted ip" if "?untrusted ?old = Some ip" for ip
    using that unfolding find_Some_iff by blast
  ultimately show ?thesis using assms(6)
    by (auto simp: x resolve_client_ip_hops header_map.hops_forwarded_value[OF assms(2)] split: option.splits)
qed

text \<open>C31. The request sent upstream: hop-by-hop headers and \<open>Host\<close> are gone, the four forwarding
  headers have exactly one value each, and every other header is as the client sent it.\<close>

theorem rewrite_headers_complete:
  assumes "header_map api"
    and "\<forall>c \<in> set fwd_host. text_byte c" and "\<forall>c \<in> set scheme. text_byte c" and "\<forall>c \<in> set rid. text_byte c"
  shows "hm_get_all api (rewrite_headers api h fwd_host scheme remote rid) n =
    (if n = ''x-request-id'' then [rid]
     else if n = ''x-forwarded-proto'' then [scheme]
     else if n = ''x-forwarded-host'' then [fwd_host]
     else if n = ''x-forwarded-for'' then [forwarded_value api h remote]
     else if n \<in> set HOP_BY_HOP \<or> n = ''host'' then []
     else hm_get_all api h n)"
  using assms by (rule header_map.rewrite_headers_get_all)

text \<open>C32. Basic authentication succeeds exactly when the header carries, after the scheme, the
  base64 of valid UTF-8 \<open>user:password\<close>, split at the first colon, with the password the
  configuration has for that user.\<close>

theorem basic_auth_ok_iff:
  "basic_auth_ok api b64_decode h users \<longleftrightarrow>
     (\<exists>b64 user pass.
        (header_str api h ''authorization'' = Some (''Basic '' @ b64) \<or>
         header_str api h ''authorization'' = Some (''basic '' @ b64)) \<and>
        b64_decode (trim b64) = Some (user @ '':'' @ pass) \<and> utf8_valid (user @ '':'' @ pass) \<and>
        CHR '':'' \<notin> set user \<and> users user = Some pass)"
proof -
  have scheme: "(case strip_prefix ''Basic '' v of Some b \<Rightarrow> Some b | None \<Rightarrow> strip_prefix ''basic '' v) = Some b \<longleftrightarrow>
      v = ''Basic '' @ b \<or> v = ''basic '' @ b" for v b
    by (auto simp: strip_prefix_Some_iff strip_prefix_None_iff split: option.splits)
  have utf8: "from_utf8 raw = Some raw \<longleftrightarrow> utf8_valid raw" for raw by (simp add: from_utf8_def)
  have "basic_auth_ok api b64_decode h users \<longleftrightarrow>
      (\<exists>v b64 raw user pass. header_str api h ''authorization'' = Some v \<and>
        (case strip_prefix ''Basic '' v of Some b \<Rightarrow> Some b | None \<Rightarrow> strip_prefix ''basic '' v) = Some b64 \<and>
        b64_decode (trim b64) = Some raw \<and> from_utf8 raw = Some raw \<and>
        split_once CHR '':'' raw = Some (user, pass) \<and> users user = Some pass)"
    by (auto simp: basic_auth_ok_def from_utf8_def constant_time_eq_iff split: option.splits prod.splits if_splits)
  then show ?thesis unfolding scheme split_once_Some_iff utf8 append_Cons append_Nil by blast
qed

text \<open>Generated request ids are distinct: the ids of two different counter values below
  \<open>2^32\<close> differ, whatever the clock says.\<close>

theorem request_ids_distinct:
  assumes "unat m < 2 ^ 32" and "unat n < 2 ^ 32" and "m \<noteq> n"
  shows "fst (generate_request_id t m) \<noteq> fst (generate_request_id t' n)"
proof
  assume eq: "fst (generate_request_id t m) = fst (generate_request_id t' n)"
  let ?pad = "\<lambda>s::u64. replicate (8 - length (hex_of_nat (unat s))) CHR ''0'' @ hex_of_nat (unat s)"
  have "hex_of_nat t @ ?pad m = hex_of_nat t' @ ?pad n"
    using eq by (simp add: generate_request_id_def Let_def)
  then have "?pad m = ?pad n"
    using request_id_suffix(1)[OF assms(1)] request_id_suffix(1)[OF assms(2)] append_eq_append_conv by metis
  then have "unat m = unat n"
    using request_id_suffix(2)[OF assms(1)] request_id_suffix(2)[OF assms(2)] by metis
  then show False using assms(3) by (simp add: word_unat_eq_iff)
qed

text \<open>Error responses: client errors are exactly the 4xx statuses, the body is JSON, the
  request id is echoed, 429 carries \<open>Retry-After\<close> and 401 the authentication challenge.\<close>

theorem error_response_shape:
  assumes "header_map api" and "\<forall>c \<in> set rid. text_byte c"
  shows "res_status (error_response api e rid) = fst (parts e) \<and>
    is_client_error e = (400 \<le> fst (parts e) \<and> fst (parts e) < 500) \<and>
    hm_get_all api (res_headers (error_response api e rid)) n =
      (if n = ''content-type'' then [''application/json'']
       else if n = ''x-request-id'' then [rid]
       else if n = ''retry-after'' \<and> e = TooManyRequests then [''1'']
       else if n = ''www-authenticate'' \<and> e = Unauthorized
            then [''Basic realm='' @ [CHR 0x22] @ ''restricted'' @ [CHR 0x22]]
       else [])"
  using header_map.header_value_text[OF assms] header_map.get_all_insert[OF assms(1)]
    header_map.get_all_empty[OF assms(1)]
  by (cases e) (simp_all add: error_response_def is_client_error_def Let_def)


section \<open>Witnesses\<close>

definition office_net :: "(ip_addr \<times> nat) list" where
  "office_net = [(V4 10 0 0 0, 8)]"

lemma office_trust:
  "trusts prefix_nets office_net (V4 10 0 0 1)" "\<not> trusts prefix_nets office_net (V4 203 0 113 7)"
  by (simp_all add: office_net_def prefix_nets_def prefix_contains_def)

theorem resolve_client_ip_spec_witness:
  "resolve_client_ip prefix_nets (V4 203 0 113 7) (Some ''1.2.3.4'') office_net = V4 203 0 113 7"
  using resolve_client_ip_spec[where net = prefix_nets and trusted = office_net and peer = "V4 203 0 113 7"
      and xff = "Some ''1.2.3.4''"] office_trust
  by blast

lemma text_http: "\<forall>c \<in> set ''http''. text_byte c" "\<forall>c \<in> set ''a.com''. text_byte c" "\<forall>c \<in> set ''id1''. text_byte c"
  by (simp_all add: text_byte_def)

lemma office_trust_v6: "\<not> trusts prefix_nets office_net (V6 0x2001 0xdb8 0 0 0 0 0 1)"
  by (simp add: office_net_def prefix_nets_def prefix_contains_def)

theorem forwarded_chain_resolves_witness:
  "resolve_client_ip prefix_nets (V4 10 0 0 1)
     (header_str list_headers (rewrite_headers list_headers [(''x-forwarded-for'', ''10.0.0.9'')] ''a.com'' ''http''
        (V6 0x2001 0xdb8 0 0 0 0 0 1) ''id1'') ''x-forwarded-for'') office_net = V6 0x2001 0xdb8 0 0 0 0 0 1"
  using forwarded_chain_resolves[OF list_headers.header_map_axioms text_http(2,1,3) office_trust(1),
      of "[(''x-forwarded-for'', ''10.0.0.9'')]" "V6 0x2001 0xdb8 0 0 0 0 0 1"] office_trust_v6
  by (simp add: resolve_client_ip_hops)

theorem rewrite_headers_complete_witness:
  "hm_get_all list_headers (rewrite_headers list_headers [(''te'', ''x''), (''accept'', ''y'')] ''a.com'' ''http''
     (V4 10 0 0 1) ''id1'') ''te'' = [] \<and>
   hm_get_all list_headers (rewrite_headers list_headers [(''te'', ''x''), (''accept'', ''y'')] ''a.com'' ''http''
     (V4 10 0 0 1) ''id1'') ''accept'' = [''y'']"
  unfolding rewrite_headers_complete[OF list_headers.header_map_axioms text_http(2,1,3)]
  by (simp add: HOP_BY_HOP_def list_headers_def list_get_all_def)

theorem request_ids_distinct_witness:
  "fst (generate_request_id 7 0) \<noteq> fst (generate_request_id 7 1)"
  by (rule request_ids_distinct) simp_all

theorem error_response_shape_witness:
  "hm_get_all list_headers (res_headers (error_response list_headers TooManyRequests ''id1'')) ''retry-after'' = [''1'']"
  using error_response_shape[OF list_headers.header_map_axioms text_http(3), of TooManyRequests "''retry-after''"]
  by simp

end
