(* ===== verification/Compress.thy ===== *)
theory Compress
  imports Proxy
begin

text \<open>
  Response compression (\<open>gatepup-proxy/src/compress.rs\<close>): negotiation over
  \<open>Accept-Encoding\<close>, eligibility of the response, and the rewrite of its headers. The two
  encoders are parameters from bytes to bytes; a response body is the bytes of its data
  frames (trailers are dropped by \<open>compress\<close>).
\<close>

datatype Encoding = Gzip | Br

fun token :: "Encoding \<Rightarrow> string" where
  "token Gzip = ''gzip''"
| "token Br = ''br''"

text \<open>One turn of the loop over the \<open>Accept-Encoding\<close> tokens.\<close>

definition note_token :: "bool \<times> bool \<times> bool \<Rightarrow> string \<Rightarrow> bool \<times> bool \<times> bool" where
  "note_token st tok =
     (let (br, gzip, any) = st;
          name = to_ascii_lowercase (trim (first_piece (CHR '';'') tok))
      in if name = ''br'' then (True, gzip, any)
         else if name = ''gzip'' then (br, True, any)
         else if name = ''*'' then (br, gzip, True)
         else (br, gzip, any))"

definition choose_encoding :: "string \<Rightarrow> Compression \<Rightarrow> Encoding option" where
  "choose_encoding accept_encoding cmp =
     (let (br, gzip, any) = foldl note_token (False, False, False) (split_on (CHR '','') accept_encoding)
      in if co_br cmp \<and> (br \<or> any) then Some Br
         else if co_gzip cmp \<and> (gzip \<or> any) then Some Gzip
         else None)"

definition should_compress :: "'h header_api \<Rightarrow> 'h \<Rightarrow> Compression \<Rightarrow> bool" where
  "should_compress api headers cmp =
     (if hm_contains api headers ''content-encoding'' then False
      else
        let content_type =
              (case header_str api headers ''content-type'' of
                 Some v \<Rightarrow> to_ascii_lowercase (trim (first_piece (CHR '';'') v))
               | None \<Rightarrow> [])
        in if content_type \<notin> co_types cmp then False
           else case Option.bind (header_str api headers ''content-length'') parse_u64 of
                  Some len \<Rightarrow> \<not> (len < co_min_bytes cmp)
                | None \<Rightarrow> True)"

definition append_vary_accept_encoding :: "'h header_api \<Rightarrow> 'h \<Rightarrow> 'h" where
  "append_vary_accept_encoding api headers =
     (let already =
        (case header_str api headers ''vary'' of
           Some v \<Rightarrow> str_contains ''accept-encoding'' (to_ascii_lowercase v)
         | None \<Rightarrow> False)
      in if already then headers else hm_append api headers ''vary'' ''Accept-Encoding'')"

definition compress ::
  "'h header_api \<Rightarrow> (Encoding \<Rightarrow> string \<Rightarrow> string) \<Rightarrow> 'h response \<Rightarrow> Encoding \<Rightarrow> 'h response" where
  "compress api encode resp enc =
     (let out = encode enc (res_body resp);
          h1 = hm_remove api (res_headers resp) ''content-length'';
          h2 = hm_insert api h1 ''content-encoding'' (token enc)
      in \<lparr>res_status = res_status resp, res_headers = append_vary_accept_encoding api h2, res_body = out\<rparr>)"

definition maybe_compress ::
  "'h header_api \<Rightarrow> (Encoding \<Rightarrow> string \<Rightarrow> string) \<Rightarrow> 'h response \<Rightarrow> string \<Rightarrow> Compression \<Rightarrow> 'h response" where
  "maybe_compress api encode resp accept_encoding cmp =
     (if \<not> should_compress api (res_headers resp) cmp then resp
      else case choose_encoding accept_encoding cmp of
             Some enc \<Rightarrow> compress api encode resp enc
           | None \<Rightarrow> resp)"


section \<open>Negotiation\<close>

definition accepts :: "string \<Rightarrow> string \<Rightarrow> bool" where
  "accepts accept_encoding name =
     (\<exists>t \<in> set (split_on (CHR '','') accept_encoding).
        to_ascii_lowercase (trim (first_piece (CHR '';'') t)) = name)"

lemma note_tokens:
  "foldl note_token st ts =
     (fst st \<or> (\<exists>t \<in> set ts. to_ascii_lowercase (trim (first_piece (CHR '';'') t)) = ''br''),
      fst (snd st) \<or> (\<exists>t \<in> set ts. to_ascii_lowercase (trim (first_piece (CHR '';'') t)) = ''gzip''),
      snd (snd st) \<or> (\<exists>t \<in> set ts. to_ascii_lowercase (trim (first_piece (CHR '';'') t)) = ''*''))"
proof (induction ts arbitrary: st)
  case Nil
  show ?case by simp
next
  case (Cons t ts)
  show ?case by (cases st) (simp only: foldl_Cons Cons.IH, auto simp: note_token_def Let_def)
qed

lemma choose_encoding_accepts:
  "choose_encoding a cmp =
     (if co_br cmp \<and> (accepts a ''br'' \<or> accepts a ''*'') then Some Br
      else if co_gzip cmp \<and> (accepts a ''gzip'' \<or> accepts a ''*'') then Some Gzip
      else None)"
  by (auto simp: choose_encoding_def note_tokens accepts_def)


section \<open>Headers of a compressed response\<close>

context header_map
begin

lemma append_vary_other:
  "n \<noteq> ''vary'' \<Longrightarrow> hm_get_all api (append_vary_accept_encoding api h) n = hm_get_all api h n"
  by (simp add: append_vary_accept_encoding_def Let_def get_all_append)

lemma append_vary_varies:
  "\<exists>v \<in> set (hm_get_all api (append_vary_accept_encoding api h) ''vary'').
     str_contains ''accept-encoding'' (to_ascii_lowercase v)"
proof (cases "header_str api h ''vary''")
  case None
  have "str_contains ''accept-encoding'' (to_ascii_lowercase ''Accept-Encoding'')" by code_simp
  then show ?thesis using None by (simp add: append_vary_accept_encoding_def get_all_append)
next
  case (Some v)
  then have "v \<in> set (hm_get_all api h ''vary'')"
    by (auto simp: header_str_cases split: list.splits if_splits)
  moreover have "str_contains ''accept-encoding'' (to_ascii_lowercase ''Accept-Encoding'')" by code_simp
  ultimately show ?thesis
    using Some by (auto simp: append_vary_accept_encoding_def get_all_append)
qed

lemma append_vary_keeps:
  "set (hm_get_all api h n) \<subseteq> set (hm_get_all api (append_vary_accept_encoding api h) n)"
  by (auto simp: append_vary_accept_encoding_def Let_def get_all_append)

lemma compress_get_all:
  assumes "n \<noteq> ''vary''"
  shows "hm_get_all api (res_headers (compress api encode resp enc)) n =
    (if n = ''content-encoding'' then [token enc]
     else if n = ''content-length'' then []
     else hm_get_all api (res_headers resp) n)"
  using assms by (simp add: compress_def Let_def append_vary_other get_all_insert get_all_remove)

end


section \<open>Properties\<close>

text \<open>C33. A response is compressed exactly when it is not encoded already, its content type is
  configured, its declared length is not below the minimum, and the client accepts an
  enabled encoding (brotli before gzip, \<open>*\<close> standing for either); otherwise it is
  returned unchanged.\<close>

theorem maybe_compress_decision:
  assumes "header_map api"
  shows "maybe_compress api encode resp a cmp =
    (if hm_get_all api (res_headers resp) ''content-encoding'' = [] \<and>
        (case header_str api (res_headers resp) ''content-type'' of
           Some v \<Rightarrow> to_ascii_lowercase (trim (first_piece (CHR '';'') v)) | None \<Rightarrow> []) \<in> co_types cmp \<and>
        (\<forall>len. Option.bind (header_str api (res_headers resp) ''content-length'') parse_u64 = Some len \<longrightarrow>
           co_min_bytes cmp \<le> len)
     then if co_br cmp \<and> (accepts a ''br'' \<or> accepts a ''*'') then compress api encode resp Br
          else if co_gzip cmp \<and> (accepts a ''gzip'' \<or> accepts a ''*'') then compress api encode resp Gzip
          else resp
     else resp)"
  by (auto simp: maybe_compress_def should_compress_def choose_encoding_accepts
      header_map.contains[OF assms] not_less split: option.splits)

text \<open>C34. A compressed response is consistent: \<open>Content-Encoding\<close> names the encoding, the stale
  \<open>Content-Length\<close> is gone, some \<open>Vary\<close> value covers \<open>Accept-Encoding\<close>, the status and all
  other headers are unchanged, and decoding the body gives the upstream's bytes back.\<close>

theorem compressed_response_consistent:
  assumes "header_map api" and "\<And>e b. decode e (encode e b) = b"
  shows "let r = compress api encode resp enc in
    res_status r = res_status resp \<and>
    hm_get_all api (res_headers r) ''content-encoding'' = [token enc] \<and>
    hm_get_all api (res_headers r) ''content-length'' = [] \<and>
    (\<exists>v \<in> set (hm_get_all api (res_headers r) ''vary''). str_contains ''accept-encoding'' (to_ascii_lowercase v)) \<and>
    (n \<notin> {''content-encoding'', ''content-length'', ''vary''} \<longrightarrow>
       hm_get_all api (res_headers r) n = hm_get_all api (res_headers resp) n) \<and>
    decode enc (res_body r) = res_body resp"
  using header_map.append_vary_varies[OF assms(1)] header_map.compress_get_all[OF assms(1)] assms(2)
  by (simp add: Let_def) (simp add: compress_def Let_def)

definition example_response :: "header_list response" where
  "example_response =
     \<lparr>res_status = 200, res_headers = [(''content-type'', ''text/html; charset=utf-8''), (''content-length'', ''5000'')],
      res_body = ''hello''\<rparr>"

definition example_compression :: Compression where
  "example_compression = \<lparr>co_gzip = True, co_br = True, co_min_bytes = 1024, co_types = {''text/html''}\<rparr>"

theorem maybe_compress_decision_witness:
  "maybe_compress list_headers (\<lambda>e b. token e @ b) example_response ''gzip, deflate'' example_compression
   = compress list_headers (\<lambda>e b. token e @ b) example_response Gzip"
proof -
  have h: "hm_get_all list_headers (res_headers example_response) ''content-encoding'' = []"
    "(case header_str list_headers (res_headers example_response) ''content-type'' of
       Some v \<Rightarrow> to_ascii_lowercase (trim (first_piece (CHR '';'') v)) | None \<Rightarrow> []) = ''text/html''"
    "Option.bind (header_str list_headers (res_headers example_response) ''content-length'') parse_u64 = Some 5000"
    by code_simp+
  have a: "accepts ''gzip, deflate'' ''gzip''" "\<not> accepts ''gzip, deflate'' ''br''" "\<not> accepts ''gzip, deflate'' ''*''"
    by code_simp+
  show ?thesis
    unfolding maybe_compress_decision[OF list_headers.header_map_axioms] h
    by (simp add: a example_compression_def)
qed

theorem compressed_response_consistent_witness:
  "hm_get_all list_headers (res_headers (compress list_headers (\<lambda>e b. token e @ b) example_response Br)) ''content-length'' = []"
  using compressed_response_consistent[OF list_headers.header_map_axioms,
      of "\<lambda>e b. drop (length (token e)) b" "\<lambda>e b. token e @ b" example_response Br]
  by (simp add: Let_def)

end
