(* ===== verification/Metrics_Model.thy ===== *)
theory Metrics_Model
  imports Config_Model
begin

text \<open>
  The counters of the proxy (\<open>gatepup-observability/src/metrics.rs\<close>). An \<open>IntCounter\<close> is a
  64-bit atomic, the duration histogram the list of its observations, and a labelled vector
  a map from label to value that creates a label when it is first used. The registry and
  the text exposition format are \<open>prometheus\<close>'s.
\<close>

record Metrics =
  mx_requests_total :: u64
  mx_request_duration :: "f64 list"
  mx_upstream_requests_total :: u64
  mx_upstream_errors_total :: u64
  mx_upstream_retries_total :: u64
  mx_route_not_found_total :: u64
  mx_upstream_healthy :: "string \<rightharpoonup> int"
  mx_config_reloads_total :: "string \<rightharpoonup> u64"
  mx_websocket_connections_total :: u64

definition Metrics_new :: Metrics where
  "Metrics_new =
     \<lparr>mx_requests_total = 0, mx_request_duration = [], mx_upstream_requests_total = 0,
      mx_upstream_errors_total = 0, mx_upstream_retries_total = 0, mx_route_not_found_total = 0,
      mx_upstream_healthy = Map.empty, mx_config_reloads_total = Map.empty,
      mx_websocket_connections_total = 0\<rparr>"

definition inc_requests :: "Metrics \<Rightarrow> Metrics" where
  "inc_requests m = m\<lparr>mx_requests_total := mx_requests_total m + 1\<rparr>"

definition observe_duration :: "f64 \<Rightarrow> Metrics \<Rightarrow> Metrics" where
  "observe_duration seconds m = m\<lparr>mx_request_duration := mx_request_duration m @ [seconds]\<rparr>"

definition inc_upstream_requests :: "Metrics \<Rightarrow> Metrics" where
  "inc_upstream_requests m = m\<lparr>mx_upstream_requests_total := mx_upstream_requests_total m + 1\<rparr>"

definition inc_upstream_errors :: "Metrics \<Rightarrow> Metrics" where
  "inc_upstream_errors m = m\<lparr>mx_upstream_errors_total := mx_upstream_errors_total m + 1\<rparr>"

definition inc_upstream_retries :: "Metrics \<Rightarrow> Metrics" where
  "inc_upstream_retries m = m\<lparr>mx_upstream_retries_total := mx_upstream_retries_total m + 1\<rparr>"

definition inc_route_not_found :: "Metrics \<Rightarrow> Metrics" where
  "inc_route_not_found m = m\<lparr>mx_route_not_found_total := mx_route_not_found_total m + 1\<rparr>"

definition inc_websocket :: "Metrics \<Rightarrow> Metrics" where
  "inc_websocket m = m\<lparr>mx_websocket_connections_total := mx_websocket_connections_total m + 1\<rparr>"

definition inc_config_reload :: "bool \<Rightarrow> Metrics \<Rightarrow> Metrics" where
  "inc_config_reload success m =
     (let result = (if success then ''success'' else ''failure'');
          old = (case mx_config_reloads_total m result of Some n \<Rightarrow> n | None \<Rightarrow> 0)
      in m\<lparr>mx_config_reloads_total := (mx_config_reloads_total m)(result \<mapsto> old + 1)\<rparr>)"

definition set_upstream_healthy :: "string \<Rightarrow> int \<Rightarrow> Metrics \<Rightarrow> Metrics" where
  "set_upstream_healthy upstream healthy m =
     m\<lparr>mx_upstream_healthy := (mx_upstream_healthy m)(upstream \<mapsto> healthy)\<rparr>"

text \<open>What each increment leaves alone, as rewrite rules.\<close>

lemmas metrics_defs = inc_requests_def observe_duration_def inc_upstream_requests_def
  inc_upstream_errors_def inc_upstream_retries_def inc_route_not_found_def inc_websocket_def
  inc_config_reload_def set_upstream_healthy_def Metrics_new_def

end
