(* ===== verification/Forward.thy ===== *)
theory Forward
  imports Compress Metrics_Model
begin

text \<open>
  One request through the proxy (\<open>forward\<close>, \<open>handle_upgrade\<close> and \<open>handle\<close> of
  \<open>gatepup-proxy/src/proxy.rs\<close>). The gateway's mutable state is passed explicitly: the target
  states and counters inside the snapshot, the rate limiter, the metrics and the request-id
  counter. What the network does is the environment of a request: for every attempt whether
  it times out, fails to send or is answered, and how often the request body was polled
  before that. The upstream requests actually sent are recorded.
\<close>

section \<open>Third-party code\<close>

record 'u uri_api =
  uri_parse :: "string \<Rightarrow> 'u option"               \<comment> \<open>\<open>Uri::from_str\<close>\<close>
  pq_parse :: "string \<Rightarrow> string option"           \<comment> \<open>\<open>PathAndQuery::try_from\<close>\<close>
  uri_with_pq :: "'u \<Rightarrow> string \<Rightarrow> 'u option"        \<comment> \<open>\<open>Uri::from_parts\<close> of a changed \<open>into_parts\<close>\<close>
  uri_host :: "'u \<Rightarrow> string option"
  uri_port_u16 :: "'u \<Rightarrow> u16 option"

record ('h, 'n, 'u) deps =
  dp_headers :: "'h header_api"
  dp_net :: "'n net_api"
  dp_uri :: "'u uri_api"
  dp_b64_decode :: "string \<Rightarrow> string option"
  dp_encode :: "Encoding \<Rightarrow> string \<Rightarrow> string"
  dp_hash :: "string \<Rightarrow> ip_addr \<Rightarrow> u64"
  dp_collect :: "nat \<Rightarrow> body \<Rightarrow> string option"  \<comment> \<open>\<open>Limited::new(body, n).collect()\<close>, its bytes\<close>


section \<open>Request bodies\<close>

record CappedBody =
  cb_inner :: body
  cb_limit :: u64
  cb_seen :: u64
  cb_exceeded :: bool

text \<open>What a poll returns: pending, the end, a frame, or an error.\<close>

datatype poll = Pending | Ended | Yields body_event | Fails string

definition poll_frame :: "CappedBody \<Rightarrow> poll \<times> CappedBody" where
  "poll_frame b =
     (case cb_inner b of
        [] \<Rightarrow> (Ended, b)
      | NotReady # rest \<Rightarrow> (Pending, b\<lparr>cb_inner := rest\<rparr>)
      | BodyError e # rest \<Rightarrow> (Fails e, b\<lparr>cb_inner := rest\<rparr>)
      | TrailerFrame # rest \<Rightarrow> (Yields TrailerFrame, b\<lparr>cb_inner := rest\<rparr>)
      | DataFrame d # rest \<Rightarrow>
          (let seen = cb_seen b + of_nat (length d)
           in if cb_limit b < seen
              then (Fails ''request body exceeds maxBodyBytes'',
                    b\<lparr>cb_inner := rest, cb_seen := seen, cb_exceeded := True\<rparr>)
              else (Yields (DataFrame d), b\<lparr>cb_inner := rest, cb_seen := seen\<rparr>)))"

datatype out_body = FullBody string | Streamed body | CappedStream CappedBody

datatype BodySource = Buffered string | Once "out_body option"

definition next_body :: "BodySource \<Rightarrow> out_body option \<times> BodySource" where
  "next_body src =
     (case src of
        Buffered bytes \<Rightarrow> (Some (FullBody bytes), Buffered bytes)
      | Once slot \<Rightarrow> (slot, Once None))"

definition prepare_body_source :: "(nat \<Rightarrow> body \<Rightarrow> string option) \<Rightarrow> body \<Rightarrow> bool \<Rightarrow> u64 \<Rightarrow> BodySource" where
  "prepare_body_source collect body replayable max_body_bytes =
     (if replayable then
        (case collect (unat BODY_BUFFER_CAP) body of
           Some collected \<Rightarrow> Buffered collected
         | None \<Rightarrow> Once None)
      else if 0 < max_body_bytes then
        Once (Some (CappedStream \<lparr>cb_inner = body, cb_limit = max_body_bytes, cb_seen = 0, cb_exceeded = False\<rparr>))
      else Once (Some (Streamed body)))"

text \<open>Polling \<open>n\<close> times, and the overflow flag that leaves.\<close>

fun polls :: "nat \<Rightarrow> CappedBody \<Rightarrow> poll list \<times> CappedBody" where
  "polls 0 b = ([], b)"
| "polls (Suc n) b = (let (p, b1) = poll_frame b; (ps, b2) = polls n b1 in (p # ps, b2))"

fun overflows :: "nat \<Rightarrow> out_body \<Rightarrow> bool" where
  "overflows n (CappedStream b) = cb_exceeded (snd (polls n b))"
| "overflows n _ = False"


section \<open>Upstream requests\<close>

record ('h, 'u) upstream_request =
  ur_method :: string
  ur_uri :: 'u
  ur_version :: string
  ur_headers :: 'h
  ur_body :: out_body

definition build_upstream_uri :: "'u uri_api \<Rightarrow> string \<Rightarrow> string \<Rightarrow> 'u option" where
  "build_upstream_uri uri target_url path_and_query =
     (case uri_parse uri target_url of
        None \<Rightarrow> None
      | Some base \<Rightarrow>
          (case pq_parse uri path_and_query of
             None \<Rightarrow> None
           | Some pq \<Rightarrow> uri_with_pq uri base pq))"

definition build_attempt_request ::
  "'u uri_api \<Rightarrow> string \<Rightarrow> string \<Rightarrow> 'h \<Rightarrow> string \<Rightarrow> string \<Rightarrow> out_body \<Rightarrow> ('h, 'u) upstream_request option" where
  "build_attempt_request uri method version headers path_and_query target_url body =
     (case build_upstream_uri uri target_url path_and_query of
        None \<Rightarrow> None
      | Some u \<Rightarrow> Some \<lparr>ur_method = method, ur_uri = u, ur_version = version, ur_headers = headers, ur_body = body\<rparr>)"

definition parse_authority :: "'u uri_api \<Rightarrow> string \<Rightarrow> (string \<times> u16) option" where
  "parse_authority uri target_url =
     (case uri_parse uri target_url of
        None \<Rightarrow> None
      | Some u \<Rightarrow>
          (case uri_host uri u of
             None \<Rightarrow> None
           | Some host \<Rightarrow> Some (host, case uri_port_u16 uri u of Some p \<Rightarrow> p | None \<Rightarrow> 80)))"

definition build_upgrade_request ::
  "('h, 'n, 'u) deps \<Rightarrow> 'h request \<Rightarrow> string \<Rightarrow> string \<Rightarrow> string \<Rightarrow> string \<Rightarrow> socket_addr \<Rightarrow> string \<Rightarrow>
   ('h, 'u) upstream_request option" where
  "build_upgrade_request dp req path_and_query authority fwd_host scheme remote request_id =
     (let api = dp_headers dp;
          h0 = foldl (hm_remove api) (rq_headers req) UPGRADE_STRIP;
          h1 = hm_remove api h0 ''host'';
          h2 = set_header api h1 ''host'' authority;
          h3 = append_forwarded_for api h2 (sock_ip remote);
          h4 = set_header api h3 ''x-forwarded-host'' fwd_host;
          h5 = set_header api h4 ''x-forwarded-proto'' scheme;
          h6 = set_header api h5 ''x-request-id'' request_id
      in case uri_parse (dp_uri dp) path_and_query of
           None \<Rightarrow> None
         | Some u \<Rightarrow> Some \<lparr>ur_method = rq_method req, ur_uri = u, ur_version = ''HTTP/1.1'', ur_headers = h6,
                           ur_body = FullBody []\<rparr>)"


section \<open>The gateway's state and the request's environment\<close>

record ('n, 't) gateway =
  gw_snapshot :: "('n, 't) RuntimeConfig"
  gw_limiter :: RateLimiter
  gw_metrics :: Metrics
  gw_id_counter :: u64

text \<open>How one attempt ends, after how many polls of the body, and at which wall-clock time.\<close>

datatype 'h attempt_result = Elapsed | SendError | Answered "'h response"

record 'h attempt =
  at_result :: "'h attempt_result"
  at_polls :: nat
  at_now_ms :: u64

text \<open>How the steps of an upgrade end: connect, handshake, send.\<close>

record 'h upgrade_env =
  ug_connects :: bool
  ug_handshakes :: bool
  ug_answer :: "'h response option"
  ug_now_ms :: u64

record 'h env =
  ev_now :: instant                  \<comment> \<open>the limiter's clock\<close>
  ev_elapsed :: duration             \<comment> \<open>of the whole request\<close>
  ev_wall_nanos :: nat               \<comment> \<open>for a generated request id\<close>
  ev_attempts :: "nat \<Rightarrow> 'h attempt"
  ev_upgrade :: "'h upgrade_env"

datatype 'h forwarded = Forwarded "'h response" string string   \<comment> \<open>response, route, upstream\<close>

text \<open>A handler returns a response, an error, or panics.\<close>

datatype 'h outcome = Returned "('h forwarded, GatewayError) result" | Panicked


section \<open>Admission\<close>

text \<open>
  The guards both handlers start with, in their order: listener, route, IP access, rate
  limit, basic authentication, upstream. The limiter's state is returned on every path.
\<close>

definition admit ::
  "('h, 'n, 'u) deps \<Rightarrow> ('n, 't) RuntimeConfig \<Rightarrow> RateLimiter \<Rightarrow> instant \<Rightarrow> string \<Rightarrow> 'h request \<Rightarrow> string \<Rightarrow>
   ip_addr \<Rightarrow> ('n CompiledRoute \<times> UpstreamRuntime, GatewayError) result \<times> RateLimiter" where
  "admit dp snap rl now listener_name req host client_ip =
     (case find (\<lambda>l. lr_name l = listener_name) (sn_listeners snap) of
        None \<Rightarrow> (Err RouteNotFound, rl)
      | Some l \<Rightarrow>
          (case match_route (lr_router l) host (rq_path req) of
             None \<Rightarrow> (Err RouteNotFound, rl)
           | Some route \<Rightarrow>
               if \<not> IpAccess_allows (dp_net dp) (cr_ip_access route) client_ip then (Err Forbidden, rl)
               else
                 let (allowed, rl1) =
                       (case cr_rate_limit route of
                          None \<Rightarrow> (True, rl)
                        | Some p \<Rightarrow> check (dp_hash dp) (cr_name route) client_ip (rlim_rate p) (rlim_capacity p) now rl)
                 in if \<not> allowed then (Err TooManyRequests, rl1)
                    else if (case cr_basic_auth route of
                               None \<Rightarrow> False
                             | Some users \<Rightarrow>
                                 \<not> basic_auth_ok (dp_headers dp) (dp_b64_decode dp) (rq_headers req) users)
                    then (Err Unauthorized, rl1)
                    else (case map_of (sn_upstreams snap) (cr_upstream route) of
                            None \<Rightarrow> (Err UpstreamMissing, rl1)
                          | Some upstream \<Rightarrow> (Ok (route, upstream), rl1))))"


section \<open>The attempt loop\<close>

text \<open>What stays fixed over the attempts of one request.\<close>

record ('h, 'u) attempt_ctx =
  cx_uri :: "'u uri_api"
  cx_method :: string
  cx_version :: string
  cx_headers :: 'h
  cx_pq :: string
  cx_policy :: "RetryPolicy option"
  cx_env :: "nat \<Rightarrow> 'h attempt"

record ('h, 'u) attempt_state =
  as_up :: UpstreamRuntime
  as_metrics :: Metrics
  as_sent :: "(nat \<times> ('h, 'u) upstream_request) list"  \<comment> \<open>target index and request\<close>

text \<open>How one turn of the loop ends: with a result (none on a panic), or going round again.\<close>

datatype ('h, 'u) turn =
    Done "(('h response, GatewayError) result) option" "('h, 'u) attempt_state"
  | Again GatewayError BodySource "('h, 'u) attempt_state"

definition after_send ::
  "('h, 'u) attempt_ctx \<Rightarrow> bool \<Rightarrow> 'h attempt \<Rightarrow> nat \<Rightarrow> out_body \<Rightarrow> GatewayError \<Rightarrow> BodySource \<Rightarrow>
   ('h, 'u) attempt_state \<Rightarrow> ('h, 'u) turn" where
  "after_send cx is_last a i body last_err src st =
     (let seen = (\<lambda>ok. st\<lparr>as_up := observe_target (at_now_ms a) i ok (as_up st)\<rparr>);
          retried = (\<lambda>s. s\<lparr>as_metrics := inc_upstream_retries (as_metrics s)\<rparr>)
      in case at_result a of
           Elapsed \<Rightarrow> Done (Some (Err UpstreamTimeout)) (seen False)
         | SendError \<Rightarrow>
             if overflows (at_polls a) body then Done (Some (Err PayloadTooLarge)) st
             else
               let retry = (case cx_policy cx of Some p \<Rightarrow> rp_on_connect_failure p | None \<Rightarrow> False)
               in if is_last \<or> \<not> retry then Done (Some (Err UpstreamConnect)) (seen False)
                  else Again UpstreamConnect src (retried (seen False))
         | Answered r \<Rightarrow>
             let ok = res_status r < 500;
                 retry_5xx = (500 \<le> res_status r \<and>
                   (case cx_policy cx of Some p \<Rightarrow> rp_on_5xx p | None \<Rightarrow> False))
             in if ok \<or> is_last \<or> \<not> retry_5xx then Done (Some (Ok r)) (seen ok)
                else Again last_err src (retried (seen ok)))"

definition attempt_turn ::
  "('h, 'u) attempt_ctx \<Rightarrow> bool \<Rightarrow> nat \<Rightarrow> GatewayError \<Rightarrow> BodySource \<Rightarrow> ('h, 'u) attempt_state \<Rightarrow> ('h, 'u) turn" where
  "attempt_turn cx is_last attempt last_err src st =
     (case pick_target (as_up st) of
        (IndexPanic, u) \<Rightarrow> Done None (st\<lparr>as_up := u\<rparr>)
      | (NoneHealthy, u) \<Rightarrow> Done (Some (Err NoHealthyUpstream)) (st\<lparr>as_up := u\<rparr>)
      | (Picked i, u) \<Rightarrow>
          (case next_body src of
             (None, src') \<Rightarrow> Done (Some (Err last_err)) (st\<lparr>as_up := u\<rparr>)
           | (Some body, src') \<Rightarrow>
               (case build_attempt_request (cx_uri cx) (cx_method cx) (cx_version cx) (cx_headers cx) (cx_pq cx)
                       (tr_url (up_targets u ! i)) body of
                  None \<Rightarrow> Done (Some (Err BadGateway)) (st\<lparr>as_up := u\<rparr>)
                | Some rq \<Rightarrow>
                    after_send cx is_last (cx_env cx attempt) i body last_err src'
                      (st\<lparr>as_up := u, as_sent := as_sent st @ [(i, rq)]\<rparr>))))"

text \<open>\<open>for attempt in 0..max_attempts\<close>, with \<open>n\<close> attempts left.\<close>

fun attempt_loop ::
  "('h, 'u) attempt_ctx \<Rightarrow> nat \<Rightarrow> nat \<Rightarrow> GatewayError \<Rightarrow> BodySource \<Rightarrow> ('h, 'u) attempt_state \<Rightarrow>
   (('h response, GatewayError) result) option \<times> ('h, 'u) attempt_state" where
  "attempt_loop cx 0 attempt last_err src st = (Some (Err last_err), st)"
| "attempt_loop cx (Suc n) attempt last_err src st =
     (case attempt_turn cx (n = 0) attempt last_err src st of
        Done r st' \<Rightarrow> (r, st')
      | Again last_err' src' st' \<Rightarrow> attempt_loop cx n (Suc attempt) last_err' src' st')"


section \<open>Forwarding\<close>

definition replayable_body :: "'h header_api \<Rightarrow> UpstreamRuntime \<Rightarrow> string \<Rightarrow> 'h \<Rightarrow> bool" where
  "replayable_body api upstream method headers =
     (case up_retry upstream of
        Some policy \<Rightarrow>
          if 1 < rp_max_attempts policy \<and> allows_method policy method
          then (case content_length api headers of Some len \<Rightarrow> len \<le> BODY_BUFFER_CAP | None \<Rightarrow> True)
          else False
      | None \<Rightarrow> False)"

definition put_upstream :: "string \<Rightarrow> UpstreamRuntime \<Rightarrow> ('n, 't) RuntimeConfig \<Rightarrow> ('n, 't) RuntimeConfig" where
  "put_upstream name u snap = snap\<lparr>sn_upstreams := AList.update name u (sn_upstreams snap)\<rparr>"

definition forward ::
  "('h, 'n, 'u) deps \<Rightarrow> 'h env \<Rightarrow> ('n, 't) gateway \<Rightarrow> string \<Rightarrow> 'h request \<Rightarrow> string \<Rightarrow> string \<Rightarrow> socket_addr \<Rightarrow>
   ip_addr \<Rightarrow> string \<Rightarrow> 'h outcome \<times> ('n, 't) gateway \<times> (nat \<times> ('h, 'u) upstream_request) list" where
  "forward dp ev gw listener_name req host scheme remote client_ip request_id =
     (let api = dp_headers dp;
          snap = gw_snapshot gw;
          (admitted, rl) = admit dp snap (gw_limiter gw) (ev_now ev) listener_name req host client_ip;
          gw1 = gw\<lparr>gw_limiter := rl\<rparr>
      in case admitted of
           Err e \<Rightarrow> (Returned (Err e), gw1, [])
         | Ok (route, upstream) \<Rightarrow>
             let accept_encoding = (case header_str api (rq_headers req) ''accept-encoding'' of Some s \<Rightarrow> s | None \<Rightarrow> [])
             in if body_exceeds_limit api (rq_headers req) (sn_max_body_bytes snap)
                then (Returned (Err PayloadTooLarge), gw1, [])
                else
                  let upstream_pq = rewritten_path_and_query route (rq_path_and_query req);
                      headers = HeaderOps_apply api (cr_request_headers route)
                        (rewrite_headers api (rq_headers req) host scheme (sock_ip remote) request_id);
                      replayable = replayable_body api upstream (rq_method req) headers;
                      src = prepare_body_source (dp_collect dp) (rq_body req) replayable (sn_max_body_bytes snap);
                      max_attempts = (case up_retry upstream of
                          Some p \<Rightarrow> if replayable then unat (rp_max_attempts p) else 1
                        | None \<Rightarrow> 1);
                      cx = \<lparr>cx_uri = dp_uri dp, cx_method = rq_method req, cx_version = rq_version req,
                            cx_headers = headers, cx_pq = upstream_pq, cx_policy = up_retry upstream,
                            cx_env = ev_attempts ev\<rparr>;
                      (result, st) = attempt_loop cx max_attempts 0 NoHealthyUpstream src
                        \<lparr>as_up = upstream, as_metrics = gw_metrics gw, as_sent = []\<rparr>;
                      gw2 = gw1\<lparr>gw_snapshot := put_upstream (cr_upstream route) (as_up st) snap,
                                gw_metrics := as_metrics st\<rparr>
                  in (case result of
                        None \<Rightarrow> Panicked
                      | Some (Err e) \<Rightarrow> Returned (Err e)
                      | Some (Ok r) \<Rightarrow>
                          let r1 = r\<lparr>res_headers := HeaderOps_apply api (cr_response_headers route) (res_headers r)\<rparr>;
                              r2 = (case sn_compression snap of
                                      Some c \<Rightarrow> maybe_compress api (dp_encode dp) r1 accept_encoding c
                                    | None \<Rightarrow> r1)
                          in Returned (Ok (Forwarded r2 (cr_name route) (cr_upstream route))),
                      gw2, as_sent st))"


section \<open>Upgrades\<close>

definition handle_upgrade ::
  "('h, 'n, 'u) deps \<Rightarrow> 'h env \<Rightarrow> ('n, 't) gateway \<Rightarrow> string \<Rightarrow> 'h request \<Rightarrow> string \<Rightarrow> string \<Rightarrow> socket_addr \<Rightarrow>
   ip_addr \<Rightarrow> string \<Rightarrow> 'h outcome \<times> ('n, 't) gateway \<times> (nat \<times> ('h, 'u) upstream_request) list" where
  "handle_upgrade dp ev gw listener_name req host scheme remote client_ip request_id =
     (let snap = gw_snapshot gw;
          (admitted, rl) = admit dp snap (gw_limiter gw) (ev_now ev) listener_name req host client_ip;
          gw1 = gw\<lparr>gw_limiter := rl\<rparr>
      in case admitted of
           Err e \<Rightarrow> (Returned (Err e), gw1, [])
         | Ok (route, upstream) \<Rightarrow>
             let (picked, u) = pick_target upstream;
                 keep = (\<lambda>u'. gw1\<lparr>gw_snapshot := put_upstream (cr_upstream route) u' snap\<rparr>)
             in case picked of
                  IndexPanic \<Rightarrow> (Panicked, keep u, [])
                | NoneHealthy \<Rightarrow> (Returned (Err NoHealthyUpstream), keep u, [])
                | Picked i \<Rightarrow>
                    (case parse_authority (dp_uri dp) (tr_url (up_targets u ! i)) of
                       None \<Rightarrow> (Returned (Err BadGateway), keep u, [])
                     | Some (target_host, target_port) \<Rightarrow>
                         let authority = target_host @ '':'' @ dec_of_nat (unat target_port);
                             upstream_pq = rewritten_path_and_query route (rq_path_and_query req)
                         in case build_upgrade_request dp req upstream_pq authority host scheme remote request_id of
                              None \<Rightarrow> (Returned (Err BadGateway), keep u, [])
                            | Some rq \<Rightarrow>
                                let ug = ev_upgrade ev;
                                    seen = (\<lambda>ok. keep (observe_target (ug_now_ms ug) i ok u))
                                in if \<not> ug_connects ug \<or> \<not> ug_handshakes ug
                                   then (Returned (Err UpstreamConnect), seen False, [])
                                   else case ug_answer ug of
                                          None \<Rightarrow> (Returned (Err UpstreamConnect), seen False, [(i, rq)])
                                        | Some r \<Rightarrow>
                                            if res_status r = 101
                                            then let g = seen True
                                                 in (Returned (Ok (Forwarded \<lparr>res_status = 101, res_headers = res_headers r,
                                                       res_body = []\<rparr> (cr_name route) (cr_upstream route))),
                                                     g\<lparr>gw_metrics := inc_websocket (gw_metrics g)\<rparr>, [(i, rq)])
                                            else (Returned (Ok (Forwarded r (cr_name route) (cr_upstream route))),
                                                  seen (res_status r < 500), [(i, rq)])))"


section \<open>The request handler\<close>

definition handle ::
  "('h, 'n, 'u) deps \<Rightarrow> 'h env \<Rightarrow> ('n, 't) gateway \<Rightarrow> 'h request \<Rightarrow> string \<Rightarrow> bool \<Rightarrow> socket_addr \<Rightarrow>
   'h response option \<times> ('n, 't) gateway \<times> (nat \<times> ('h, 'u) upstream_request) list" where
  "handle dp ev gw req listener_name is_tls remote =
     (let api = dp_headers dp;
          (request_id, ids) = ensure_request_id api req (ev_wall_nanos ev) (gw_id_counter gw);
          host = request_host api req;
          scheme = (if is_tls then ''https'' else ''http'');
          client_ip = resolve_client_ip (dp_net dp) (sock_ip remote)
            (header_str api (rq_headers req) ''x-forwarded-for'') (sn_trusted_proxies (gw_snapshot gw));
          gw0 = gw\<lparr>gw_id_counter := ids, gw_metrics := inc_requests (gw_metrics gw)\<rparr>;
          (outcome, gw1, sent) =
            (if is_upgrade api req
             then handle_upgrade dp ev gw0 listener_name req host scheme remote client_ip request_id
             else forward dp ev gw0 listener_name req host scheme remote client_ip request_id);
          timed = (\<lambda>g. g\<lparr>gw_metrics := observe_duration (as_secs_f64 (ev_elapsed ev)) (gw_metrics g)\<rparr>)
      in case outcome of
           Panicked \<Rightarrow> (None, gw1, sent)
         | Returned (Ok (Forwarded r _ _)) \<Rightarrow>
             (Some r, timed (gw1\<lparr>gw_metrics := inc_upstream_requests (gw_metrics gw1)\<rparr>), sent)
         | Returned (Err err) \<Rightarrow>
             (Some (error_response api err request_id),
              timed (if err = RouteNotFound then gw1\<lparr>gw_metrics := inc_route_not_found (gw_metrics gw1)\<rparr>
                     else if \<not> is_client_error err then gw1\<lparr>gw_metrics := inc_upstream_errors (gw_metrics gw1)\<rparr>
                     else gw1),
              sent))"


section \<open>The attempt loop on a well-formed group\<close>

text \<open>Two states of one group: same schedule, same target addresses.\<close>

definition same_group :: "UpstreamRuntime \<Rightarrow> UpstreamRuntime \<Rightarrow> bool" where
  "same_group u v \<longleftrightarrow>
     up_schedule v = up_schedule u \<and> map tr_url (up_targets v) = map tr_url (up_targets u) \<and>
     up_retry v = up_retry u \<and> up_health v = up_health u \<and> up_tls_insecure v = up_tls_insecure u"

lemma same_group_refl [simp]: "same_group u u"
  by (simp add: same_group_def)

lemma same_group_trans: "same_group u v \<Longrightarrow> same_group v w \<Longrightarrow> same_group u w"
  by (simp add: same_group_def)

lemma same_group_length: "same_group u v \<Longrightarrow> length (up_targets v) = length (up_targets u)"
  unfolding same_group_def by (metis length_map)

lemma same_group_url:
  "same_group u v \<Longrightarrow> i < length (up_targets u) \<Longrightarrow> tr_url (up_targets v ! i) = tr_url (up_targets u ! i)"
  using same_group_length[of u v] unfolding same_group_def by (metis nth_map)

lemma same_group_wf: "same_group u v \<Longrightarrow> up_wf u \<Longrightarrow> up_wf v"
  using same_group_length[of u v] by (simp add: up_wf_def same_group_def)

lemma same_group_observe: "i < length (up_targets u) \<Longrightarrow> same_group u (observe_target now i ok u)"
  by (simp add: same_group_def observe_target_def map_update list_update_same_conv)

lemma same_group_pick: "up_wf u \<Longrightarrow> same_group u (snd (pick_target u))"
  by (subst pick_target_frame) (simp_all add: same_group_def)

text \<open>A sent request: to an existing scheduled target, with the rewritten head.\<close>

definition sent_ok :: "('h, 'u) attempt_ctx \<Rightarrow> UpstreamRuntime \<Rightarrow> nat \<times> ('h, 'u) upstream_request \<Rightarrow> bool" where
  "sent_ok cx u s \<longleftrightarrow>
     fst s < length (up_targets u) \<and> fst s \<in> set (up_schedule u) \<and>
     ur_headers (snd s) = cx_headers cx \<and> ur_method (snd s) = cx_method cx \<and> ur_version (snd s) = cx_version cx \<and>
     build_upstream_uri (cx_uri cx) (tr_url (up_targets u ! fst s)) (cx_pq cx) = Some (ur_uri (snd s))"

text \<open>
  What a run of the loop from attempt \<open>k\<close> with at most \<open>n\<close> attempts leaves: the requests it
  sent, a timeout only as the last attempt, and a response only from the last attempt.
\<close>

definition loop_trace ::
  "('h, 'u) attempt_ctx \<Rightarrow> UpstreamRuntime \<Rightarrow> nat \<Rightarrow> nat \<Rightarrow> ('h response, GatewayError) result \<Rightarrow>
   (nat \<times> ('h, 'u) upstream_request) list \<Rightarrow> bool" where
  "loop_trace cx u n k r new \<longleftrightarrow>
     length new \<le> n \<and> (\<forall>s \<in> set new. sent_ok cx u s) \<and>
     (\<forall>j < length new. at_result (cx_env cx (k + j)) = Elapsed \<longrightarrow> Suc j = length new \<and> r = Err UpstreamTimeout) \<and>
     (r = Err UpstreamTimeout \<longrightarrow> (\<exists>j. length new = Suc j \<and> at_result (cx_env cx (k + j)) = Elapsed)) \<and>
     (\<forall>resp. r = Ok resp \<longrightarrow> (\<exists>j. length new = Suc j \<and> at_result (cx_env cx (k + j)) = Answered resp))"

lemma sent_ok_same: "same_group u v \<Longrightarrow> sent_ok cx v s \<Longrightarrow> sent_ok cx u s"
  using same_group_length[of u v] same_group_url[of u v "fst s"] by (auto simp: sent_ok_def same_group_def)

lemma loop_trace_Nil: "r \<noteq> Err UpstreamTimeout \<Longrightarrow> (\<forall>resp. r \<noteq> Ok resp) \<Longrightarrow> loop_trace cx u n k r []"
  by (simp add: loop_trace_def)

lemma loop_trace_last:
  assumes "sent_ok cx u s" "at_result (cx_env cx k) = Elapsed \<longleftrightarrow> r = Err UpstreamTimeout"
    and "\<And>resp. r = Ok resp \<Longrightarrow> at_result (cx_env cx k) = Answered resp"
  shows "loop_trace cx u (Suc n) k r [s]"
  using assms by (simp add: loop_trace_def)

lemma loop_trace_Cons:
  assumes "sent_ok cx u s" "same_group u v" "at_result (cx_env cx k) \<noteq> Elapsed" "loop_trace cx v n (Suc k) r new"
  shows "loop_trace cx u (Suc n) k r (s # new)"
proof -
  have tr: "length new \<le> n" "\<forall>s \<in> set new. sent_ok cx v s"
    "\<forall>j < length new. at_result (cx_env cx (Suc k + j)) = Elapsed \<longrightarrow> Suc j = length new \<and> r = Err UpstreamTimeout"
    "r = Err UpstreamTimeout \<longrightarrow> (\<exists>j. length new = Suc j \<and> at_result (cx_env cx (Suc k + j)) = Elapsed)"
    "\<forall>resp. r = Ok resp \<longrightarrow> (\<exists>j. length new = Suc j \<and> at_result (cx_env cx (Suc k + j)) = Answered resp)"
    using assms(4) unfolding loop_trace_def by blast+
  have "\<forall>s' \<in> set (s # new). sent_ok cx u s'"
    using tr(2) assms(1) sent_ok_same[OF assms(2), of cx] by (simp add: Ball_def)
  moreover have "Suc j = length (s # new) \<and> r = Err UpstreamTimeout"
    if "j < length (s # new)" "at_result (cx_env cx (k + j)) = Elapsed" for j
  proof (cases j)
    case 0
    then show ?thesis using that(2) assms(3) by simp
  next
    case (Suc j')
    then show ?thesis using that tr(3)[rule_format, of j'] by simp
  qed
  moreover have "\<exists>j. length (s # new) = Suc j \<and> at_result (cx_env cx (k + j)) = Elapsed" if "r = Err UpstreamTimeout"
    using tr(4)[rule_format, OF that] by (elim exE conjE) simp
  moreover have "\<exists>j. length (s # new) = Suc j \<and> at_result (cx_env cx (k + j)) = Answered resp" if "r = Ok resp" for resp
    using tr(5)[rule_format, OF that] by (elim exE conjE) simp
  ultimately show ?thesis using tr(1) unfolding loop_trace_def by (intro conjI allI impI) simp_all
qed

lemma build_attempt_request_ok:
  assumes "build_attempt_request uri m ver h pq url body = Some rq"
  shows "ur_headers rq = h" "ur_method rq = m" "ur_version rq = ver" "build_upstream_uri uri url pq = Some (ur_uri rq)"
  using assms by (auto simp: build_attempt_request_def split: option.splits)

text \<open>One turn that ends the loop, and one that does not.\<close>

definition turn_done ::
  "('h, 'u) attempt_ctx \<Rightarrow> nat \<Rightarrow> ('h, 'u) attempt_state \<Rightarrow> ('h response, GatewayError) result \<Rightarrow>
   ('h, 'u) attempt_state \<Rightarrow> bool" where
  "turn_done cx k st r st' \<longleftrightarrow>
     same_group (as_up st) (as_up st') \<and> as_metrics st' = as_metrics st \<and>
     (as_sent st' = as_sent st \<and> r \<noteq> Err UpstreamTimeout \<and> (\<forall>resp. r \<noteq> Ok resp) \<or>
      (\<exists>s. as_sent st' = as_sent st @ [s] \<and> sent_ok cx (as_up st) s \<and>
         (at_result (cx_env cx k) = Elapsed \<longleftrightarrow> r = Err UpstreamTimeout) \<and>
         (\<forall>resp. r = Ok resp \<longrightarrow> at_result (cx_env cx k) = Answered resp)))"

definition turn_again ::
  "('h, 'u) attempt_ctx \<Rightarrow> nat \<Rightarrow> ('h, 'u) attempt_state \<Rightarrow> ('h, 'u) attempt_state \<Rightarrow> bool" where
  "turn_again cx k st st' \<longleftrightarrow>
     same_group (as_up st) (as_up st') \<and> as_metrics st' = inc_upstream_retries (as_metrics st) \<and>
     at_result (cx_env cx k) \<noteq> Elapsed \<and>
     (\<exists>s. as_sent st' = as_sent st @ [s] \<and> sent_ok cx (as_up st) s)"

lemma after_send_cases:
  assumes "i < length (up_targets (as_up st))" "a = cx_env cx k"
  shows "case after_send cx is_last a i body le src st of
      Done r st' \<Rightarrow> \<exists>r'. r = Some r' \<and> same_group (as_up st) (as_up st') \<and> as_metrics st' = as_metrics st \<and>
        as_sent st' = as_sent st \<and> (at_result (cx_env cx k) = Elapsed \<longleftrightarrow> r' = Err UpstreamTimeout) \<and>
        (\<forall>resp. r' = Ok resp \<longrightarrow> at_result (cx_env cx k) = Answered resp)
    | Again le' src' st' \<Rightarrow> src' = src \<and> (le' = UpstreamConnect \<or> le' = le) \<and>
        same_group (as_up st) (as_up st') \<and> as_metrics st' = inc_upstream_retries (as_metrics st) \<and>
        as_sent st' = as_sent st \<and> at_result (cx_env cx k) \<noteq> Elapsed"
  using same_group_observe[OF assms(1)] assms(2)
  by (cases "at_result a") (simp_all add: after_send_def Let_def)

lemma attempt_turn_cases:
  assumes wf: "up_wf (as_up st)" and le: "le \<noteq> UpstreamTimeout"
  shows "case attempt_turn cx is_last k le src st of
      Done r st' \<Rightarrow> \<exists>r'. r = Some r' \<and> turn_done cx k st r' st'
    | Again le' src' st' \<Rightarrow> le' \<noteq> UpstreamTimeout \<and> turn_again cx k st st'"
proof -
  obtain p u where pick: "pick_target (as_up st) = (p, u)" by (cases "pick_target (as_up st)")
  obtain b src' where nb: "next_body src = (b, src')" by (cases "next_body src")
  have grp: "same_group (as_up st) u" using same_group_pick[OF wf] pick by simp
  show ?thesis
  proof (cases p)
    case IndexPanic
    then show ?thesis using pick_target_not_panic[OF wf] pick by simp
  next
    case NoneHealthy
    then show ?thesis using pick grp by (simp add: attempt_turn_def turn_done_def)
  next
    case (Picked i)
    have i: "i < length (up_targets (as_up st))" "i \<in> set (up_schedule (as_up st))"
      using pick_target_Picked[OF wf] pick Picked by auto
    show ?thesis
    proof (cases "Option.bind b (build_attempt_request (cx_uri cx) (cx_method cx) (cx_version cx) (cx_headers cx)
        (cx_pq cx) (tr_url (up_targets u ! i)))")
      case None
      then show ?thesis using pick Picked nb grp le
        by (cases b) (simp_all add: attempt_turn_def turn_done_def)
    next
      case (Some rq)
      then obtain body where body: "b = Some body" "build_attempt_request (cx_uri cx) (cx_method cx) (cx_version cx)
          (cx_headers cx) (cx_pq cx) (tr_url (up_targets u ! i)) body = Some rq" by (cases b) auto
      let ?st = "st\<lparr>as_up := u, as_sent := as_sent st @ [(i, rq)]\<rparr>"
      have sent: "sent_ok cx (as_up st) (i, rq)"
        using build_attempt_request_ok[OF body(2)] i same_group_url[OF grp i(1)] by (simp add: sent_ok_def)
      have iu: "i < length (up_targets (as_up ?st))" using i(1) same_group_length[OF grp] by simp
      have turn: "attempt_turn cx is_last k le src st = after_send cx is_last (cx_env cx k) i body le src' ?st"
        using pick Picked nb body by (simp add: attempt_turn_def)
      show ?thesis
        using after_send_cases[where cx = cx and k = k and is_last = is_last and body = body and le = le and src = src', OF iu refl] sent grp le same_group_trans[OF grp]
        unfolding turn by (auto simp: turn_done_def turn_again_def split: turn.splits)
    qed
  qed
qed

lemma attempt_loop_run:
  assumes "up_wf (as_up st)" "le \<noteq> UpstreamTimeout"
  shows "\<exists>r st' new m. attempt_loop cx n k le src st = (Some r, st') \<and> as_sent st' = as_sent st @ new \<and>
    same_group (as_up st) (as_up st') \<and> loop_trace cx (as_up st) n k r new \<and>
    as_metrics st' = (inc_upstream_retries ^^ m) (as_metrics st) \<and> m \<le> length new \<and> length new \<le> Suc m"
  using assms
proof (induction n arbitrary: k le src st)
  case 0
  then show ?case by (auto intro!: exI[of _ "0::nat"] loop_trace_Nil)
next
  case (Suc n)
  note turn = attempt_turn_cases[where cx = cx and is_last = "n = 0" and k = k and src = src, OF Suc.prems]
  show ?case
  proof (cases "attempt_turn cx (n = 0) k le src st")
    case (Done r st')
    then obtain r' where r: "r = Some r'" "turn_done cx k st r' st'" using turn by auto
    then obtain new where "as_sent st' = as_sent st @ new" "loop_trace cx (as_up st) (Suc n) k r' new" "length new \<le> 1"
      using loop_trace_Nil[of r' cx "as_up st" "Suc n" k] loop_trace_last[of cx "as_up st" _ k r' n]
      by (fastforce simp: turn_done_def)
    then show ?thesis using Done r by (auto simp: turn_done_def intro!: exI[of _ "0::nat"])
  next
    case (Again le' src' st1)
    then have le': "le' \<noteq> UpstreamTimeout" and again: "turn_again cx k st st1" using turn by auto
    then obtain s where s: "as_sent st1 = as_sent st @ [s]" "sent_ok cx (as_up st) s"
      "same_group (as_up st) (as_up st1)" "as_metrics st1 = inc_upstream_retries (as_metrics st)"
      "at_result (cx_env cx k) \<noteq> Elapsed" by (auto simp: turn_again_def)
    from Suc.IH[OF same_group_wf[OF s(3) Suc.prems(1)] le', of "Suc k" src'] obtain r st' new m where
      IH: "attempt_loop cx n (Suc k) le' src' st1 = (Some r, st')" "as_sent st' = as_sent st1 @ new"
        "same_group (as_up st1) (as_up st')" "loop_trace cx (as_up st1) n (Suc k) r new"
        "as_metrics st' = (inc_upstream_retries ^^ m) (as_metrics st1)" "m \<le> length new" "length new \<le> Suc m"
      by blast
    have "as_metrics st' = (inc_upstream_retries ^^ Suc m) (as_metrics st)"
      using IH(5) s(4) by (simp add: funpow_swap1)
    then show ?thesis
      using Again IH s loop_trace_Cons[OF s(2,3,5) IH(4)] same_group_trans[OF s(3) IH(3)]
      by (intro exI[of _ r] exI[of _ st'] exI[of _ "s # new"] exI[of _ "Suc m"]) simp
  qed
qed


text \<open>The errors an attempt can end in.\<close>

definition attempt_errors :: "GatewayError set" where
  "attempt_errors = {NoHealthyUpstream, UpstreamTimeout, UpstreamConnect, BadGateway, PayloadTooLarge}"

lemma after_send_errors:
  assumes "le \<in> attempt_errors"
  shows "case after_send cx is_last a i body le src st of
      Done r st' \<Rightarrow> \<forall>e. r = Some (Err e) \<longrightarrow> e \<in> attempt_errors
    | Again le' src' st' \<Rightarrow> le' \<in> attempt_errors"
  using assms by (cases "at_result a") (simp_all add: after_send_def Let_def attempt_errors_def)

lemma attempt_turn_errors:
  assumes "le \<in> attempt_errors"
  shows "case attempt_turn cx is_last k le src st of
      Done r st' \<Rightarrow> \<forall>e. r = Some (Err e) \<longrightarrow> e \<in> attempt_errors
    | Again le' src' st' \<Rightarrow> le' \<in> attempt_errors"
proof -
  have "NoHealthyUpstream \<in> attempt_errors" "BadGateway \<in> attempt_errors" by (simp_all add: attempt_errors_def)
  then show ?thesis
    using assms by (simp add: attempt_turn_def split: pick.split prod.split option.split)
      (intro allI impI after_send_errors[OF assms])
qed

lemma attempt_loop_errors:
  "le \<in> attempt_errors \<Longrightarrow> fst (attempt_loop cx n k le src st) = Some (Err e) \<Longrightarrow> e \<in> attempt_errors"
proof (induction n arbitrary: k le src st)
  case (Suc n)
  then show ?case
    using attempt_turn_errors[where cx = cx and is_last = "n = 0" and k = k and src = src and st = st, OF Suc.prems(1)]
    by (simp split: turn.splits)
qed simp


text \<open>URIs as plain strings, an instance of the URI interface.\<close>

definition string_uri :: "string uri_api" where
  "string_uri = \<lparr>uri_parse = Some, pq_parse = Some, uri_with_pq = (\<lambda>u pq. Some (u @ pq)),
     uri_host = Some, uri_port_u16 = (\<lambda>_. None)\<rparr>"

end
