(* ===== verification/Gateway.thy ===== *)
theory Gateway
  imports Forward
begin

text \<open>
  What one request, and a run of requests, probes and reloads, does to the gateway. The
  contract of a handler (\<^term>\<open>handled\<close> below) is proved once for \<^const>\<open>forward\<close> and once for
  \<^const>\<open>handle_upgrade\<close>, and every property of \<^const>\<open>handle\<close> rests on it.
\<close>

section \<open>Snapshots in service\<close>

text \<open>Every route of the snapshot names an upstream whose schedule stays inside its targets.\<close>

definition snapshot_wf :: "('n, 't) RuntimeConfig \<Rightarrow> bool" where
  "snapshot_wf s \<longleftrightarrow>
     (\<forall>lr \<in> set (sn_listeners s). \<forall>r \<in> set (lr_router lr).
       \<exists>u. map_of (sn_upstreams s) (cr_upstream r) = Some u \<and> up_wf u)"

text \<open>Two states of one snapshot: only the run-time state of the targets differs.\<close>

definition same_config :: "('n, 't) RuntimeConfig \<Rightarrow> ('n, 't) RuntimeConfig \<Rightarrow> bool" where
  "same_config s s' \<longleftrightarrow>
     s'\<lparr>sn_upstreams := sn_upstreams s\<rparr> = s \<and>
     (\<forall>n. rel_option same_group (map_of (sn_upstreams s) n) (map_of (sn_upstreams s') n))"

lemma same_config_refl [simp]: "same_config s s"
  by (simp add: same_config_def option.rel_refl)

lemma same_config_listeners: "same_config s s' \<Longrightarrow> sn_listeners s' = sn_listeners s"
  unfolding same_config_def by (metis RuntimeConfig.select_convs(1) RuntimeConfig.surjective RuntimeConfig.update_convs(2))

lemma put_upstream_same_config:
  assumes "map_of (sn_upstreams s) n = Some u" "same_group u v"
  shows "same_config s (put_upstream n v s)"
  using assms by (auto simp: same_config_def put_upstream_def update_conv option.rel_refl)

lemma snapshot_wf_same_config:
  assumes "snapshot_wf s" "same_config s s'"
  shows "snapshot_wf s'"
  unfolding snapshot_wf_def
proof (intro ballI)
  fix lr r
  assume "lr \<in> set (sn_listeners s')" "r \<in> set (lr_router lr)"
  then obtain u where u: "map_of (sn_upstreams s) (cr_upstream r) = Some u" "up_wf u"
    using assms(1) same_config_listeners[OF assms(2)] by (auto simp: snapshot_wf_def)
  then obtain v where "map_of (sn_upstreams s') (cr_upstream r) = Some v" "same_group u v"
    using assms(2) unfolding same_config_def by (metis option_rel_Some1)
  then show "\<exists>u. map_of (sn_upstreams s') (cr_upstream r) = Some u \<and> up_wf u"
    using u(2) same_group_wf by blast
qed


section \<open>Admission\<close>

text \<open>All the guards a request has to pass, as one predicate.\<close>

definition passes ::
  "('h, 'n, 'u) deps \<Rightarrow> ('n, 't) RuntimeConfig \<Rightarrow> RateLimiter \<Rightarrow> instant \<Rightarrow> string \<Rightarrow> 'h request \<Rightarrow> string \<Rightarrow>
   ip_addr \<Rightarrow> 'n CompiledRoute \<Rightarrow> UpstreamRuntime \<Rightarrow> bool" where
  "passes dp snap rl now listener_name req host client_ip route u \<longleftrightarrow>
     (\<exists>l \<in> set (sn_listeners snap). lr_name l = listener_name \<and> match_route (lr_router l) host (rq_path req) = Some route) \<and>
     IpAccess_allows (dp_net dp) (cr_ip_access route) client_ip \<and>
     (\<forall>p. cr_rate_limit route = Some p \<longrightarrow>
        fst (check (dp_hash dp) (cr_name route) client_ip (rlim_rate p) (rlim_capacity p) now rl)) \<and>
     (\<forall>users. cr_basic_auth route = Some users \<longrightarrow>
        basic_auth_ok (dp_headers dp) (dp_b64_decode dp) (rq_headers req) users) \<and>
     map_of (sn_upstreams snap) (cr_upstream route) = Some u"

lemma find_SomeD: "find P xs = Some x \<Longrightarrow> x \<in> set xs \<and> P x"
  by (induction xs) (auto split: if_splits)

lemma admit_passes:
  assumes "admit dp snap rl now lname req host ip = (Ok (route, u), rl')"
  shows "passes dp snap rl now lname req host ip route u"
proof -
  obtain l where l: "find (\<lambda>l. lr_name l = lname) (sn_listeners snap) = Some l"
    using assms by (auto simp: admit_def split: option.splits)
  obtain r where r: "match_route (lr_router l) host (rq_path req) = Some r"
    using assms l by (auto simp: admit_def split: option.splits)
  have "r = route \<and> IpAccess_allows (dp_net dp) (cr_ip_access route) ip \<and>
     (\<forall>p. cr_rate_limit route = Some p \<longrightarrow>
        fst (check (dp_hash dp) (cr_name route) ip (rlim_rate p) (rlim_capacity p) now rl)) \<and>
     (\<forall>users. cr_basic_auth route = Some users \<longrightarrow>
        basic_auth_ok (dp_headers dp) (dp_b64_decode dp) (rq_headers req) users) \<and>
     map_of (sn_upstreams snap) (cr_upstream route) = Some u"
    using assms by (auto simp: admit_def l r split: option.splits if_splits prod.splits)
  then show ?thesis using find_SomeD[OF l] r unfolding passes_def by blast
qed

lemma passes_wf: "snapshot_wf snap \<Longrightarrow> passes dp snap rl now lname req host ip route u \<Longrightarrow> up_wf u"
  using match_route_Some(1) unfolding passes_def snapshot_wf_def by fastforce

lemma admit_Err_wf:
  assumes "snapshot_wf snap" "admit dp snap rl now lname req host ip = (Err e, rl')"
  shows "e \<in> {RouteNotFound, Forbidden, TooManyRequests, Unauthorized}"
proof (cases "find (\<lambda>l. lr_name l = lname) (sn_listeners snap)")
  case None
  then show ?thesis using assms(2) by (simp add: admit_def)
next
  case (Some l)
  show ?thesis
  proof (cases "match_route (lr_router l) host (rq_path req)")
    case None
    then show ?thesis using assms(2) Some by (simp add: admit_def)
  next
    case (Some r)
    then obtain u where "map_of (sn_upstreams snap) (cr_upstream r) = Some u"
      using match_route_Some(1)[OF Some] find_SomeD[OF \<open>find _ _ = Some l\<close>] assms(1)
      unfolding snapshot_wf_def by blast
    then show ?thesis
      using assms(2) Some \<open>find _ _ = Some l\<close>
      by (auto simp: admit_def split: option.splits if_splits prod.splits)
  qed
qed


section \<open>What a handler leaves\<close>

text \<open>The head every attempt of a forwarded request carries, and the bound on the attempts.\<close>

definition forward_headers ::
  "'h header_api \<Rightarrow> 'n CompiledRoute \<Rightarrow> 'h request \<Rightarrow> string \<Rightarrow> string \<Rightarrow> socket_addr \<Rightarrow> string \<Rightarrow> 'h" where
  "forward_headers api route req host scheme remote request_id =
     HeaderOps_apply api (cr_request_headers route)
       (rewrite_headers api (rq_headers req) host scheme (sock_ip remote) request_id)"

definition forward_ctx ::
  "('h, 'n, 'u) deps \<Rightarrow> 'h env \<Rightarrow> 'n CompiledRoute \<Rightarrow> UpstreamRuntime \<Rightarrow> 'h request \<Rightarrow> 'h \<Rightarrow> ('h, 'u) attempt_ctx" where
  "forward_ctx dp ev route u req headers =
     \<lparr>cx_uri = dp_uri dp, cx_method = rq_method req, cx_version = rq_version req, cx_headers = headers,
      cx_pq = rewritten_path_and_query route (rq_path_and_query req), cx_policy = up_retry u,
      cx_env = ev_attempts ev\<rparr>"

definition attempt_limit :: "UpstreamRuntime \<Rightarrow> bool \<Rightarrow> nat" where
  "attempt_limit u replayable =
     (case up_retry u of Some p \<Rightarrow> if replayable then unat (rp_max_attempts p) else 1 | None \<Rightarrow> 1)"

definition finish ::
  "('h, 'n, 'u) deps \<Rightarrow> ('n, 't) RuntimeConfig \<Rightarrow> 'n CompiledRoute \<Rightarrow> 'h request \<Rightarrow>
   ('h response, GatewayError) result \<Rightarrow> ('h forwarded, GatewayError) result" where
  "finish dp snap route req r =
     (case r of
        Err e \<Rightarrow> Err e
      | Ok resp \<Rightarrow>
          let api = dp_headers dp;
              r1 = resp\<lparr>res_headers := HeaderOps_apply api (cr_response_headers route) (res_headers resp)\<rparr>;
              accept = (case header_str api (rq_headers req) ''accept-encoding'' of Some s \<Rightarrow> s | None \<Rightarrow> [])
          in Ok (Forwarded
                  (case sn_compression snap of Some c \<Rightarrow> maybe_compress api (dp_encode dp) r1 accept c | None \<Rightarrow> r1)
                  (cr_name route) (cr_upstream route)))"

lemma forward_Err:
  assumes "admit dp (gw_snapshot gw) (gw_limiter gw) (ev_now ev) lname req host ip = (Err e, rl)"
  shows "forward dp ev gw lname req host scheme remote ip rid = (Returned (Err e), gw\<lparr>gw_limiter := rl\<rparr>, [])"
  using assms by (simp add: forward_def)

lemma forward_oversize:
  assumes "admit dp (gw_snapshot gw) (gw_limiter gw) (ev_now ev) lname req host ip = (Ok (route, u), rl)"
    and "body_exceeds_limit (dp_headers dp) (rq_headers req) (sn_max_body_bytes (gw_snapshot gw))"
  shows "forward dp ev gw lname req host scheme remote ip rid = (Returned (Err PayloadTooLarge), gw\<lparr>gw_limiter := rl\<rparr>, [])"
  using assms by (simp add: forward_def)

lemma forward_attempts_unfold:
  assumes "admit dp (gw_snapshot gw) (gw_limiter gw) (ev_now ev) lname req host ip = (Ok (route, u), rl)"
    and "\<not> body_exceeds_limit (dp_headers dp) (rq_headers req) (sn_max_body_bytes (gw_snapshot gw))"
    and "headers = forward_headers (dp_headers dp) route req host scheme remote rid"
    and "replayable = replayable_body (dp_headers dp) u (rq_method req) headers"
    and "attempt_loop (forward_ctx dp ev route u req headers) (attempt_limit u replayable) 0 NoHealthyUpstream
          (prepare_body_source (dp_collect dp) (rq_body req) replayable (sn_max_body_bytes (gw_snapshot gw)))
          \<lparr>as_up = u, as_metrics = gw_metrics gw, as_sent = []\<rparr> = (Some r, st)"
  shows "forward dp ev gw lname req host scheme remote ip rid =
    (Returned (finish dp (gw_snapshot gw) route req r),
     gw\<lparr>gw_limiter := rl, gw_snapshot := put_upstream (cr_upstream route) (as_up st) (gw_snapshot gw),
        gw_metrics := as_metrics st\<rparr>, as_sent st)"
  using assms(1,2) assms(5)[unfolded forward_ctx_def attempt_limit_def assms(4,3)[unfolded forward_headers_def]]
  by (simp add: forward_def finish_def Let_def split: sum.split)


lemma forward_run:
  assumes "snapshot_wf (gw_snapshot gw)"
    and adm: "admit dp (gw_snapshot gw) (gw_limiter gw) (ev_now ev) lname req host ip = (Ok (route, u), rl)"
    and lim: "\<not> body_exceeds_limit (dp_headers dp) (rq_headers req) (sn_max_body_bytes (gw_snapshot gw))"
    and h: "headers = forward_headers (dp_headers dp) route req host scheme remote rid"
  obtains r u' sent m where
    "forward dp ev gw lname req host scheme remote ip rid =
      (Returned (finish dp (gw_snapshot gw) route req r),
       gw\<lparr>gw_limiter := rl, gw_snapshot := put_upstream (cr_upstream route) u' (gw_snapshot gw),
          gw_metrics := (inc_upstream_retries ^^ m) (gw_metrics gw)\<rparr>, sent)"
    "same_group u u'"
    "loop_trace (forward_ctx dp ev route u req headers) u
       (attempt_limit u (replayable_body (dp_headers dp) u (rq_method req) headers)) 0 r sent"
    "m \<le> length sent" "length sent \<le> Suc m" "\<And>e. r = Err e \<Longrightarrow> e \<in> attempt_errors"
proof -
  let ?rep = "replayable_body (dp_headers dp) u (rq_method req) headers"
  let ?src = "prepare_body_source (dp_collect dp) (rq_body req) ?rep (sn_max_body_bytes (gw_snapshot gw))"
  let ?st = "\<lparr>as_up = u, as_metrics = gw_metrics gw, as_sent = []\<rparr>"
  have "up_wf (as_up ?st)" using passes_wf[OF assms(1) admit_passes[OF adm]] by simp
  from attempt_loop_run[OF this, of NoHealthyUpstream "forward_ctx dp ev route u req headers" "attempt_limit u ?rep" 0 ?src]
  obtain r st new m where
    "attempt_loop (forward_ctx dp ev route u req headers) (attempt_limit u ?rep) 0 NoHealthyUpstream ?src ?st = (Some r, st)"
    "as_sent st = new" "same_group u (as_up st)"
    "loop_trace (forward_ctx dp ev route u req headers) u (attempt_limit u ?rep) 0 r new"
    "as_metrics st = (inc_upstream_retries ^^ m) (gw_metrics gw)" "m \<le> length new" "length new \<le> Suc m"
    by auto
  note run = this
  have "e \<in> attempt_errors" if "r = Err e" for e
    by (rule attempt_loop_errors[of NoHealthyUpstream, OF _ arg_cong[OF run(1), of fst, unfolded fst_conv that]])
      (simp add: attempt_errors_def)
  with run forward_attempts_unfold[OF adm lim h refl run(1)] show ?thesis
    by (intro that[where r = r and u' = "as_up st" and sent = new and m = m]) simp_all
qed

text \<open>
  The contract of a handler: it returns, it never reports a missing upstream, and of the
  gateway it changes only the limiter, the state of the targets and two counters.
\<close>

definition handled ::
  "('n, 't) gateway \<Rightarrow> 'h outcome \<Rightarrow> ('n, 't) gateway \<Rightarrow> (nat \<times> ('h, 'u) upstream_request) list \<Rightarrow> bool" where
  "handled gw out gw' sent \<longleftrightarrow>
     (\<exists>r. out = Returned r \<and> r \<noteq> Err UpstreamMissing) \<and>
     same_config (gw_snapshot gw) (gw_snapshot gw') \<and> gw_id_counter gw' = gw_id_counter gw \<and>
     (\<exists>m w. gw_metrics gw' = (inc_websocket ^^ w) ((inc_upstream_retries ^^ m) (gw_metrics gw)) \<and>
        m \<le> length sent \<and> w \<le> length sent)"

lemma handledI:
  assumes "r \<noteq> Err UpstreamMissing" "same_config (gw_snapshot gw) (gw_snapshot gw')"
    and "gw_id_counter gw' = gw_id_counter gw"
    and "gw_metrics gw' = (inc_websocket ^^ w) ((inc_upstream_retries ^^ m) (gw_metrics gw))"
    and "m \<le> length sent" "w \<le> length sent"
  shows "handled gw (Returned r) gw' sent"
  using assms unfolding handled_def by blast

lemma handled_quiet:
  assumes "r \<noteq> Err UpstreamMissing" "same_config (gw_snapshot gw) (gw_snapshot gw')"
    and "gw_id_counter gw' = gw_id_counter gw" "gw_metrics gw' = gw_metrics gw"
  shows "handled gw (Returned r) gw' sent"
  using assms by (intro handledI[where w = 0 and m = 0]) simp_all


lemma finish_Err_iff: "finish dp snap route req r = Err e \<longleftrightarrow> r = Err e"
  by (simp add: finish_def Let_def split: sum.split)

lemma forward_handled:
  assumes "snapshot_wf (gw_snapshot gw)"
  shows "case forward dp ev gw lname req host scheme remote ip rid of (out, gw', sent) \<Rightarrow> handled gw out gw' sent"
proof (cases "admit dp (gw_snapshot gw) (gw_limiter gw) (ev_now ev) lname req host ip")
  case adm: (Pair a rl)
  show ?thesis
  proof (cases a)
    case (Inl e)
    then show ?thesis
      using forward_Err[of dp gw ev lname req host ip e rl] adm
        admit_Err_wf[OF assms, of dp "gw_limiter gw" "ev_now ev" lname req host ip e rl]
      by (auto intro!: handled_quiet)
  next
    case (Inr ru)
    then obtain route u where ru: "admit dp (gw_snapshot gw) (gw_limiter gw) (ev_now ev) lname req host ip = (Ok (route, u), rl)"
      using adm by (cases ru) auto
    show ?thesis
    proof (cases "body_exceeds_limit (dp_headers dp) (rq_headers req) (sn_max_body_bytes (gw_snapshot gw))")
      case True
      then show ?thesis using forward_oversize[OF ru True] by (auto intro!: handled_quiet)
    next
      case False
      obtain r u' sent m where run: "forward dp ev gw lname req host scheme remote ip rid =
          (Returned (finish dp (gw_snapshot gw) route req r),
           gw\<lparr>gw_limiter := rl, gw_snapshot := put_upstream (cr_upstream route) u' (gw_snapshot gw),
              gw_metrics := (inc_upstream_retries ^^ m) (gw_metrics gw)\<rparr>, sent)" "same_group u u'"
          "m \<le> length sent" "\<And>e. r = Err e \<Longrightarrow> e \<in> attempt_errors"
        by (rule forward_run[OF assms ru False refl, of scheme remote rid]) blast
      have up: "map_of (sn_upstreams (gw_snapshot gw)) (cr_upstream route) = Some u"
        using admit_passes[OF ru] by (simp add: passes_def)
      have "finish dp (gw_snapshot gw) route req r \<noteq> Err UpstreamMissing"
        using run(4) by (auto simp: finish_Err_iff attempt_errors_def)
      then show ?thesis
        unfolding run(1) prod.case using run(3) put_upstream_same_config[OF up run(2)]
        by (intro handledI[where w = 0 and m = m]) simp_all
    qed
  qed
qed


lemma handled_kept:
  assumes "map_of (sn_upstreams (gw_snapshot gw)) n = Some u" "same_group u v" "r \<noteq> Err UpstreamMissing"
  shows "handled gw (Returned r) (gw\<lparr>gw_limiter := rl, gw_snapshot := put_upstream n v (gw_snapshot gw)\<rparr>) sent"
    and "handled gw (Returned r) (gw\<lparr>gw_limiter := rl, gw_snapshot := put_upstream n v (gw_snapshot gw),
           gw_metrics := inc_websocket (gw_metrics gw)\<rparr>) (s # sent)"
  using put_upstream_same_config[OF assms(1,2)] assms(3)
  by (simp_all add: handled_quiet handledI[where w = 1 and m = 0])

lemma upgrade_handled:
  assumes "snapshot_wf (gw_snapshot gw)"
  shows "case handle_upgrade dp ev gw lname req host scheme remote ip rid of (out, gw', sent) \<Rightarrow> handled gw out gw' sent"
proof (cases "admit dp (gw_snapshot gw) (gw_limiter gw) (ev_now ev) lname req host ip")
  case adm: (Pair a rl)
  show ?thesis
  proof (cases a)
    case (Inl e)
    then show ?thesis
      using adm admit_Err_wf[OF assms, of dp "gw_limiter gw" "ev_now ev" lname req host ip e rl]
      by (auto simp: handle_upgrade_def intro!: handled_quiet)
  next
    case (Inr ru)
    then obtain route u where ru: "admit dp (gw_snapshot gw) (gw_limiter gw) (ev_now ev) lname req host ip = (Ok (route, u), rl)"
      using adm by (cases ru) auto
    have up: "map_of (sn_upstreams (gw_snapshot gw)) (cr_upstream route) = Some u"
      using admit_passes[OF ru] by (simp add: passes_def)
    have wf: "up_wf u" by (rule passes_wf[OF assms admit_passes[OF ru]])
    obtain p v where pick: "pick_target u = (p, v)" by (cases "pick_target u")
    have grp: "same_group u v" using same_group_pick[OF wf] pick by simp
    note kept = handled_kept[OF up grp]
    show ?thesis
    proof (cases p)
      case IndexPanic
      then show ?thesis using pick_target_not_panic[OF wf] pick by simp
    next
      case NoneHealthy
      then show ?thesis using ru pick by (simp add: handle_upgrade_def kept(1))
    next
      case (Picked i)
      have "i < length (up_targets u)" using pick_target_Picked[OF wf] pick Picked by auto
      then have "same_group u (observe_target now i ok v)" for now ok
        using same_group_trans[OF grp same_group_observe] same_group_length[OF grp] by simp
      note seen = handled_kept[OF up this]
      show ?thesis
        using ru pick Picked
        by (simp add: handle_upgrade_def Let_def kept(1) seen split: option.split)
    qed
  qed
qed


lemma snapshot_wf_built:
  assumes "config_wf net url_parse c" "build_snapshot_inner api net mfb ba c wt = Ok s"
  shows "snapshot_wf s"
  using snapshot_routes_servable[OF assms] unfolding snapshot_wf_def servable_def by blast

section \<open>The request handler\<close>

text \<open>What \<^const>\<open>handle\<close> derives from a request before it chooses a handler.\<close>

definition client_of :: "('h, 'n, 'u) deps \<Rightarrow> ('n, 't) RuntimeConfig \<Rightarrow> 'h request \<Rightarrow> socket_addr \<Rightarrow> ip_addr" where
  "client_of dp snap req remote =
     resolve_client_ip (dp_net dp) (sock_ip remote)
       (header_str (dp_headers dp) (rq_headers req) ''x-forwarded-for'') (sn_trusted_proxies snap)"

definition dispatch ::
  "('h, 'n, 'u) deps \<Rightarrow> 'h env \<Rightarrow> ('n, 't) gateway \<Rightarrow> 'h request \<Rightarrow> string \<Rightarrow> bool \<Rightarrow> socket_addr \<Rightarrow>
   'h outcome \<times> ('n, 't) gateway \<times> (nat \<times> ('h, 'u) upstream_request) list" where
  "dispatch dp ev gw req lname is_tls remote =
     (let api = dp_headers dp;
          (rid, ids) = ensure_request_id api req (ev_wall_nanos ev) (gw_id_counter gw);
          gw0 = gw\<lparr>gw_id_counter := ids, gw_metrics := inc_requests (gw_metrics gw)\<rparr>;
          go = (if is_upgrade api req then handle_upgrade else forward)
      in go dp ev gw0 lname req (request_host api req) (if is_tls then ''https'' else ''http'') remote
           (client_of dp (gw_snapshot gw) req remote) rid)"

text \<open>The counter an outcome is booked on.\<close>

fun tally :: "('h forwarded, GatewayError) result \<Rightarrow> Metrics \<Rightarrow> Metrics" where
  "tally (Inr _) = inc_upstream_requests"
| "tally (Inl e) =
     (if e = RouteNotFound then inc_route_not_found else if is_client_error e then id else inc_upstream_errors)"

fun reply :: "'h header_api \<Rightarrow> string \<Rightarrow> ('h forwarded, GatewayError) result \<Rightarrow> 'h response" where
  "reply api rid (Inr (Forwarded r _ _)) = r"
| "reply api rid (Inl e) = error_response api e rid"

lemma handle_dispatch:
  assumes "dispatch dp ev gw req lname is_tls remote = (Returned r, gw1, sent)"
  shows "handle dp ev gw req lname is_tls remote =
    (Some (reply (dp_headers dp) (fst (ensure_request_id (dp_headers dp) req (ev_wall_nanos ev) (gw_id_counter gw))) r),
     gw1\<lparr>gw_metrics := observe_duration (as_secs_f64 (ev_elapsed ev)) (tally r (gw_metrics gw1))\<rparr>, sent)"
  using assms
  by (cases r rule: tally.cases) (auto simp: handle_def dispatch_def client_of_def Let_def case_prod_unfold split: forwarded.splits)

lemma handle_panicked:
  assumes "dispatch dp ev gw req lname is_tls remote = (Panicked, gw1, sent)"
  shows "handle dp ev gw req lname is_tls remote = (None, gw1, sent)"
  using assms by (cases "is_upgrade (dp_headers dp) req")
    (auto simp: handle_def dispatch_def client_of_def Let_def case_prod_unfold)

lemma handle_sent:
  "snd (snd (handle dp ev gw req lname is_tls remote)) = snd (snd (dispatch dp ev gw req lname is_tls remote))"
proof (cases "dispatch dp ev gw req lname is_tls remote")
  case (fields out gw1 sent)
  then show ?thesis by (cases out) (simp_all add: handle_dispatch handle_panicked)
qed

lemma dispatch_handled:
  assumes "snapshot_wf (gw_snapshot gw)"
  obtains r gw1 sent where "dispatch dp ev gw req lname is_tls remote = (Returned r, gw1, sent)"
    "handled (gw\<lparr>gw_id_counter := snd (ensure_request_id (dp_headers dp) req (ev_wall_nanos ev) (gw_id_counter gw)),
        gw_metrics := inc_requests (gw_metrics gw)\<rparr>) (Returned r) gw1 sent"
proof -
  let ?gw = "gw\<lparr>gw_id_counter := snd (ensure_request_id (dp_headers dp) req (ev_wall_nanos ev) (gw_id_counter gw)),
        gw_metrics := inc_requests (gw_metrics gw)\<rparr>"
  obtain out gw1 sent where d: "dispatch dp ev gw req lname is_tls remote = (out, gw1, sent)"
    by (cases "dispatch dp ev gw req lname is_tls remote")
  have "snapshot_wf (gw_snapshot ?gw)" using assms by simp
  note h = forward_handled[OF this] upgrade_handled[OF this]
  have "case dispatch dp ev gw req lname is_tls remote of (out, gw', sent) \<Rightarrow> handled ?gw out gw' sent"
    by (cases "is_upgrade (dp_headers dp) req") (simp_all add: dispatch_def Let_def case_prod_unfold h[unfolded case_prod_unfold])
  then have "handled ?gw out gw1 sent" using d by simp
  then obtain r where "out = Returned r" "handled ?gw (Returned r) gw1 sent" by (auto simp: handled_def)
  with d show thesis by (intro that) simp_all
qed


text \<open>The counters that retries and upgrades leave alone.\<close>

lemma retries_frame [simp]:
  "mx_requests_total ((inc_upstream_retries ^^ m) M) = mx_requests_total M"
  "mx_request_duration ((inc_upstream_retries ^^ m) M) = mx_request_duration M"
  "mx_upstream_requests_total ((inc_upstream_retries ^^ m) M) = mx_upstream_requests_total M"
  "mx_upstream_errors_total ((inc_upstream_retries ^^ m) M) = mx_upstream_errors_total M"
  "mx_route_not_found_total ((inc_upstream_retries ^^ m) M) = mx_route_not_found_total M"
  by (induction m) (simp_all add: inc_upstream_retries_def)

lemma websocket_frame [simp]:
  "mx_requests_total ((inc_websocket ^^ m) M) = mx_requests_total M"
  "mx_request_duration ((inc_websocket ^^ m) M) = mx_request_duration M"
  "mx_upstream_requests_total ((inc_websocket ^^ m) M) = mx_upstream_requests_total M"
  "mx_upstream_errors_total ((inc_websocket ^^ m) M) = mx_upstream_errors_total M"
  "mx_route_not_found_total ((inc_websocket ^^ m) M) = mx_route_not_found_total M"
  by (induction m) (simp_all add: inc_websocket_def)

lemma tally_fields:
  "mx_requests_total (tally r M) = mx_requests_total M"
  "mx_request_duration (tally r M) = mx_request_duration M"
  "mx_upstream_requests_total (tally r M) = mx_upstream_requests_total M + of_bool (\<not> isl r)"
  "mx_upstream_errors_total (tally r M) = mx_upstream_errors_total M + of_bool (isl r \<and> \<not> is_client_error (projl r))"
  "mx_route_not_found_total (tally r M) = mx_route_not_found_total M + of_bool (r = Err RouteNotFound)"
  by (cases r; simp add: metrics_defs is_client_error_def)+

text \<open>An upgrade is sent once at most, without a body.\<close>

lemma build_upgrade_request_body: "build_upgrade_request dp req pq au fh sc remote rid = Some rq \<Longrightarrow> ur_body rq = FullBody []"
  by (auto simp: build_upgrade_request_def Let_def split: option.splits)

lemma dispatch_upgrade_sent:
  assumes "dispatch dp ev gw req lname is_tls remote = (out, gw1, sent)" "sent \<noteq> []" "is_upgrade (dp_headers dp) req"
  shows "\<exists>i rq. sent = [(i, rq)] \<and> ur_body rq = FullBody []"
  using assms build_upgrade_request_body
  by (auto simp: dispatch_def Let_def handle_upgrade_def split: option.splits prod.splits sum.splits pick.splits if_splits)

lemma dispatch_sent:
  assumes "dispatch dp ev gw req lname is_tls remote = (out, gw1, sent)" "sent \<noteq> []"
  obtains route u rl where
    "admit dp (gw_snapshot gw) (gw_limiter gw) (ev_now ev) lname req (request_host (dp_headers dp) req)
       (client_of dp (gw_snapshot gw) req remote) = (Ok (route, u), rl)"
    "\<not> is_upgrade (dp_headers dp) req \<Longrightarrow>
       \<not> body_exceeds_limit (dp_headers dp) (rq_headers req) (sn_max_body_bytes (gw_snapshot gw))"
proof (cases "admit dp (gw_snapshot gw) (gw_limiter gw) (ev_now ev) lname req (request_host (dp_headers dp) req)
    (client_of dp (gw_snapshot gw) req remote)")
  case adm: (Pair a rl)
  show thesis
  proof (cases a)
    case (Inl e)
    then have "sent = []"
      using assms(1) adm
      by (simp add: dispatch_def Let_def case_prod_unfold forward_def handle_upgrade_def split: if_splits)
    then show thesis using assms(2) by simp
  next
    case (Inr ru)
    obtain route u where ru: "ru = (route, u)" by (cases ru)
    show thesis
    proof (rule that[of route u rl])
      show "admit dp (gw_snapshot gw) (gw_limiter gw) (ev_now ev) lname req (request_host (dp_headers dp) req)
        (client_of dp (gw_snapshot gw) req remote) = (Ok (route, u), rl)" using adm Inr ru by simp
      show "\<not> body_exceeds_limit (dp_headers dp) (rq_headers req) (sn_max_body_bytes (gw_snapshot gw))"
        if "\<not> is_upgrade (dp_headers dp) req"
        using assms that adm Inr ru by (auto simp: dispatch_def Let_def case_prod_unfold forward_def)
    qed
  qed
qed


text \<open>One request on a snapshot in service, in terms of its outcome.\<close>

lemma handle_outcome:
  assumes "snapshot_wf (gw_snapshot gw)"
  obtains r gw1 sent m w where
    "handle dp ev gw req lname is_tls remote =
      (Some (reply (dp_headers dp) (fst (ensure_request_id (dp_headers dp) req (ev_wall_nanos ev) (gw_id_counter gw))) r),
       gw1\<lparr>gw_metrics := observe_duration (as_secs_f64 (ev_elapsed ev))
         (tally r ((inc_websocket ^^ w) ((inc_upstream_retries ^^ m) (inc_requests (gw_metrics gw)))))\<rparr>, sent)"
    "r \<noteq> Err UpstreamMissing" "same_config (gw_snapshot gw) (gw_snapshot gw1)" "m \<le> length sent"
proof -
  obtain r gw1 sent where d: "dispatch dp ev gw req lname is_tls remote = (Returned r, gw1, sent)"
    "handled (gw\<lparr>gw_id_counter := snd (ensure_request_id (dp_headers dp) req (ev_wall_nanos ev) (gw_id_counter gw)),
        gw_metrics := inc_requests (gw_metrics gw)\<rparr>) (Returned r) gw1 sent"
    using dispatch_handled[OF assms] by blast
  then obtain m w where h: "gw_metrics gw1 = (inc_websocket ^^ w) ((inc_upstream_retries ^^ m) (inc_requests (gw_metrics gw)))"
    "r \<noteq> Err UpstreamMissing" "same_config (gw_snapshot gw) (gw_snapshot gw1)" "m \<le> length sent"
    unfolding handled_def by auto
  show thesis by (rule that[OF handle_dispatch[OF d(1), unfolded h(1)] h(2-4)])
qed

text \<open>The attempts a retry policy allows a request of a method.\<close>

definition policy_attempts :: "RetryPolicy option \<Rightarrow> string \<Rightarrow> nat" where
  "policy_attempts policy method =
     (case policy of Some p \<Rightarrow> if allows_method p method then max 1 (unat (rp_max_attempts p)) else 1 | None \<Rightarrow> 1)"

lemma attempt_limit_le:
  "attempt_limit u (replayable_body api u method headers) \<le> policy_attempts (up_retry u) method"
  by (auto simp: attempt_limit_def policy_attempts_def replayable_body_def split: option.split)

text \<open>What the requests of one forwarding have in common.\<close>

definition well_sent ::
  "('h, 'n, 'u) deps \<Rightarrow> 'n CompiledRoute \<Rightarrow> UpstreamRuntime \<Rightarrow> 'h request \<Rightarrow> 'h \<Rightarrow> nat \<times> ('h, 'u) upstream_request \<Rightarrow> bool" where
  "well_sent dp route u req headers s \<longleftrightarrow>
     fst s < length (up_targets u) \<and> fst s \<in> set (up_schedule u) \<and> ur_method (snd s) = rq_method req \<and>
     ur_headers (snd s) = headers \<and>
     build_upstream_uri (dp_uri dp) (tr_url (up_targets u ! fst s))
       (rewritten_path_and_query route (rq_path_and_query req)) = Some (ur_uri (snd s))"

lemma sent_ok_well_sent: "sent_ok (forward_ctx dp ev route u req headers) u s \<Longrightarrow> well_sent dp route u req headers s"
  by (simp add: sent_ok_def forward_ctx_def well_sent_def)

lemma forward_trace:
  assumes "snapshot_wf (gw_snapshot gw)"
    and "forward dp ev gw lname req host scheme remote ip rid = (out, gw', sent)" "sent \<noteq> []"
  obtains route u r where "passes dp (gw_snapshot gw) (gw_limiter gw) (ev_now ev) lname req host ip route u"
    "out = Returned (finish dp (gw_snapshot gw) route req r)"
    "length sent \<le> policy_attempts (up_retry u) (rq_method req)"
    "\<forall>s \<in> set sent. well_sent dp route u req (forward_headers (dp_headers dp) route req host scheme remote rid) s"
    "\<forall>j < length sent. at_result (ev_attempts ev j) = Elapsed \<longrightarrow> Suc j = length sent \<and> r = Err UpstreamTimeout"
    "\<forall>resp. r = Ok resp \<longrightarrow> (\<exists>j. length sent = Suc j \<and> at_result (ev_attempts ev j) = Answered resp)"
proof -
  obtain a rl where adm: "admit dp (gw_snapshot gw) (gw_limiter gw) (ev_now ev) lname req host ip = (a, rl)"
    by (cases "admit dp (gw_snapshot gw) (gw_limiter gw) (ev_now ev) lname req host ip")
  then obtain route u where ru: "a = Ok (route, u)"
    using forward_Err[where rl = rl and dp = dp and gw = gw and ev = ev] assms(2,3) by (cases a) fastforce+
  note adm = adm[unfolded ru]
  have lim: "\<not> body_exceeds_limit (dp_headers dp) (rq_headers req) (sn_max_body_bytes (gw_snapshot gw))"
    using forward_oversize[OF adm, of scheme remote rid] assms(2,3) by auto
  let ?h = "forward_headers (dp_headers dp) route req host scheme remote rid"
  let ?cx = "forward_ctx dp ev route u req ?h"
  obtain r where r: "out = Returned (finish dp (gw_snapshot gw) route req r)"
    "loop_trace ?cx u (attempt_limit u (replayable_body (dp_headers dp) u (rq_method req) ?h)) 0 r sent"
    using forward_run[OF assms(1) adm lim refl, of scheme remote rid] assms(2) by force
  note tr = r(2)[unfolded loop_trace_def]
  have env: "cx_env ?cx = ev_attempts ev" by (simp add: forward_ctx_def)
  show thesis
  proof (rule that[OF admit_passes[OF adm] r(1)])
    show "length sent \<le> policy_attempts (up_retry u) (rq_method req)"
      using conjunct1[OF tr] attempt_limit_le by (rule order_trans)
    show "\<forall>s \<in> set sent. well_sent dp route u req ?h s"
      by (intro ballI sent_ok_well_sent[of _ ev]) (rule bspec[OF conjunct1[OF conjunct2[OF tr]]])
  qed (use tr in \<open>simp_all add: env\<close>)
qed

section \<open>Capped bodies\<close>

fun data_size :: "body \<Rightarrow> nat" where
  "data_size [] = 0"
| "data_size (DataFrame d # b) = length d + data_size b"
| "data_size (_ # b) = data_size b"

text \<open>What polling an uncapped body returns, and the data a list of polls delivered.\<close>

fun passed_on :: "body_event \<Rightarrow> poll" where
  "passed_on NotReady = Pending"
| "passed_on (BodyError e) = Fails e"
| "passed_on f = Yields f"

definition yielded :: "poll list \<Rightarrow> nat" where
  "yielded ps = sum_list (map (\<lambda>p. case p of Yields (DataFrame d) \<Rightarrow> length d | _ \<Rightarrow> 0) ps)"

lemma yielded_simps [simp]:
  "yielded [] = 0" "yielded (Pending # ps) = yielded ps" "yielded (Ended # ps) = yielded ps"
  "yielded (Fails e # ps) = yielded ps" "yielded (Yields TrailerFrame # ps) = yielded ps"
  "yielded (Yields (DataFrame d) # ps) = length d + yielded ps"
  by (simp_all add: yielded_def)

definition cap_inv :: "CappedBody \<Rightarrow> bool" where
  "cap_inv b \<longleftrightarrow>
     unat (cb_seen b) + data_size (cb_inner b) < 2 ^ 64 \<and> (cb_exceeded b \<longleftrightarrow> cb_limit b < cb_seen b)"

lemma unat_add_length: "unat (w :: u64) + n < 2 ^ 64 \<Longrightarrow> unat (w + of_nat n) = unat w + n"
  by (simp add: unat_word_ariths unat_of_nat)

lemma yielded_Cons: "yielded (p # ps) = yielded [p] + yielded ps"
  by (simp add: yielded_def)

lemma data_size_Cons: "data_size (e # b) = data_size [e] + data_size b"
  by (cases e) simp_all

text \<open>One poll of a capped body.\<close>

lemma poll_frame_capped:
  assumes "cap_inv b" "poll_frame b = (p, b1)"
  shows "cap_inv b1" "cb_limit b1 = cb_limit b" "cb_inner b1 = tl (cb_inner b)"
    and "unat (cb_seen b1) = unat (cb_seen b) + data_size (take 1 (cb_inner b))"
    and "cb_exceeded b1 \<Longrightarrow> yielded [p] = 0"
    and "\<not> cb_exceeded b1 \<Longrightarrow> p = (case cb_inner b of [] \<Rightarrow> Ended | e # _ \<Rightarrow> passed_on e) \<and>
      yielded [p] = data_size (take 1 (cb_inner b))"
proof -
  have fits: "unat (cb_seen b + word_of_nat (length d)) = unat (cb_seen b) + length d"
    if "cb_inner b = DataFrame d # rest" for d rest
    using assms(1) that by (intro unat_add_length) (simp add: cap_inv_def)
  show "cap_inv b1" "cb_limit b1 = cb_limit b" "cb_inner b1 = tl (cb_inner b)"
    "unat (cb_seen b1) = unat (cb_seen b) + data_size (take 1 (cb_inner b))"
    "cb_exceeded b1 \<Longrightarrow> yielded [p] = 0"
    "\<not> cb_exceeded b1 \<Longrightarrow> p = (case cb_inner b of [] \<Rightarrow> Ended | e # _ \<Rightarrow> passed_on e) \<and>
      yielded [p] = data_size (take 1 (cb_inner b))"
    using assms fits
    by (auto simp: poll_frame_def cap_inv_def word_less_nat_alt Let_def split: list.splits body_event.splits if_splits)
qed

lemma polls_capped:
  assumes "cap_inv b" "polls n b = (ps, b')"
  shows "(cb_exceeded b' \<longleftrightarrow> unat (cb_limit b) < unat (cb_seen b) + data_size (take n (cb_inner b))) \<and>
    (cb_exceeded b \<longrightarrow> yielded ps = 0) \<and>
    (\<not> cb_exceeded b \<longrightarrow> unat (cb_seen b) + yielded ps \<le> unat (cb_limit b)) \<and>
    (\<not> cb_exceeded b' \<longrightarrow> ps = map passed_on (take n (cb_inner b)) @ replicate (n - length (cb_inner b)) Ended)"
  using assms
proof (induction n arbitrary: b ps)
  case 0
  then show ?case by (simp add: cap_inv_def word_less_nat_alt)
next
  case (Suc n)
  obtain p b1 qs where step: "poll_frame b = (p, b1)" "polls n b1 = (qs, b')" "ps = p # qs"
    using Suc.prems(2) by (auto split: prod.splits)
  note p = poll_frame_capped[OF Suc.prems(1) step(1)]
  note IH = Suc.IH[OF p(1) step(2), unfolded p(2,3)]
  have size: "data_size (take (Suc n) (cb_inner b)) = data_size (take 1 (cb_inner b)) + data_size (take n (tl (cb_inner b)))"
    proof (cases "cb_inner b")
    case (Cons e rest)
    then show ?thesis using data_size_Cons[of e "take n rest"] by simp
  qed simp
  have ex: "cb_exceeded b \<longleftrightarrow> unat (cb_limit b) < unat (cb_seen b)" "cb_exceeded b1 \<longleftrightarrow> unat (cb_limit b) < unat (cb_seen b1)"
    using Suc.prems(1) p(1,2) by (simp_all add: cap_inv_def word_less_nat_alt)
  have "ps = map passed_on (take (Suc n) (cb_inner b)) @ replicate (Suc n - length (cb_inner b)) Ended" if "\<not> cb_exceeded b'"
  proof -
    have "\<not> cb_exceeded b1" using that IH ex(2) by auto
    then show ?thesis using that IH p(6) step(3) by (cases "cb_inner b") simp_all
  qed
  moreover have "yielded ps = yielded [p] + yielded qs" unfolding step(3) by (rule yielded_Cons)
  moreover have "cb_exceeded b' \<longleftrightarrow> unat (cb_limit b) < unat (cb_seen b) + data_size (take (Suc n) (cb_inner b))"
    using IH p(4) size by (simp add: add.assoc)
  moreover have "yielded ps = 0" if "cb_exceeded b"
  proof -
    have "cb_exceeded b1" using that ex p(4) by simp
    then show ?thesis using IH p(5) \<open>yielded ps = _\<close> by simp
  qed
  moreover have "unat (cb_seen b) + yielded ps \<le> unat (cb_limit b)" if "\<not> cb_exceeded b"
  proof (cases "cb_exceeded b1")
    case True
    then show ?thesis using IH p(5) \<open>yielded ps = _\<close> that ex(1) by simp
  next
    case False
    then have "unat (cb_seen b1) + yielded qs \<le> unat (cb_limit b)" using IH by blast
    then show ?thesis using p(4) conjunct2[OF p(6)[OF False]] \<open>yielded ps = _\<close> by simp
  qed
  ultimately show ?case by blast
qed

section \<open>Properties\<close>

text \<open>Accounting: every request on a snapshot in service is counted once, its duration
  observed once, and its outcome booked on exactly one of the counters for forwarded
  requests, gateway errors and unmatched routes, or on none of them when the client is refused.\<close>

theorem metrics_account_for_requests:
  assumes "snapshot_wf (gw_snapshot gw)"
  shows "\<exists>r gw' sent. handle dp ev gw req lname is_tls remote =
      (Some (reply (dp_headers dp) (fst (ensure_request_id (dp_headers dp) req (ev_wall_nanos ev) (gw_id_counter gw))) r), gw', sent) \<and>
    mx_requests_total (gw_metrics gw') = mx_requests_total (gw_metrics gw) + 1 \<and>
    mx_request_duration (gw_metrics gw') = mx_request_duration (gw_metrics gw) @ [as_secs_f64 (ev_elapsed ev)] \<and>
    mx_upstream_requests_total (gw_metrics gw') =
      mx_upstream_requests_total (gw_metrics gw) + of_bool (\<not> isl r) \<and>
    mx_upstream_errors_total (gw_metrics gw') =
      mx_upstream_errors_total (gw_metrics gw) + of_bool (isl r \<and> \<not> is_client_error (projl r)) \<and>
    mx_route_not_found_total (gw_metrics gw') =
      mx_route_not_found_total (gw_metrics gw) + of_bool (r = Err RouteNotFound)"
proof -
  obtain r gw1 sent m w where "handle dp ev gw req lname is_tls remote =
      (Some (reply (dp_headers dp) (fst (ensure_request_id (dp_headers dp) req (ev_wall_nanos ev) (gw_id_counter gw))) r),
       gw1\<lparr>gw_metrics := observe_duration (as_secs_f64 (ev_elapsed ev))
         (tally r ((inc_websocket ^^ w) ((inc_upstream_retries ^^ m) (inc_requests (gw_metrics gw)))))\<rparr>, sent)"
    by (rule handle_outcome[OF assms])
  then show ?thesis
    by (intro exI conjI, assumption) (simp_all add: tally_fields observe_duration_def, simp_all add: inc_requests_def)
qed

text \<open>C4. No request reaches an upstream unless it was admitted: some listener of that name has a
  route for it, the client address passes the route's IP access lists, the rate limiter
  granted a token and the credentials match when the route asks for them. A request that is
  forwarded declares no body over the limit. The limit is not asked for an upgrade, but an
  upgrade takes no body of the client's upstream: it is sent once, with an empty one. The
  snapshot may be any.\<close>

theorem nothing_sent_unless_admitted:
  assumes "handle dp ev gw req lname is_tls remote = (resp, gw', sent)" "sent \<noteq> []"
  shows "(\<exists>route u. passes dp (gw_snapshot gw) (gw_limiter gw) (ev_now ev) lname req (request_host (dp_headers dp) req)
      (client_of dp (gw_snapshot gw) req remote) route u) \<and>
    (if is_upgrade (dp_headers dp) req then \<exists>i rq. sent = [(i, rq)] \<and> ur_body rq = FullBody []
     else \<not> body_exceeds_limit (dp_headers dp) (rq_headers req) (sn_max_body_bytes (gw_snapshot gw)))"
proof -
  obtain out gw1 sent' where d: "dispatch dp ev gw req lname is_tls remote = (out, gw1, sent')"
    by (cases "dispatch dp ev gw req lname is_tls remote")
  have "sent' = sent" using handle_sent[of dp ev gw req lname is_tls remote] assms(1) d by simp
  then show ?thesis
    using dispatch_sent[OF d] dispatch_upgrade_sent[OF d] assms(2) admit_passes by (metis (no_types, lifting))
qed


text \<open>C5. The retry loop: a forwarded request is sent at most as often as the retry policy allows
  its method, and once without a policy; every send goes to an existing target of the
  route's upstream with the rewritten head; an attempt that times out is the last one and
  ends in a timeout error; and a response handed back is the answer to the last attempt.\<close>

theorem forward_attempts:
  assumes "snapshot_wf (gw_snapshot gw)"
    and "forward dp ev gw lname req host scheme remote ip rid = (out, gw', sent)" "sent \<noteq> []"
  shows "\<exists>route u. passes dp (gw_snapshot gw) (gw_limiter gw) (ev_now ev) lname req host ip route u \<and>
    length sent \<le> policy_attempts (up_retry u) (rq_method req) \<and>
    (\<forall>s \<in> set sent. well_sent dp route u req (forward_headers (dp_headers dp) route req host scheme remote rid) s) \<and>
    (\<forall>j < length sent. at_result (ev_attempts ev j) = Elapsed \<longrightarrow>
       Suc j = length sent \<and> out = Returned (Err UpstreamTimeout)) \<and>
    (\<forall>f. out = Returned (Ok f) \<longrightarrow>
       (\<exists>j resp. length sent = Suc j \<and> at_result (ev_attempts ev j) = Answered resp \<and>
          finish dp (gw_snapshot gw) route req (Ok resp) = Ok f))"
proof -
  obtain route u r where tr: "passes dp (gw_snapshot gw) (gw_limiter gw) (ev_now ev) lname req host ip route u"
    "out = Returned (finish dp (gw_snapshot gw) route req r)"
    "length sent \<le> policy_attempts (up_retry u) (rq_method req)"
    "\<forall>s \<in> set sent. well_sent dp route u req (forward_headers (dp_headers dp) route req host scheme remote rid) s"
    "\<forall>j < length sent. at_result (ev_attempts ev j) = Elapsed \<longrightarrow> Suc j = length sent \<and> r = Err UpstreamTimeout"
    "\<forall>resp. r = Ok resp \<longrightarrow> (\<exists>j. length sent = Suc j \<and> at_result (ev_attempts ev j) = Answered resp)"
    by (rule forward_trace[OF assms])
  have "\<forall>f. out = Returned (Ok f) \<longrightarrow> (\<exists>resp. r = Ok resp \<and> finish dp (gw_snapshot gw) route req (Ok resp) = Ok f)"
    using tr(2) by (cases r) (simp_all add: finish_def)
  then show ?thesis using tr by (intro exI[of _ route] exI[of _ u]) (auto simp: finish_Err_iff)
qed


text \<open>C22. A streamed body under \<open>maxBodyBytes\<close>: however often it is polled, the upstream is handed
  at most the limit; the overflow flag is set exactly when the polled part of the body is
  over the limit; and until then every frame, error and pause is passed on unchanged.\<close>

theorem capped_body_enforces_limit:
  assumes "data_size body < 2 ^ 64"
    and "polls n \<lparr>cb_inner = body, cb_limit = limit, cb_seen = 0, cb_exceeded = False\<rparr> = (ps, b)"
  shows "yielded ps \<le> unat limit \<and> (cb_exceeded b \<longleftrightarrow> unat limit < data_size (take n body)) \<and>
    (\<not> cb_exceeded b \<longrightarrow> ps = map passed_on (take n body) @ replicate (n - length body) Ended)"
proof -
  have "cap_inv \<lparr>cb_inner = body, cb_limit = limit, cb_seen = 0, cb_exceeded = False\<rparr>"
    using assms(1) by (simp add: cap_inv_def)
  from polls_capped[OF this assms(2)] show ?thesis by simp
qed

text \<open>A body that cannot be buffered for replay is not forwarded at all: when retries apply and
  the undeclared body is over the 64 KiB buffer (or breaks off), the request ends in
  \<open>no_healthy_upstream\<close> without a single attempt, whatever the health of the targets.\<close>

theorem unbuffered_body_is_refused:
  assumes "snapshot_wf (gw_snapshot gw)"
    and "admit dp (gw_snapshot gw) (gw_limiter gw) (ev_now ev) lname req host ip = (Ok (route, u), rl)"
    and "replayable_body (dp_headers dp) u (rq_method req)
      (forward_headers (dp_headers dp) route req host scheme remote rid)"
    and "\<not> body_exceeds_limit (dp_headers dp) (rq_headers req) (sn_max_body_bytes (gw_snapshot gw))"
    and "dp_collect dp (unat BODY_BUFFER_CAP) (rq_body req) = None"
  shows "\<exists>gw'. forward dp ev gw lname req host scheme remote ip rid = (Returned (Err NoHealthyUpstream), gw', [])"
proof -
  let ?h = "forward_headers (dp_headers dp) route req host scheme remote rid"
  let ?st = "\<lparr>as_up = u, as_metrics = gw_metrics gw, as_sent = []\<rparr>"
  obtain n where n: "attempt_limit u True = Suc n"
    using assms(3) by (cases "attempt_limit u True")
      (auto simp: replayable_body_def attempt_limit_def unat_gt_0 word_less_nat_alt split: option.splits if_splits)
  obtain p v where pick: "pick_target u = (p, v)" by (cases "pick_target u")
  have "p \<noteq> IndexPanic"
    using pick_target_not_panic[OF passes_wf[OF assms(1) admit_passes[OF assms(2)]]] pick by simp
  then have "attempt_loop (forward_ctx dp ev route u req ?h) (attempt_limit u True) 0 NoHealthyUpstream
      (prepare_body_source (dp_collect dp) (rq_body req) True (sn_max_body_bytes (gw_snapshot gw))) ?st =
    (Some (Err NoHealthyUpstream), ?st\<lparr>as_up := v\<rparr>)"
    using pick assms(5)
    by (cases p) (simp_all add: n attempt_turn_def prepare_body_source_def next_body_def)
  from forward_attempts_unfold[OF assms(2,4) refl _ this] assms(3) show ?thesis
    by (simp add: finish_def)
qed


section \<open>Witnesses\<close>

definition data_of :: "body \<Rightarrow> string" where
  "data_of b = concat (map (\<lambda>e. case e of DataFrame d \<Rightarrow> d | _ \<Rightarrow> []) b)"

definition list_collect :: "nat \<Rightarrow> body \<Rightarrow> string option" where
  "list_collect n b =
     (if list_ex (\<lambda>e. case e of BodyError _ \<Rightarrow> True | _ \<Rightarrow> False) b \<or> n < length (data_of b) then None
      else Some (data_of b))"

definition example_deps :: "(header_list, ip_addr \<times> nat, string) deps" where
  "example_deps = \<lparr>dp_headers = list_headers, dp_net = prefix_nets, dp_uri = string_uri, dp_b64_decode = Some,
     dp_encode = (\<lambda>_ s. s), dp_hash = (\<lambda>_ _. 0), dp_collect = list_collect\<rparr>"

definition example_request :: "body \<Rightarrow> header_list request" where
  "example_request b = \<lparr>rq_method = ''GET'', rq_path = ''/x'', rq_path_and_query = Some ''/x'', rq_authority = None,
     rq_version = ''HTTP/1.1'', rq_headers = [(''host'', ''a.com'')], rq_body = b\<rparr>"

definition example_answer :: "header_list response" where
  "example_answer = \<lparr>res_status = 200, res_headers = [], res_body = ''ok''\<rparr>"

definition example_env :: "header_list attempt_result list \<Rightarrow> header_list env" where
  "example_env rs = \<lparr>ev_now = 0, ev_elapsed = 1, ev_wall_nanos = 7,
     ev_attempts = (\<lambda>k. \<lparr>at_result = (if k < length rs then rs ! k else Elapsed), at_polls = 3, at_now_ms = 5\<rparr>),
     ev_upgrade = \<lparr>ug_connects = True, ug_handshakes = True, ug_answer = None, ug_now_ms = 5\<rparr>\<rparr>"

definition example_snapshot :: "(ip_addr \<times> nat, unit) RuntimeConfig" where
  "example_snapshot = projr (build_reload_snapshot list_headers prefix_nets Some (\<lambda>_. Ok ()) example_config)"

definition example_gateway :: "(ip_addr \<times> nat, unit) gateway" where
  "example_gateway =
     \<lparr>gw_snapshot = example_snapshot, gw_limiter = RateLimiter_new, gw_metrics = Metrics_new, gw_id_counter = 0\<rparr>"

abbreviation example_client :: socket_addr where
  "example_client \<equiv> SocketAddr (V4 1 2 3 4) 80"

definition example_forward where
  "example_forward rs b gw =
     forward example_deps (example_env rs) gw ''web'' (example_request b) ''a.com'' ''http'' example_client
       (V4 1 2 3 4) ''id''"

lemma example_snapshot_wf: "snapshot_wf (gw_snapshot example_gateway)"
proof -
  have wf: "config_wf prefix_nets example_url_parse example_config"
    using example_config_valid by (simp add: validate_Ok_iff)
  then obtain s where s: "build_snapshot_inner list_headers prefix_nets Some (\<lambda>_. Ok ()) example_config False = Ok s"
    using validated_listeners_build[of prefix_nets example_url_parse example_config False] by blast
  then have "example_snapshot = s" by (simp add: example_snapshot_def build_reload_snapshot_def)
  then show ?thesis using snapshot_wf_built[OF wf s] by (simp add: example_gateway_def)
qed

theorem metrics_account_for_requests_witness:
  "\<exists>resp gw' sent. handle example_deps (example_env [Answered example_answer]) example_gateway (example_request []) ''web'' False
      example_client = (Some resp, gw', sent) \<and> mx_requests_total (gw_metrics gw') = 1 \<and>
      length (mx_request_duration (gw_metrics gw')) = 1"
  using metrics_account_for_requests[OF example_snapshot_wf, of example_deps "example_env [Answered example_answer]"
      "example_request []" "''web''" False example_client]
  by (elim exE conjE) (simp add: example_gateway_def Metrics_new_def)

theorem nothing_sent_unless_admitted_witness:
  "\<exists>route u. passes example_deps (gw_snapshot example_gateway) (gw_limiter example_gateway) 0 ''web'' (example_request [])
     (request_host list_headers (example_request [])) (client_of example_deps (gw_snapshot example_gateway) (example_request []) example_client) route u"
proof -
  let ?h = "handle example_deps (example_env [Answered example_answer]) example_gateway (example_request []) ''web'' False example_client"
  obtain resp gw' sent where h: "?h = (resp, gw', sent)" by (cases ?h)
  have "snd (snd ?h) \<noteq> []" unfolding handle_sent by code_simp
  then have "sent \<noteq> []" unfolding h by simp
  from nothing_sent_unless_admitted[OF h this] show ?thesis
    unfolding example_env_def example_deps_def by simp
qed

theorem forward_attempts_witness:
  "\<exists>out gw' sent. example_forward [SendError, Elapsed] [] example_gateway = (out, gw', sent) \<and> length sent = 2 \<and>
     out = Returned (Err UpstreamTimeout)"
proof -
  obtain out gw' sent where f: "example_forward [SendError, Elapsed] [] example_gateway = (out, gw', sent)"
    by (cases "example_forward [SendError, Elapsed] [] example_gateway")
  have "length (snd (snd (example_forward [SendError, Elapsed] [] example_gateway))) = 2" by code_simp
  then have two: "length sent = 2" using f by simp
  then have "sent \<noteq> []" by auto
  from forward_attempts[OF example_snapshot_wf f[unfolded example_forward_def] this]
  have "\<forall>j < length sent. at_result (ev_attempts (example_env [SendError, Elapsed]) j) = Elapsed \<longrightarrow>
      out = Returned (Err UpstreamTimeout)" by blast
  then have "out = Returned (Err UpstreamTimeout)" using two by (simp add: example_env_def) (drule spec[of _ 1], simp)
  with f two show ?thesis by blast
qed


theorem capped_body_enforces_limit_witness:
  "\<exists>ps b. polls 3 \<lparr>cb_inner = [DataFrame ''abc'', NotReady, DataFrame ''def''], cb_limit = 4, cb_seen = 0, cb_exceeded = False\<rparr>
     = (ps, b) \<and> cb_exceeded b \<and> yielded ps \<le> 4"
proof -
  obtain ps b where p: "polls 3 \<lparr>cb_inner = [DataFrame ''abc'', NotReady, DataFrame ''def''], cb_limit = 4, cb_seen = 0,
      cb_exceeded = False\<rparr> = (ps, b)" by (metis surj_pair)
  have "data_size [DataFrame ''abc'', NotReady, DataFrame ''def''] < 2 ^ 64" by simp
  from capped_body_enforces_limit[OF this p] p show ?thesis by simp
qed

theorem unbuffered_body_is_refused_witness:
  "\<exists>gw'. example_forward [Answered example_answer] [BodyError ''reset''] example_gateway =
     (Returned (Err NoHealthyUpstream), gw', [])"
proof -
  let ?req = "example_request [BodyError ''reset'']"
  let ?adm = "admit example_deps example_snapshot RateLimiter_new 0 ''web'' ?req ''a.com'' (V4 1 2 3 4)"
  have "case ?adm of (Inr (route, u), _) \<Rightarrow> replayable_body list_headers u ''GET''
      (forward_headers list_headers route ?req ''a.com'' ''http'' example_client ''id'') | _ \<Rightarrow> False"
    by code_simp
  then obtain route u rl where "?adm = (Ok (route, u), rl)" "replayable_body list_headers u ''GET''
      (forward_headers list_headers route ?req ''a.com'' ''http'' example_client ''id'')"
    by (auto split: prod.splits sum.splits)
  moreover have "\<not> body_exceeds_limit list_headers (rq_headers ?req) (sn_max_body_bytes example_snapshot)"
    by code_simp
  ultimately show ?thesis
    using unbuffered_body_is_refused[OF example_snapshot_wf, of example_deps "example_env [Answered example_answer]" "''web''" ?req
        "''a.com''" "V4 1 2 3 4" route u rl "''http''" example_client "''id''"]
    by (simp add: example_forward_def example_gateway_def example_env_def example_deps_def example_request_def list_collect_def)
qed

text \<open>A buffered body is not held to \<open>maxBodyBytes\<close>: with retries configured and a limit of four
  bytes, a request that streams ten bytes without declaring them is forwarded whole and
  answered.\<close>

theorem buffered_body_ignores_limit:
  "case example_forward [Answered example_answer] [DataFrame ''0123456789'']
      (example_gateway\<lparr>gw_snapshot := example_snapshot\<lparr>sn_max_body_bytes := 4\<rparr>\<rparr>) of
     (Returned (Inr _), _, sent) \<Rightarrow> map (ur_body \<circ> snd) sent = [FullBody ''0123456789''] | _ \<Rightarrow> False"
  by code_simp

text \<open>A retry may go to the target that has just failed: with weights 2 and 1 and both targets
  healthy, the third request fails on the first target and is retried on it.\<close>

theorem retry_may_repeat_target:
  "case example_forward [Answered example_answer] [] example_gateway of (_, gw1, _) \<Rightarrow>
   case example_forward [Answered example_answer] [] gw1 of (_, gw2, _) \<Rightarrow>
   case example_forward [SendError, Answered example_answer] [] gw2 of (_, _, sent) \<Rightarrow> map fst sent = [0, 0]"
  by code_simp

end
