(* ===== verification/Admin_Api.thy ===== *)
theory Admin_Api
  imports Gateway
begin

text \<open>
  The admin endpoints (\<open>gatepup-admin/src/api.rs\<close>, \<open>health.rs\<close> and \<open>AdminState\<close> of \<open>lib.rs\<close>). A
  handler reads the live snapshot and the effective configuration; the only thing it writes
  is the health gauge of the metrics, at a scrape. Rendering JSON and the metrics text are
  parameters.
\<close>

unbundle bit_operations_syntax

section \<open>State and payloads\<close>

datatype AdminError = AdminBind socket_addr string   \<comment> \<open>bind, io error\<close>

record ('n, 't) AdminState =
  ads_bind :: socket_addr
  ads_snapshot :: "('n, 't) RuntimeConfig"
  ads_metrics :: Metrics
  ads_metrics_path :: "string option"
  ads_effective_config :: string
  ads_version :: string
  ads_token :: "string option"

datatype json =
    JNull
  | JBool bool
  | JNumber nat
  | JString string
  | JArray "json list"
  | JObject "(string \<times> json) list"

definition health_payload :: "string \<Rightarrow> json" where
  "health_payload version = JObject [(''status'', JString ''ok''), (''version'', JString version)]"

text \<open>The derived \<open>Serialize\<close> of the views, with the renamed fields.\<close>

definition json_of_route :: "RouteView \<Rightarrow> json" where
  "json_of_route r =
     JObject [(''listener'', JString (rv_listener r)), (''name'', JString (rv_name r)),
       (''host'', case rv_host r of Some h \<Rightarrow> JString h | None \<Rightarrow> JNull),
       (''pathPrefix'', JString (rv_path_prefix r)), (''upstream'', JString (rv_upstream r))]"

definition json_of_target :: "TargetView \<Rightarrow> json" where
  "json_of_target t =
     JObject [(''url'', JString (tv_url t)), (''healthy'', JBool (tv_healthy t)),
       (''lastCheckEpochMs'', JNumber (unat (tv_last_check_epoch_ms t)))]"

definition json_of_upstream :: "UpstreamView \<Rightarrow> json" where
  "json_of_upstream u =
     JObject [(''name'', JString (uv_name u)), (''targets'', JArray (map json_of_target (uv_targets u)))]"


section \<open>Responses\<close>

definition PROMETHEUS_CONTENT_TYPE :: string where
  "PROMETHEUS_CONTENT_TYPE = ''text/plain; version=0.0.4''"

definition response_of :: "'h header_api \<Rightarrow> nat \<Rightarrow> string \<Rightarrow> string \<Rightarrow> 'h response" where
  "response_of api status content_type body =
     \<lparr>res_status = status,
      res_headers = (case header_value api content_type of
                       Some v \<Rightarrow> hm_insert api (hm_empty api) ''content-type'' v
                     | None \<Rightarrow> hm_empty api),
      res_body = body\<rparr>"

definition json_response :: "'h header_api \<Rightarrow> (json \<Rightarrow> string option) \<Rightarrow> nat \<Rightarrow> json \<Rightarrow> 'h response" where
  "json_response api to_string status value =
     response_of api status ''application/json'' (case to_string value of Some s \<Rightarrow> s | None \<Rightarrow> ''{}'')"

definition unauthorized :: "'h header_api \<Rightarrow> (json \<Rightarrow> string option) \<Rightarrow> 'h response" where
  "unauthorized api to_string =
     (let resp = json_response api to_string 401 (JObject [(''error'', JString ''unauthorized'')])
      in resp\<lparr>res_headers := hm_insert api (res_headers resp) ''www-authenticate''
           (''Bearer realm='' @ [CHR 0x22] @ ''gatepup-admin'' @ [CHR 0x22])\<rparr>)"

definition admin_constant_time_eq :: "string \<Rightarrow> string \<Rightarrow> bool" where
  "admin_constant_time_eq a b =
     (if length a \<noteq> length b then False
      else foldl (\<lambda>diff (x, y). diff OR (x XOR y)) (0 :: u8) (zip (as_bytes a) (as_bytes b)) = 0)"

definition authorized :: "'h header_api \<Rightarrow> 'h request \<Rightarrow> string \<Rightarrow> bool" where
  "authorized api req secret =
     (case hm_get api (rq_headers req) ''authorization'' of
        Some v \<Rightarrow> admin_constant_time_eq v (''Bearer '' @ secret)
      | None \<Rightarrow> False)"


section \<open>Routing\<close>

definition scrape :: "('n, 't) AdminState \<Rightarrow> Metrics" where
  "scrape st = fold (\<lambda>(upstream, healthy). set_upstream_healthy upstream healthy) (healthy_counts (ads_snapshot st)) (ads_metrics st)"

definition admin_metrics :: "'h header_api \<Rightarrow> (Metrics \<Rightarrow> string) \<Rightarrow> ('n, 't) AdminState \<Rightarrow> 'h response \<times> Metrics" where
  "admin_metrics api encode st =
     (let m = scrape st in (response_of api 200 PROMETHEUS_CONTENT_TYPE (encode m), m))"

definition admin_page :: "'h header_api \<Rightarrow> (json \<Rightarrow> string option) \<Rightarrow> ('n, 't) AdminState \<Rightarrow> string \<Rightarrow> 'h response" where
  "admin_page api to_string st path =
     (if path = ''/health'' then json_response api to_string 200 (health_payload (ads_version st))
      else if path = ''/routes''
      then json_response api to_string 200 (JObject [(''routes'', JArray (map json_of_route (routes (ads_snapshot st))))])
      else if path = ''/upstreams''
      then json_response api to_string 200
             (JObject [(''upstreams'', JArray (map json_of_upstream (upstreams_view (ads_snapshot st))))])
      else if path = ''/config/effective'' then response_of api 200 ''application/json'' (ads_effective_config st)
      else json_response api to_string 404 (JObject [(''error'', JString ''not_found'')]))"

definition admin_route ::
  "'h header_api \<Rightarrow> (json \<Rightarrow> string option) \<Rightarrow> (Metrics \<Rightarrow> string) \<Rightarrow> ('n, 't) AdminState \<Rightarrow> 'h request \<Rightarrow>
   'h response \<times> Metrics" where
  "admin_route api to_string encode st req =
     (if rq_method req \<noteq> ''GET''
      then (json_response api to_string 405 (JObject [(''error'', JString ''method_not_allowed'')]), ads_metrics st)
      else if (case ads_token st of
                 Some secret \<Rightarrow> rq_path req \<noteq> ''/health'' \<and> \<not> authorized api req secret
               | None \<Rightarrow> False)
      then (unauthorized api to_string, ads_metrics st)
      else if ads_metrics_path st = Some (rq_path req) then admin_metrics api encode st
      else (admin_page api to_string st (rq_path req), ads_metrics st))"


section \<open>Scrapes\<close>

lemma admin_constant_time_eq_iff: "admin_constant_time_eq a b \<longleftrightarrow> a = b"
  using constant_time_eq_iff[of a b] by (simp only: admin_constant_time_eq_def constant_time_eq_def)

lemma authorized_iff: "authorized api req secret \<longleftrightarrow> hm_get api (rq_headers req) ''authorization'' = Some (''Bearer '' @ secret)"
  by (auto simp: authorized_def admin_constant_time_eq_iff split: option.split)

lemma fold_set_upstream_healthy:
  "distinct (map fst kvs) \<Longrightarrow>
   fold (\<lambda>(upstream, healthy). set_upstream_healthy upstream healthy) kvs m =
     m\<lparr>mx_upstream_healthy := mx_upstream_healthy m ++ map_of kvs\<rparr>"
proof (induction kvs arbitrary: m)
  case (Cons kv kvs)
  obtain k v where kv: "kv = (k, v)" by (cases kv)
  then have "map_of kvs k = None" using Cons.prems by (simp add: map_of_eq_None_iff image_image)
  then have "(mx_upstream_healthy m)(k \<mapsto> v) ++ map_of kvs = mx_upstream_healthy m ++ map_of (kv # kvs)"
    using kv by (auto simp: map_add_def fun_eq_iff split: option.split)
  then show ?case using Cons kv by (simp add: set_upstream_healthy_def del: map_of.simps fun_upd_apply)
qed (simp add: map_add_def)

lemma scrape_gauges:
  assumes "distinct (map fst (sn_upstreams (ads_snapshot st)))"
  shows "scrape st = (ads_metrics st)\<lparr>mx_upstream_healthy :=
      mx_upstream_healthy (ads_metrics st) ++ map_of (healthy_counts (ads_snapshot st))\<rparr>"
proof -
  have "distinct (map fst (healthy_counts (ads_snapshot st)))"
    using assms by (simp add: healthy_counts_def comp_def case_prod_unfold)
  then show ?thesis by (simp add: scrape_def fold_set_upstream_healthy)
qed

lemma map_of_healthy_counts:
  "map_of (healthy_counts s) n =
     map_option (\<lambda>u. int (length (filter (\<lambda>t. is_healthy (tr_state t)) (up_targets u)))) (map_of (sn_upstreams s) n)"
  by (simp add: healthy_counts_def map_of_map)

text \<open>No admin request changes anything but gauges.\<close>

lemma scrape_fields:
  "mx_requests_total (scrape st) = mx_requests_total (ads_metrics st)"
  "mx_request_duration (scrape st) = mx_request_duration (ads_metrics st)"
proof -
  have "mx_requests_total (fold (\<lambda>(n, k). set_upstream_healthy n k) kvs m) = mx_requests_total m \<and>
      mx_request_duration (fold (\<lambda>(n, k). set_upstream_healthy n k) kvs m) = mx_request_duration m" for kvs m
    by (induction kvs arbitrary: m) (auto simp: set_upstream_healthy_def)
  then show "mx_requests_total (scrape st) = mx_requests_total (ads_metrics st)"
    "mx_request_duration (scrape st) = mx_request_duration (ads_metrics st)"
    by (simp_all add: scrape_def)
qed

lemma admin_route_fields:
  "mx_requests_total (snd (admin_route api to_string encode st req)) = mx_requests_total (ads_metrics st)"
  "mx_request_duration (snd (admin_route api to_string encode st req)) = mx_request_duration (ads_metrics st)"
  by (simp_all add: admin_route_def admin_metrics_def scrape_fields Let_def)


section \<open>Properties\<close>

text \<open>C16. The token guard: when a token is configured, a request for any path but \<open>/health\<close>, which is
  open by design (and open with whatever is served there, see
  \<open>metrics_at_health_unguarded\<close>), without exactly \<open>Authorization: Bearer <token>\<close> learns nothing. Its response is the same whatever
  the snapshot, the metrics, the effective configuration and the token are, its status is
  401 (405 for other methods), and it changes nothing.\<close>

theorem admin_token_guards:
  assumes "rq_path req \<noteq> ''/health''"
    and "ads_token st = Some secret" "hm_get api (rq_headers req) ''authorization'' \<noteq> Some (''Bearer '' @ secret)"
    and "ads_token st' = Some secret'" "hm_get api (rq_headers req) ''authorization'' \<noteq> Some (''Bearer '' @ secret')"
  shows "fst (admin_route api to_string encode st req) = fst (admin_route api to_string encode st' req) \<and>
    res_status (fst (admin_route api to_string encode st req)) \<in> {401, 405} \<and>
    snd (admin_route api to_string encode st req) = ads_metrics st"
  using assms
  by (simp add: admin_route_def authorized_iff unauthorized_def json_response_def response_of_def Let_def)

text \<open>A scrape reports live health: after a scrape the gauge of every upstream of the snapshot
  is the number of its healthy targets right now, and no counter has changed; every other
  admin request leaves the metrics as they are.\<close>

theorem scrape_reports_live_health:
  assumes "distinct (map fst (sn_upstreams (ads_snapshot st)))"
    and "admin_route api to_string encode st req = (resp, m)"
  shows "m = (ads_metrics st)\<lparr>mx_upstream_healthy := mx_upstream_healthy m\<rparr> \<and>
    (ads_metrics_path st \<noteq> Some (rq_path req) \<longrightarrow> m = ads_metrics st) \<and>
    (ads_metrics_path st = Some (rq_path req) \<and> res_status resp = 200 \<longrightarrow> (\<forall>n u. map_of (sn_upstreams (ads_snapshot st)) n = Some u \<longrightarrow>
       mx_upstream_healthy m n = Some (int (length (filter (\<lambda>t. is_healthy (tr_state t)) (up_targets u))))))"
proof -
  consider "m = ads_metrics st" "ads_metrics_path st = Some (rq_path req) \<Longrightarrow> res_status resp \<noteq> 200"
    | "m = scrape st" "ads_metrics_path st = Some (rq_path req)"
    using assms(2) by (auto simp: admin_route_def admin_metrics_def unauthorized_def json_response_def response_of_def Let_def
        split: if_splits)
  then show ?thesis
    by cases (auto simp: scrape_gauges[OF assms(1)] map_of_healthy_counts map_add_def)
qed


text \<open>With the metrics endpoint at \<open>/health\<close> the token does not guard it.\<close>

theorem metrics_at_health_unguarded:
  assumes "rq_method req = ''GET''" "rq_path req = ''/health''" "ads_metrics_path st = Some ''/health''"
  shows "admin_route api to_string encode st req = admin_metrics api encode st"
  using assms by (cases "ads_token st") (simp_all add: admin_route_def)


section \<open>Witnesses\<close>

definition example_admin :: "(ip_addr \<times> nat, unit) AdminState" where
  "example_admin =
     \<lparr>ads_bind = SocketAddr (V4 127 0 0 1) 8080, ads_snapshot = example_snapshot, ads_metrics = Metrics_new,
      ads_metrics_path = Some ''/metrics'', ads_effective_config = ''{}'', ads_version = ''0.1'', ads_token = Some ''s3''\<rparr>"

definition admin_get :: "string \<Rightarrow> header_list \<Rightarrow> header_list request" where
  "admin_get path hs = (example_request [])\<lparr>rq_path := path, rq_headers := hs\<rparr>"

theorem admin_token_guards_witness:
  "res_status (fst (admin_route list_headers (\<lambda>_. None) (\<lambda>_. []) example_admin
     (admin_get ''/config/effective'' [(''authorization'', ''Bearer s4'')]))) \<in> {401, 405}"
  using admin_token_guards[of "admin_get ''/config/effective'' [(''authorization'', ''Bearer s4'')]" example_admin "''s3''"
      list_headers example_admin "''s3''" "\<lambda>_. None" "\<lambda>_. []"]
  by (simp add: admin_get_def example_admin_def list_headers_def list_get_all_def)

theorem scrape_reports_live_health_witness:
  "\<exists>resp m. admin_route list_headers (\<lambda>_. None) (\<lambda>_. []) example_admin
     (admin_get ''/metrics'' [(''authorization'', ''Bearer s3'')]) = (resp, m) \<and> mx_upstream_healthy m ''up'' = Some 2"
proof -
  let ?r = "admin_route list_headers (\<lambda>_. None) (\<lambda>_. []) example_admin (admin_get ''/metrics'' [(''authorization'', ''Bearer s3'')])"
  obtain resp m where r: "?r = (resp, m)" by (cases ?r)
  have "distinct (map fst (sn_upstreams (ads_snapshot example_admin)))" by code_simp
  note live = scrape_reports_live_health[OF this r]
  have "res_status (fst ?r) = 200" by code_simp
  moreover have "ads_metrics_path example_admin = Some (rq_path (admin_get ''/metrics'' [(''authorization'', ''Bearer s3'')]))"
    by (simp add: example_admin_def admin_get_def)
  moreover have "case map_of (sn_upstreams (ads_snapshot example_admin)) ''up'' of
      Some u \<Rightarrow> length (filter (\<lambda>t. is_healthy (tr_state t)) (up_targets u)) = 2 | None \<Rightarrow> False" by code_simp
  ultimately have "mx_upstream_healthy m ''up'' = Some 2" using live r by (auto split: option.splits)
  with r show ?thesis by blast
qed

text \<open>A gauge outlives its upstream: after a reload that drops it, a scrape still reports its last value.\<close>

theorem stale_gauge_survives_reload:
  "case admin_route list_headers (\<lambda>_. None) (\<lambda>_. []) example_admin (admin_get ''/metrics'' [(''authorization'', ''Bearer s3'')]) of
     (_, m) \<Rightarrow> (case admin_route list_headers (\<lambda>_. None) (\<lambda>_. [])
         (example_admin\<lparr>ads_snapshot := example_snapshot\<lparr>sn_upstreams := []\<rparr>, ads_metrics := m\<rparr>)
         (admin_get ''/metrics'' [(''authorization'', ''Bearer s3'')]) of
       (_, m') \<Rightarrow> mx_upstream_healthy m' ''up'' = Some 2)"
  by code_simp

end
