(* ===== verification/Resolve.thy ===== *)
theory Resolve
  imports Validator "HOL-Library.Code_Target_Nat"
begin

text \<open>
  Where the configuration comes from (\<open>gatepup-config/src/resolve.rs\<close>, \<open>loader.rs\<close> and
  \<open>ConfigError\<close> of \<open>error.rs\<close>): a file, inline JSON or the environment, with scalar overrides on
  top. Reading a file and deserializing JSON are parameters; the environment is a function
  from variable names, as in the source.
\<close>

section \<open>Sources\<close>

datatype ConfigError =
    Read string string                 \<comment> \<open>path, I/O error\<close>
  | Parse string string                \<comment> \<open>path, JSON error\<close>
  | ParseInline string
  | NoConfigSource
  | BadEnvValue string string string   \<comment> \<open>variable, value, reason\<close>

datatype ConfigSource = File string | Inline | Env

type_synonym environment = "string \<Rightarrow> string option"

record loader =
  read_to_string :: "string \<Rightarrow> (string, string) result"
  from_json :: "string \<Rightarrow> (GatePupConfig, string) result"

definition load_from_file :: "loader \<Rightarrow> string \<Rightarrow> (GatePupConfig, ConfigError) result" where
  "load_from_file ld path =
     (case read_to_string ld path of
        Err e \<Rightarrow> Err (Read path e)
      | Ok raw \<Rightarrow> (case from_json ld raw of Err e \<Rightarrow> Err (Parse path e) | Ok c \<Rightarrow> Ok c))"

definition env_bind :: "environment \<Rightarrow> string" where
  "env_bind get = (case get ''GATEPUP_LISTEN'' of Some b \<Rightarrow> b | None \<Rightarrow> ''0.0.0.0:8080'')"

definition env_targets :: "environment \<Rightarrow> TargetConfig list" where
  "env_targets get =
     (case get ''GATEPUP_UPSTREAM'' of
        Some csv \<Rightarrow>
          map (\<lambda>url. \<lparr>tg_url = url, tg_weight = 1\<rparr>) (filter (\<lambda>s. s \<noteq> []) (map trim (split_on (CHR '','') csv)))
      | None \<Rightarrow> [])"

definition env_tls :: "environment \<Rightarrow> TlsConfig option" where
  "env_tls get =
     (case (get ''GATEPUP_TLS_CERT'', get ''GATEPUP_TLS_KEY'') of
        (Some cert, Some key) \<Rightarrow> Some \<lparr>tls_cert = cert, tls_key = key\<rparr>
      | _ \<Rightarrow> None)"

definition env_health_check :: "environment \<Rightarrow> HealthCheckConfig option" where
  "env_health_check get =
     map_option (\<lambda>path. \<lparr>hc_enabled = True, hc_path = path, hc_interval_seconds = 10, hc_timeout_ms = 1000,
       hc_healthy_threshold = 2, hc_unhealthy_threshold = 3\<rparr>) (get ''GATEPUP_HEALTHCHECK_PATH'')"

definition build_from_env :: "environment \<Rightarrow> GatePupConfig" where
  "build_from_env get =
     \<lparr>cf_app = \<lparr>app_name = ''gatepup'', app_log_level = ''info''\<rparr>,
      cf_listeners =
        [\<lparr>ls_name = ''default'', ls_bind = env_bind get,
          ls_protocol = (if env_tls get \<noteq> None then Https else Http), ls_tls = env_tls get,
          ls_routes =
            [\<lparr>rt_name = ''default'',
              rt_matcher = \<lparr>mt_host = get ''GATEPUP_ROUTE_HOST'', mt_path_prefix = Some ''/''\<rparr>,
              rt_upstream = ''default'', rt_strip_prefix = False, rt_headers = None, rt_ip_access = None,
              rt_rate_limit = None, rt_basic_auth = None\<rparr>]\<rparr>],
      cf_upstreams =
        [\<lparr>us_name = ''default'', us_load_balancing = RoundRobin, us_targets = env_targets get,
          us_health_check = env_health_check get, us_retries = None, us_tls_insecure_skip_verify = False\<rparr>],
      cf_timeouts = TimeoutConfig_default, cf_limits = LimitsConfig_default, cf_trusted_proxies = [],
      cf_compression = None, cf_admin = None, cf_metrics = None\<rparr>"

definition base_config ::
  "loader \<Rightarrow> string option \<Rightarrow> environment \<Rightarrow> (GatePupConfig \<times> ConfigSource, ConfigError) result" where
  "base_config ld cli_path get =
     (case get ''GATEPUP_CONFIG'' of
        Some path \<Rightarrow> (case load_from_file ld path of Err e \<Rightarrow> Err e | Ok c \<Rightarrow> Ok (c, File path))
      | None \<Rightarrow>
     (case get ''GATEPUP_CONFIG_JSON'' of
        Some json \<Rightarrow> (case from_json ld json of Err e \<Rightarrow> Err (ParseInline e) | Ok c \<Rightarrow> Ok (c, Inline))
      | None \<Rightarrow>
     (case cli_path of
        Some path \<Rightarrow> (case load_from_file ld path of Err e \<Rightarrow> Err e | Ok c \<Rightarrow> Ok (c, File path))
      | None \<Rightarrow>
          if get ''GATEPUP_LISTEN'' \<noteq> None \<or> get ''GATEPUP_UPSTREAM'' \<noteq> None
          then Ok (build_from_env get, Env)
          else Err NoConfigSource)))"


section \<open>Overrides\<close>

definition parse_ms :: "string \<Rightarrow> string \<Rightarrow> (u64, ConfigError) result" where
  "parse_ms var value =
     (case parse_u64 value of
        Some n \<Rightarrow> Ok n
      | None \<Rightarrow> Err (BadEnvValue var value ''expected a non-negative integer (milliseconds)''))"

definition apply_overrides :: "GatePupConfig \<Rightarrow> environment \<Rightarrow> (GatePupConfig, ConfigError) result" where
  "apply_overrides config get =
     (let c1 = (case get ''GATEPUP_LOG'' of
                  Some level \<Rightarrow> config\<lparr>cf_app := (cf_app config)\<lparr>app_log_level := level\<rparr>\<rparr>
                | None \<Rightarrow> config);
          c2 = (case get ''GATEPUP_ADMIN'' of
                  Some b \<Rightarrow> c1\<lparr>cf_admin := Some \<lparr>ad_enabled = True, ad_bind = b, ad_token = get ''GATEPUP_ADMIN_TOKEN''\<rparr>\<rparr>
                | None \<Rightarrow> c1);
          c3 = (case get ''GATEPUP_METRICS_PATH'' of
                  Some path \<Rightarrow> c2\<lparr>cf_metrics := Some \<lparr>me_enabled = True, me_path = path\<rparr>\<rparr>
                | None \<Rightarrow> c2);
          r4 = (case get ''GATEPUP_TIMEOUT_CONNECT_MS'' of
                  Some v \<Rightarrow>
                    (case parse_ms ''GATEPUP_TIMEOUT_CONNECT_MS'' v of
                       Err e \<Rightarrow> Err e
                     | Ok n \<Rightarrow> Ok (c3\<lparr>cf_timeouts := (cf_timeouts c3)\<lparr>tmo_connect_timeout_ms := n\<rparr>\<rparr>))
                | None \<Rightarrow> Ok c3)
      in case r4 of
           Err e \<Rightarrow> Err e
         | Ok c4 \<Rightarrow>
             (case get ''GATEPUP_TIMEOUT_REQUEST_MS'' of
                Some v \<Rightarrow>
                  (case parse_ms ''GATEPUP_TIMEOUT_REQUEST_MS'' v of
                     Err e \<Rightarrow> Err e
                   | Ok n \<Rightarrow> Ok (c4\<lparr>cf_timeouts := (cf_timeouts c4)\<lparr>tmo_request_timeout_ms := n\<rparr>\<rparr>))
              | None \<Rightarrow> Ok c4))"

definition resolve_with ::
  "loader \<Rightarrow> string option \<Rightarrow> environment \<Rightarrow> (GatePupConfig \<times> ConfigSource, ConfigError) result" where
  "resolve_with ld cli_path get =
     (case base_config ld cli_path get of
        Err e \<Rightarrow> Err e
      | Ok (config, source) \<Rightarrow>
          (case apply_overrides config get of Err e \<Rightarrow> Err e | Ok c \<Rightarrow> Ok (c, source)))"


section \<open>The parts of a resolution\<close>

text \<open>The variables that override a field whatever the base is.\<close>

definition override_vars :: "string list" where
  "override_vars =
     [''GATEPUP_LOG'', ''GATEPUP_ADMIN'', ''GATEPUP_ADMIN_TOKEN'', ''GATEPUP_METRICS_PATH'',
      ''GATEPUP_TIMEOUT_CONNECT_MS'', ''GATEPUP_TIMEOUT_REQUEST_MS'']"

lemma apply_overrides_cong:
  assumes "\<forall>v \<in> set override_vars. get' v = get v"
  shows "apply_overrides c get' = apply_overrides c get"
proof -
  have "get' ''GATEPUP_LOG'' = get ''GATEPUP_LOG''" "get' ''GATEPUP_ADMIN'' = get ''GATEPUP_ADMIN''"
    "get' ''GATEPUP_ADMIN_TOKEN'' = get ''GATEPUP_ADMIN_TOKEN''" "get' ''GATEPUP_METRICS_PATH'' = get ''GATEPUP_METRICS_PATH''"
    "get' ''GATEPUP_TIMEOUT_CONNECT_MS'' = get ''GATEPUP_TIMEOUT_CONNECT_MS''"
    "get' ''GATEPUP_TIMEOUT_REQUEST_MS'' = get ''GATEPUP_TIMEOUT_REQUEST_MS''"
    using assms unfolding override_vars_def by (simp_all only: set_simps ball_simps)
  then show ?thesis by (simp only: apply_overrides_def)
qed

lemma parse_ms_Ok_iff: "parse_ms var v = Ok n \<longleftrightarrow> parse_u64 v = Some n"
  by (simp add: parse_ms_def split: option.split)

lemma apply_overrides_Ok:
  assumes "apply_overrides c get = Ok c'"
  shows "cf_admin c' = (case get ''GATEPUP_ADMIN'' of
           None \<Rightarrow> cf_admin c
         | Some b \<Rightarrow> Some \<lparr>ad_enabled = True, ad_bind = b, ad_token = get ''GATEPUP_ADMIN_TOKEN''\<rparr>)" (is ?admin)
    and "app_log_level (cf_app c') = (case get ''GATEPUP_LOG'' of None \<Rightarrow> app_log_level (cf_app c) | Some l \<Rightarrow> l)" (is ?level)
proof -
  define c1 where "c1 = (case get ''GATEPUP_LOG'' of Some level \<Rightarrow> c\<lparr>cf_app := (cf_app c)\<lparr>app_log_level := level\<rparr>\<rparr> | None \<Rightarrow> c)"
  define c2 where "c2 = (case get ''GATEPUP_ADMIN'' of
      Some b \<Rightarrow> c1\<lparr>cf_admin := Some \<lparr>ad_enabled = True, ad_bind = b, ad_token = get ''GATEPUP_ADMIN_TOKEN''\<rparr>\<rparr> | None \<Rightarrow> c1)"
  define c3 where "c3 = (case get ''GATEPUP_METRICS_PATH'' of
      Some path \<Rightarrow> c2\<lparr>cf_metrics := Some \<lparr>me_enabled = True, me_path = path\<rparr>\<rparr> | None \<Rightarrow> c2)"
  have "cf_admin c' = cf_admin c3 \<and> cf_app c' = cf_app c3"
    using assms unfolding apply_overrides_def Let_def c1_def[symmetric] c2_def[symmetric] c3_def[symmetric]
    by (auto split: option.splits sum.splits)
  moreover have "cf_admin c3 = cf_admin c2" "cf_app c3 = cf_app c2" by (simp_all add: c3_def split: option.split)
  moreover have "cf_app c2 = cf_app c1" by (simp add: c2_def split: option.split)
  moreover have "cf_admin c1 = cf_admin c" by (simp add: c1_def split: option.split)
  ultimately show ?admin ?level by (simp_all add: c1_def c2_def split: option.split)
qed

text \<open>The variables and files a resolution may read, from the source of highest precedence down.\<close>

fun same_source ::
  "loader \<times> string option \<times> environment \<Rightarrow> loader \<times> string option \<times> environment \<Rightarrow> bool" where
  "same_source (ld, cli, get) (ld', cli', get') \<longleftrightarrow>
     get' ''GATEPUP_CONFIG'' = get ''GATEPUP_CONFIG'' \<and> from_json ld' = from_json ld \<and>
     (case get ''GATEPUP_CONFIG'' of
        Some p \<Rightarrow> read_to_string ld' p = read_to_string ld p
      | None \<Rightarrow>
     get' ''GATEPUP_CONFIG_JSON'' = get ''GATEPUP_CONFIG_JSON'' \<and>
     (get ''GATEPUP_CONFIG_JSON'' = None \<longrightarrow>
        cli' = cli \<and>
        (case cli of
           Some p \<Rightarrow> read_to_string ld' p = read_to_string ld p
         | None \<Rightarrow> get' = get)))"

lemma load_from_file_cong:
  "from_json ld' = from_json ld \<Longrightarrow> read_to_string ld' p = read_to_string ld p \<Longrightarrow> load_from_file ld' p = load_from_file ld p"
  by (simp add: load_from_file_def split: sum.split)

lemma base_config_same_source:
  assumes "same_source (ld, cli, get) (ld', cli', get')"
  shows "base_config ld' cli' get' = base_config ld cli get"
proof (cases "get ''GATEPUP_CONFIG''")
  case (Some p)
  then have "load_from_file ld' p = load_from_file ld p" using assms by (intro load_from_file_cong) simp_all
  then show ?thesis using assms Some by (simp add: base_config_def)
next
  case none: None
  show ?thesis
  proof (cases "get ''GATEPUP_CONFIG_JSON''")
    case (Some json)
    then show ?thesis using assms none by (simp add: base_config_def)
  next
    case None
    show ?thesis
    proof (cases cli)
      case (Some p)
      then have "load_from_file ld' p = load_from_file ld p"
        using assms none None by (intro load_from_file_cong) simp_all
      then show ?thesis using assms none None Some by (simp add: base_config_def)
    next
      case no_cli: None
      then show ?thesis using assms none None by (simp add: base_config_def)
    qed
  qed
qed


section \<open>Properties\<close>

text \<open>C35. Precedence: a resolution depends on the first source present only, in the order
  \<open>GATEPUP_CONFIG\<close>, \<open>GATEPUP_CONFIG_JSON\<close>, the command line, the simple variables, and on the
  override variables; every other variable, file and argument may change without effect.\<close>

theorem higher_source_hides_lower:
  assumes "same_source (ld, cli, get) (ld', cli', get')" "\<forall>v \<in> set override_vars. get' v = get v"
  shows "resolve_with ld' cli' get' = resolve_with ld cli get"
  using base_config_same_source[OF assms(1)] apply_overrides_cong[OF assms(2)]
  by (simp add: resolve_with_def split: sum.split prod.split)

text \<open>C36. Simple mode: a configuration built from the environment is valid exactly when the bind
  address parses, at least one target is given and all targets are valid URLs, a wildcard
  host is well formed, and certificate and key, when both are set, are not empty. Nothing
  else in it can be rejected.\<close>

theorem env_config_valid_iff:
  "validate net url_parse (build_from_env get) = Ok () \<longleftrightarrow>
     parse_socket_addr (env_bind get) \<noteq> None \<and>
     env_targets get \<noteq> [] \<and> (\<forall>t \<in> set (env_targets get). is_valid_target_url url_parse (tg_url t)) \<and>
     (\<forall>h. get ''GATEPUP_ROUTE_HOST'' = Some h \<longrightarrow> CHR ''*'' \<in> set h \<longrightarrow> is_valid_wildcard_host h) \<and>
     (\<forall>t. env_tls get = Some t \<longrightarrow> tls_cert t \<noteq> [] \<and> tls_key t \<noteq> [])"
proof -
  have weights: "\<forall>t \<in> set (env_targets get). tg_weight t \<noteq> 0"
    by (auto simp: env_targets_def split: option.splits)
  have level: "to_ascii_lowercase ''info'' \<in> set log_levels" by code_simp
  show ?thesis
    unfolding validate_Ok_iff using weights level
    by (auto simp: config_wf_def build_from_env_def listener_wf_def tls_wf_def route_wf_def match_wf_def MatchConfig_is_empty_def
        upstream_wf_def env_health_check_def nets_wf_def
        TimeoutConfig_default_def default_connect_timeout_ms_def default_request_timeout_ms_def LimitsConfig_default_def
        split: option.splits)
qed


text \<open>
  \<open>GATEPUP_ADMIN_TOKEN\<close> alone does not protect an admin endpoint configured elsewhere, and
  \<open>GATEPUP_ADMIN\<close> without it drops the token the base configuration asks for.
\<close>

theorem admin_token_needs_admin_bind:
  assumes "base_config ld cli get = Ok (b, src)" "resolve_with ld cli get = Ok (c, src)"
  shows "get ''GATEPUP_ADMIN'' = None \<Longrightarrow> cf_admin c = cf_admin b"
    and "get ''GATEPUP_ADMIN'' = Some bnd \<Longrightarrow> get ''GATEPUP_ADMIN_TOKEN'' = None \<Longrightarrow>
      cf_admin c = Some \<lparr>ad_enabled = True, ad_bind = bnd, ad_token = None\<rparr>"
proof -
  have "apply_overrides b get = Ok c" using assms by (simp add: resolve_with_def split: sum.splits)
  from apply_overrides_Ok(1)[OF this]
  show "get ''GATEPUP_ADMIN'' = None \<Longrightarrow> cf_admin c = cf_admin b"
    and "get ''GATEPUP_ADMIN'' = Some bnd \<Longrightarrow> get ''GATEPUP_ADMIN_TOKEN'' = None \<Longrightarrow>
      cf_admin c = Some \<lparr>ad_enabled = True, ad_bind = bnd, ad_token = None\<rparr>" by auto
qed


section \<open>Witnesses\<close>

definition env_of :: "(string \<times> string) list \<Rightarrow> environment" where
  "env_of kvs = map_of kvs"

definition no_files :: loader where
  "no_files = \<lparr>read_to_string = (\<lambda>_. Err ''not found''), from_json = (\<lambda>_. Err ''no json'')\<rparr>"

theorem higher_source_hides_lower_witness:
  "resolve_with no_files (Some ''a.json'') (env_of [(''GATEPUP_CONFIG_JSON'', ''x''), (''GATEPUP_LISTEN'', ''y'')]) =
   resolve_with no_files None (env_of [(''GATEPUP_CONFIG_JSON'', ''x'')])"
  by (rule higher_source_hides_lower) (simp_all add: env_of_def override_vars_def)

theorem env_config_valid_iff_witness:
  "validate prefix_nets (\<lambda>s. if prefix ''http://'' s then Some (''http'', True) else None)
     (build_from_env (env_of [(''GATEPUP_UPSTREAM'', ''http://a:1, http://b:2'')])) = Ok ()"
proof -
  have "parse_socket_addr (env_bind (env_of [(''GATEPUP_UPSTREAM'', ''http://a:1, http://b:2'')])) \<noteq> None" by code_simp
  moreover have "list_all (\<lambda>t. is_valid_target_url (\<lambda>s. if prefix ''http://'' s then Some (''http'', True) else None) (tg_url t))
      (env_targets (env_of [(''GATEPUP_UPSTREAM'', ''http://a:1, http://b:2'')]))"
    "env_targets (env_of [(''GATEPUP_UPSTREAM'', ''http://a:1, http://b:2'')]) \<noteq> []" by code_simp+
  ultimately show ?thesis
    unfolding env_config_valid_iff by (simp add: env_tls_def env_of_def list_all_iff)
qed

end
