(* ===== verification/Tls.thy ===== *)
theory Tls
  imports Snapshot
begin

text \<open>
  TLS termination (\<open>gatepup-proxy/src/tls.rs\<close>): loading certificates and a key from PEM files and
  building an acceptor. The file system, the PEM parser and \<open>rustls\<close> are parameters.
\<close>

datatype TlsError = TlsRead string string | NoCerts string | NoKey string | Invalid string

record ('c, 'k, 't) tls_api =
  open_file :: "string \<Rightarrow> (string, string) result"           \<comment> \<open>\<open>File::open\<close>, the contents or the error\<close>
  pem_certs :: "string \<Rightarrow> ('c, string) result list"          \<comment> \<open>\<open>rustls_pemfile::certs\<close>\<close>
  pem_private_key :: "string \<Rightarrow> ('k option, string) result"  \<comment> \<open>\<open>rustls_pemfile::private_key\<close>\<close>
  server_config :: "'c list \<Rightarrow> 'k \<Rightarrow> ('t, string) result"    \<comment> \<open>\<open>ServerConfig::builder\<close> to \<open>with_single_cert\<close>\<close>

text \<open>\<open>collect::<Result<Vec<_>, _>>()\<close>: the first error, or all values.\<close>

fun collect_results :: "('a, 'e) result list \<Rightarrow> ('a list, 'e) result" where
  "collect_results [] = Ok []"
| "collect_results (r # rs) =
     (case r of
        Err e \<Rightarrow> Err e
      | Ok x \<Rightarrow> (case collect_results rs of Err e \<Rightarrow> Err e | Ok xs \<Rightarrow> Ok (x # xs)))"

definition open_pem :: "('c, 'k, 't) tls_api \<Rightarrow> string \<Rightarrow> (string, TlsError) result" where
  "open_pem tls path = (case open_file tls path of Err e \<Rightarrow> Err (TlsRead path e) | Ok r \<Rightarrow> Ok r)"

definition load_certs :: "('c, 'k, 't) tls_api \<Rightarrow> string \<Rightarrow> ('c list, TlsError) result" where
  "load_certs tls path =
     (case open_pem tls path of
        Err e \<Rightarrow> Err e
      | Ok reader \<Rightarrow>
          (case collect_results (pem_certs tls reader) of
             Err e \<Rightarrow> Err (TlsRead path e)
           | Ok certs \<Rightarrow> if certs = [] then Err (NoCerts path) else Ok certs))"

definition load_key :: "('c, 'k, 't) tls_api \<Rightarrow> string \<Rightarrow> ('k, TlsError) result" where
  "load_key tls path =
     (case open_pem tls path of
        Err e \<Rightarrow> Err e
      | Ok reader \<Rightarrow>
          (case pem_private_key tls reader of
             Err e \<Rightarrow> Err (TlsRead path e)
           | Ok None \<Rightarrow> Err (NoKey path)
           | Ok (Some key) \<Rightarrow> Ok key))"

definition build_acceptor :: "('c, 'k, 't) tls_api \<Rightarrow> TlsConfig \<Rightarrow> ('t, TlsError) result" where
  "build_acceptor tls cfg =
     (case load_certs tls (tls_cert cfg) of
        Err e \<Rightarrow> Err e
      | Ok certs \<Rightarrow>
          (case load_key tls (tls_key cfg) of
             Err e \<Rightarrow> Err e
           | Ok key \<Rightarrow>
               (case server_config tls certs key of
                  Err e \<Rightarrow> Err (Invalid e)
                | Ok acceptor \<Rightarrow> Ok acceptor)))"

text \<open>The acceptor as the snapshot uses it: its error is rendered (\<open>e.to_string()\<close>).\<close>

definition acceptor_for :: "('c, 'k, 't) tls_api \<Rightarrow> (TlsError \<Rightarrow> string) \<Rightarrow> TlsConfig \<Rightarrow> ('t, string) result" where
  "acceptor_for tls display cfg = (case build_acceptor tls cfg of Err e \<Rightarrow> Err (display e) | Ok a \<Rightarrow> Ok a)"


section \<open>When the material is usable\<close>

lemma collect_results_map [simp]: "collect_results (map Inr xs) = Ok xs"
  by (induction xs) simp_all

lemma collect_results_Ok_iff: "collect_results rs = Ok xs \<longleftrightarrow> rs = map Inr xs"
proof
  show "rs = map Inr xs" if "collect_results rs = Ok xs"
    using that by (induction rs arbitrary: xs) (auto split: sum.splits)
qed simp

text \<open>The material of one listener: both files open and parse, and belong together.\<close>

definition tls_usable :: "('c, 'k, 't) tls_api \<Rightarrow> TlsConfig \<Rightarrow> bool" where
  "tls_usable tls cfg \<longleftrightarrow>
     (\<exists>cert_pem key_pem certs key a.
        open_file tls (tls_cert cfg) = Ok cert_pem \<and> pem_certs tls cert_pem = map Inr certs \<and> certs \<noteq> [] \<and>
        open_file tls (tls_key cfg) = Ok key_pem \<and> pem_private_key tls key_pem = Ok (Some key) \<and>
        server_config tls certs key = Ok a)"

lemma load_certs_Ok_iff:
  "load_certs tls path = Ok certs \<longleftrightarrow>
     (\<exists>pem. open_file tls path = Ok pem \<and> pem_certs tls pem = map Inr certs \<and> certs \<noteq> [])"
  by (auto simp: load_certs_def open_pem_def collect_results_Ok_iff[symmetric] split: sum.splits)

lemma load_key_Ok_iff:
  "load_key tls path = Ok key \<longleftrightarrow> (\<exists>pem. open_file tls path = Ok pem \<and> pem_private_key tls pem = Ok (Some key))"
  by (auto simp: load_key_def open_pem_def split: sum.splits option.splits)

lemma build_acceptor_Ok_iff: "(\<exists>a. build_acceptor tls cfg = Ok a) \<longleftrightarrow> tls_usable tls cfg"
proof -
  have "(\<exists>a. build_acceptor tls cfg = Ok a) \<longleftrightarrow>
      (\<exists>certs key a. load_certs tls (tls_cert cfg) = Ok certs \<and> load_key tls (tls_key cfg) = Ok key \<and>
         server_config tls certs key = Ok a)"
    by (auto simp: build_acceptor_def split: sum.splits)
  then show ?thesis by (auto simp: tls_usable_def load_certs_Ok_iff load_key_Ok_iff)
qed

lemma acceptor_for_Ok_iff: "(\<exists>a. acceptor_for tls display cfg = Ok a) \<longleftrightarrow> tls_usable tls cfg"
  by (subst build_acceptor_Ok_iff[symmetric]) (auto simp: acceptor_for_def split: sum.splits)


section \<open>Properties\<close>

text \<open>C37. Startup: the snapshot of a validated configuration builds exactly when the certificate
  and key files of every listener with TLS open, parse and belong together; a listener
  without TLS needs nothing.\<close>

theorem startup_snapshot_builds_iff:
  assumes "validate net url_parse c = Ok ()"
  shows "(\<exists>s. build_snapshot api net mfb (acceptor_for tls display) c = Ok s) \<longleftrightarrow>
    (\<forall>l \<in> set (cf_listeners c). \<forall>t. ls_tls l = Some t \<longrightarrow> tls_usable tls t)"
proof
  assume "\<forall>l \<in> set (cf_listeners c). \<forall>t. ls_tls l = Some t \<longrightarrow> tls_usable tls t"
  then show "\<exists>s. build_snapshot api net mfb (acceptor_for tls display) c = Ok s"
    using validated_listeners_build[of net url_parse c True "acceptor_for tls display"] assms
    by (auto simp: build_snapshot_def validate_Ok_iff acceptor_for_Ok_iff)
next
  assume "\<exists>s. build_snapshot api net mfb (acceptor_for tls display) c = Ok s"
  then obtain lrs where "list_all2 (\<lambda>l lr. build_listener api net (acceptor_for tls display) True l = Ok lr) (cf_listeners c) lrs"
    unfolding build_snapshot_def snapshot_Ok_iff build_listeners_Ok_iff by blast
  then show "\<forall>l \<in> set (cf_listeners c). \<forall>t. ls_tls l = Some t \<longrightarrow> tls_usable tls t"
    by (induction rule: list_all2_induct)
      (auto simp: build_listener_cases acceptor_for_Ok_iff[symmetric, where display = display])
qed


section \<open>Witnesses\<close>

definition example_tls :: "(string, string, unit) tls_api" where
  "example_tls =
     \<lparr>open_file = (\<lambda>p. if p = ''c.pem'' then Ok ''C'' else if p = ''k.pem'' then Ok ''K'' else Err ''not found''),
      pem_certs = (\<lambda>s. if s = ''C'' then [Ok ''cert''] else []),
      pem_private_key = (\<lambda>s. Ok (if s = ''K'' then Some ''key'' else None)),
      server_config = (\<lambda>_ _. Ok ())\<rparr>"

theorem startup_snapshot_builds_iff_witness:
  "\<exists>s. build_snapshot list_headers prefix_nets Some (acceptor_for example_tls (\<lambda>_. ''tls'')) example_config = Ok s"
proof -
  have "\<forall>l \<in> set (cf_listeners example_config). \<forall>t. ls_tls l = Some t \<longrightarrow> tls_usable example_tls t"
    by (simp add: example_config_def tls_usable_def example_tls_def) (rule exI[of _ "[''cert'']"], simp)
  then show ?thesis
    using startup_snapshot_builds_iff[OF example_config_valid, of list_headers Some example_tls "\<lambda>_. ''tls''"] by simp
qed

end
