(* ===== verification/Prober.thy ===== *)
theory Prober
  imports Forward
begin

text \<open>
  Active health checks (\<open>gatepup-proxy/src/health.rs\<close>): a probe, and rounds of probes over the
  targets of an upstream. The network's answer to each probe is given.
\<close>

section \<open>Probing\<close>

text \<open>\<open>now_ms\<close>: the clock's distance from the epoch, none when it is before the epoch.\<close>

definition now_ms :: "duration option \<Rightarrow> u64" where
  "now_ms since_epoch = (case since_epoch of Some d \<Rightarrow> of_nat (d div 1000000) | None \<Rightarrow> 0)"

datatype probe_reply = TimedOut | Failed | Status nat

definition probe_uri :: "'u uri_api \<Rightarrow> string \<Rightarrow> string \<Rightarrow> 'u option" where
  "probe_uri uri base_url path =
     (case uri_parse uri base_url of
        None \<Rightarrow> None
      | Some base \<Rightarrow>
          (case pq_parse uri (if path = [] then ''/'' else path) of
             None \<Rightarrow> None
           | Some pq \<Rightarrow> uri_with_pq uri base pq))"

text \<open>A request built from a parsed URI is always well formed; a 2xx status is a success.\<close>

definition probe :: "'u uri_api \<Rightarrow> string \<Rightarrow> string \<Rightarrow> probe_reply \<Rightarrow> bool" where
  "probe uri base_url path reply =
     (case probe_uri uri base_url path of
        None \<Rightarrow> False
      | Some _ \<Rightarrow> (case reply of Status s \<Rightarrow> 200 \<le> s \<and> s < 300 | _ \<Rightarrow> False))"

text \<open>What the network and the clock do during one round, by target index.\<close>

record round_env =
  re_reply :: "nat \<Rightarrow> probe_reply"
  re_clock :: "nat \<Rightarrow> duration option"

definition probe_target :: "'u uri_api \<Rightarrow> HealthCheckSettings \<Rightarrow> round_env \<Rightarrow> nat \<Rightarrow> UpstreamRuntime \<Rightarrow> UpstreamRuntime" where
  "probe_target uri settings env i u =
     observe_target (now_ms (re_clock env i)) i
       (probe uri (tr_url (up_targets u ! i)) (hs_path settings) (re_reply env i)) u"

text \<open>The body of \<open>ticker.tick()\<close>: \<open>for target in &upstream.targets\<close>.\<close>

definition probe_round :: "'u uri_api \<Rightarrow> HealthCheckSettings \<Rightarrow> round_env \<Rightarrow> UpstreamRuntime \<Rightarrow> UpstreamRuntime" where
  "probe_round uri settings env u = fold (probe_target uri settings env) [0..<length (up_targets u)] u"

definition probe_rounds ::
  "'u uri_api \<Rightarrow> HealthCheckSettings \<Rightarrow> round_env list \<Rightarrow> UpstreamRuntime \<Rightarrow> UpstreamRuntime" where
  "probe_rounds uri settings envs u = fold (probe_round uri settings) envs u"


section \<open>A round observes every target once\<close>

lemma probe_target_frame:
  assumes "i < length (up_targets u)"
  shows "same_group u (probe_target uri settings env i u)"
    and "length (up_targets (probe_target uri settings env i u)) = length (up_targets u)"
  using same_group_observe[OF assms] by (simp_all add: probe_target_def observe_target_def)

lemma probe_target_state:
  assumes "i < length (up_targets u)" "j < length (up_targets u)"
  shows "tr_state (up_targets (probe_target uri settings env i u) ! j) =
    (if j = i then observe (now_ms (re_clock env i)) (probe uri (tr_url (up_targets u ! i)) (hs_path settings) (re_reply env i))
       (tr_state (up_targets u ! i))
     else tr_state (up_targets u ! j))"
  using assms by (simp add: probe_target_def observe_target_def)

lemma probe_prefix:
  assumes "n \<le> length (up_targets u)"
  shows "same_group u (fold (probe_target uri settings env) [0..<n] u) \<and>
    (\<forall>j < length (up_targets u). tr_state (up_targets (fold (probe_target uri settings env) [0..<n] u) ! j) =
      (if j < n then observe (now_ms (re_clock env j)) (probe uri (tr_url (up_targets u ! j)) (hs_path settings) (re_reply env j))
         (tr_state (up_targets u ! j))
       else tr_state (up_targets u ! j)))"
  using assms
proof (induction n)
  case 0
  then show ?case by simp
next
  case (Suc n)
  let ?v = "fold (probe_target uri settings env) [0..<n] u"
  have IH: "same_group u ?v" "\<forall>j < length (up_targets u). tr_state (up_targets ?v ! j) =
      (if j < n then observe (now_ms (re_clock env j)) (probe uri (tr_url (up_targets u ! j)) (hs_path settings) (re_reply env j))
         (tr_state (up_targets u ! j))
       else tr_state (up_targets u ! j))"
    using Suc by simp_all
  have len: "length (up_targets ?v) = length (up_targets u)" by (rule same_group_length[OF IH(1)])
  have url: "tr_url (up_targets ?v ! n) = tr_url (up_targets u ! n)"
    using same_group_url[OF IH(1)] Suc.prems by simp
  have "n < length (up_targets ?v)" using Suc.prems len by simp
  then have "same_group u (probe_target uri settings env n ?v)"
    using same_group_trans[OF IH(1) probe_target_frame(1)] by blast
  moreover have "tr_state (up_targets (probe_target uri settings env n ?v) ! j) =
      (if j < Suc n then observe (now_ms (re_clock env j)) (probe uri (tr_url (up_targets u ! j)) (hs_path settings) (re_reply env j))
         (tr_state (up_targets u ! j))
       else tr_state (up_targets u ! j))" if "j < length (up_targets u)" for j
    using that IH(2) url probe_target_state[of n ?v j uri settings env] len Suc.prems
    by (auto simp: less_Suc_eq)
  ultimately show ?case by simp
qed

lemma probe_round_targets:
  shows "same_group u (probe_round uri settings env u)"
    and "j < length (up_targets u) \<Longrightarrow> tr_state (up_targets (probe_round uri settings env u) ! j) =
      observe (now_ms (re_clock env j)) (probe uri (tr_url (up_targets u ! j)) (hs_path settings) (re_reply env j))
        (tr_state (up_targets u ! j))"
  using probe_prefix[of "length (up_targets u)" u uri settings env] by (simp_all add: probe_round_def)

text \<open>Rounds are observations of each target, in order.\<close>

lemma probe_rounds_state:
  assumes "j < length (up_targets u)"
  shows "same_group u (probe_rounds uri settings envs u) \<and>
    tr_state (up_targets (probe_rounds uri settings envs u) ! j) =
    observe_all (map (\<lambda>env. (now_ms (re_clock env j), probe uri (tr_url (up_targets u ! j)) (hs_path settings) (re_reply env j))) envs)
      (tr_state (up_targets u ! j))"
  using assms
proof (induction envs arbitrary: u)
  case Nil
  then show ?case by (simp add: probe_rounds_def observe_all_def)
next
  case (Cons env envs)
  let ?v = "probe_round uri settings env u"
  have v: "same_group u ?v" by (rule probe_round_targets)
  have "j < length (up_targets ?v)" using Cons.prems same_group_length[OF v] by simp
  from Cons.IH[OF this] show ?case
    using same_group_trans[OF v] probe_round_targets(2)[OF Cons.prems, of uri settings env] same_group_url[OF v Cons.prems]
    by (simp add: probe_rounds_def observe_all_def)
qed


section \<open>Properties\<close>

text \<open>C21. Active probes decide: whatever was observed before, as many rounds of failed probes as
  the unhealthy threshold take a target out, and from then on it is not picked; as many
  rounds of successful probes as the healthy threshold bring it back. Nothing else about
  the group changes.\<close>

theorem probes_eject_and_restore:
  assumes "up_wf u" "i < length (up_targets u)"
    and "tr_state (up_targets u ! i) = observe_all before (HealthState_new True h t)"
    and "\<forall>env \<in> set envs. probe uri (tr_url (up_targets u ! i)) (hs_path settings) (re_reply env i) = ok"
    and "(if ok then max (unat h) 1 else max (unat t) 1) \<le> length envs"
  shows "same_group u (probe_rounds uri settings envs u) \<and>
    healthy_at (probe_rounds uri settings envs u) i = ok \<and>
    (\<not> ok \<longrightarrow> fst (pick_target (probe_rounds uri settings envs u)) \<noteq> Picked i)"
proof -
  let ?obs = "map (\<lambda>env. (now_ms (re_clock env i), probe uri (tr_url (up_targets u ! i)) (hs_path settings) (re_reply env i))) envs"
  let ?v = "probe_rounds uri settings envs u"
  note v = probe_rounds_state[OF assms(2), of uri settings envs]
  have "tr_state (up_targets ?v ! i) = observe_all (before @ ?obs) (HealthState_new True h t)"
    using v assms(3) by (simp add: observe_all_def)
  then have ok: "healthy_at ?v i = ok"
    using eject_and_recover[of ?obs ok h t before] assms(4,5) by (auto simp: healthy_at_def)
  have "up_wf ?v" using same_group_wf v assms(1) by blast
  then have "\<not> ok \<Longrightarrow> fst (pick_target ?v) \<noteq> Picked i"
    using pick_target_Picked ok by (metis prod.collapse)
  with ok v show ?thesis by blast
qed

section \<open>Witnesses\<close>

definition example_upstream :: UpstreamRuntime where
  "example_upstream = build_upstream Some (hd (cf_upstreams example_config))"

definition example_settings :: HealthCheckSettings where
  "example_settings = \<lparr>hs_path = ''/h'', hs_interval = 10, hs_timeout = 5\<rparr>"

definition failing_round :: round_env where
  "failing_round = \<lparr>re_reply = (\<lambda>i. if i = 0 then TimedOut else Status 204), re_clock = (\<lambda>_. Some 5)\<rparr>"

theorem probes_eject_and_restore_witness:
  "\<not> healthy_at (probe_rounds string_uri example_settings [failing_round, failing_round] example_upstream) 0 \<and>
   fst (pick_target (probe_rounds string_uri example_settings [failing_round, failing_round] example_upstream)) \<noteq> Picked 0"
proof -
  have "up_wf example_upstream" unfolding example_upstream_def by (rule build_upstream_wf)
  moreover have "0 < length (up_targets example_upstream)" by code_simp
  moreover have "tr_state (up_targets example_upstream ! 0) = observe_all [] (HealthState_new True 1 2)" by code_simp
  moreover have "\<forall>env \<in> set [failing_round, failing_round].
      probe string_uri (tr_url (up_targets example_upstream ! 0)) (hs_path example_settings) (re_reply env 0) = False"
    by (simp add: failing_round_def probe_def split: option.split)
  ultimately show ?thesis
    using probes_eject_and_restore[of example_upstream 0 "[]" 1 2 "[failing_round, failing_round]" string_uri
        example_settings False] by simp
qed

end
