(* ===== verification/Core_App.thy ===== *)
theory Core_App
  imports Admin_Api Resolve Tls Prober
begin

text \<open>
  The composition root (\<open>gatepup-core/src/app.rs\<close>, \<open>error.rs\<close>): resolving and validating the
  configuration, starting the service, and the signal loop with its hot reload. The running
  service is a state machine whose steps are requests, health probes, admin requests and
  signals. File contents may differ at every reload; the process environment does not.
\<close>

section \<open>Errors and platform\<close>

datatype CoreError =
    Core_Config ConfigError
  | Core_Invalid "ValidationError list"
  | Core_Serialize string
  | Core_Proxy ProxyError
  | Core_Metrics string
  | Core_Admin AdminError
  | Core_AdminBind string

fun validation_errors :: "CoreError \<Rightarrow> ValidationError list option" where
  "validation_errors (Core_Invalid es) = Some es"
| "validation_errors _ = None"

text \<open>Third-party code and the process environment.\<close>

record ('h, 'n, 'u, 't) platform =
  pf_deps :: "('h, 'n, 'u) deps"
  pf_env :: environment
  pf_url_parse :: "string \<Rightarrow> (string \<times> bool) option"
  pf_method_from_bytes :: "string \<Rightarrow> string option"
  pf_acceptor :: "TlsConfig \<Rightarrow> ('t, string) result"
  pf_to_string_pretty :: "GatePupConfig \<Rightarrow> (string, string) result"
  pf_metrics_new :: "(Metrics, string) result"
  pf_version :: string


section \<open>Configuration\<close>

definition load_validated ::
  "('h, 'n, 'u, 't) platform \<Rightarrow> loader \<Rightarrow> string \<Rightarrow> (GatePupConfig, CoreError) result" where
  "load_validated pf ld path =
     (case load_from_file ld path of
        Err e \<Rightarrow> Err (Core_Config e)
      | Ok config \<Rightarrow>
          (case validate (dp_net (pf_deps pf)) (pf_url_parse pf) config of
             Err es \<Rightarrow> Err (Core_Invalid es)
           | Ok _ \<Rightarrow> Ok config))"

definition resolve_validated ::
  "('h, 'n, 'u, 't) platform \<Rightarrow> loader \<Rightarrow> string option \<Rightarrow> (GatePupConfig \<times> ConfigSource, CoreError) result" where
  "resolve_validated pf ld cli_path =
     (case resolve_with ld cli_path (pf_env pf) of
        Err e \<Rightarrow> Err (Core_Config e)
      | Ok (config, source) \<Rightarrow>
          (case validate (dp_net (pf_deps pf)) (pf_url_parse pf) config of
             Err es \<Rightarrow> Err (Core_Invalid es)
           | Ok _ \<Rightarrow> Ok (config, source)))"

definition print_config ::
  "('h, 'n, 'u, 't) platform \<Rightarrow> loader \<Rightarrow> string option \<Rightarrow> (string, CoreError) result" where
  "print_config pf ld cli_path =
     (case resolve_validated pf ld cli_path of
        Err e \<Rightarrow> Err e
      | Ok (config, _) \<Rightarrow> (case pf_to_string_pretty pf config of Err e \<Rightarrow> Err (Core_Serialize e) | Ok s \<Rightarrow> Ok s))"


section \<open>The running service\<close>

text \<open>What the admin server keeps from startup; the rest of its state is shared.\<close>

record admin_server =
  as_bind :: socket_addr
  as_metrics_path :: "string option"
  as_token :: "string option"

record ('n, 't) service =
  sv_gateway :: "('n, 't) gateway"
  sv_effective :: string
  sv_admin :: "admin_server option"
  sv_reloads :: u64
  sv_shutdown :: bool

definition admin_of :: "GatePupConfig \<Rightarrow> (admin_server option, CoreError) result" where
  "admin_of config =
     (case cf_admin config of
        Some admin \<Rightarrow>
          if ad_enabled admin then
            (case parse_socket_addr (ad_bind admin) of
               None \<Rightarrow> Err (Core_AdminBind (ad_bind admin))
             | Some addr \<Rightarrow>
                 Ok (Some \<lparr>as_bind = addr,
                   as_metrics_path = (case cf_metrics config of Some m \<Rightarrow> if me_enabled m then Some (me_path m) else None
                                      | None \<Rightarrow> None),
                   as_token = ad_token admin\<rparr>))
          else Ok None
      | None \<Rightarrow> Ok None)"

definition serve ::
  "('h, 'n, 'u, 't) platform \<Rightarrow> GatePupConfig \<Rightarrow> (('n, 't) service, CoreError) result" where
  "serve pf config =
     (case build_snapshot (dp_headers (pf_deps pf)) (dp_net (pf_deps pf)) (pf_method_from_bytes pf) (pf_acceptor pf) config of
        Err e \<Rightarrow> Err (Core_Proxy e)
      | Ok snapshot \<Rightarrow>
     (case pf_to_string_pretty pf config of
        Err e \<Rightarrow> Err (Core_Serialize e)
      | Ok effective \<Rightarrow>
     (case pf_metrics_new pf of
        Err e \<Rightarrow> Err (Core_Metrics e)
      | Ok metrics \<Rightarrow>
     (case admin_of config of
        Err e \<Rightarrow> Err e
      | Ok admin \<Rightarrow>
          Ok \<lparr>sv_gateway = \<lparr>gw_snapshot = snapshot, gw_limiter = RateLimiter_new, gw_metrics = metrics, gw_id_counter = 0\<rparr>,
              sv_effective = effective, sv_admin = admin, sv_reloads = 0, sv_shutdown = False\<rparr>))))"

text \<open>What a reload computes before it changes anything.\<close>

definition reload_attempt ::
  "('h, 'n, 'u, 't) platform \<Rightarrow> loader \<Rightarrow> string option \<Rightarrow> (('n, 't) RuntimeConfig \<times> string, CoreError) result" where
  "reload_attempt pf ld cli_path =
     (case resolve_validated pf ld cli_path of
        Err e \<Rightarrow> Err e
      | Ok (cfg, _) \<Rightarrow>
          (case build_reload_snapshot (dp_headers (pf_deps pf)) (dp_net (pf_deps pf)) (pf_method_from_bytes pf)
                  (pf_acceptor pf) cfg of
             Err e \<Rightarrow> Err (Core_Proxy e)
           | Ok snapshot \<Rightarrow>
               (case pf_to_string_pretty pf cfg of
                  Err e \<Rightarrow> Err (Core_Serialize e)
                | Ok rendered \<Rightarrow> Ok (snapshot, rendered))))"

definition reload ::
  "('h, 'n, 'u, 't) platform \<Rightarrow> loader \<Rightarrow> string option \<Rightarrow> ('n, 't) service \<Rightarrow> ('n, 't) service" where
  "reload pf ld cli_path sv =
     (let gw = sv_gateway sv
      in case reload_attempt pf ld cli_path of
           Ok (snapshot, rendered) \<Rightarrow>
             sv\<lparr>sv_gateway := gw\<lparr>gw_snapshot := snapshot, gw_metrics := inc_config_reload True (gw_metrics gw)\<rparr>,
                sv_effective := rendered, sv_reloads := sv_reloads sv + 1\<rparr>
         | Err _ \<Rightarrow> sv\<lparr>sv_gateway := gw\<lparr>gw_metrics := inc_config_reload False (gw_metrics gw)\<rparr>\<rparr>)"

datatype signal = SIGTERM | SIGINT | SIGHUP

text \<open>One turn of \<open>signal_loop\<close>; after a termination signal the loop has ended.\<close>

definition on_signal ::
  "('h, 'n, 'u, 't) platform \<Rightarrow> loader \<Rightarrow> string option \<Rightarrow> signal \<Rightarrow> ('n, 't) service \<Rightarrow> ('n, 't) service" where
  "on_signal pf ld cli_path sig sv =
     (if sv_shutdown sv then sv
      else case sig of
             SIGTERM \<Rightarrow> sv\<lparr>sv_shutdown := True\<rparr>
           | SIGINT \<Rightarrow> sv\<lparr>sv_shutdown := True\<rparr>
           | SIGHUP \<Rightarrow> reload pf ld cli_path sv)"

text \<open>The state the admin handlers see.\<close>

definition admin_view :: "('h, 'n, 'u, 't) platform \<Rightarrow> ('n, 't) service \<Rightarrow> admin_server \<Rightarrow> ('n, 't) AdminState" where
  "admin_view pf sv a =
     \<lparr>ads_bind = as_bind a, ads_snapshot = gw_snapshot (sv_gateway sv), ads_metrics = gw_metrics (sv_gateway sv),
      ads_metrics_path = as_metrics_path a, ads_effective_config = sv_effective sv, ads_version = pf_version pf,
      ads_token = as_token a\<rparr>"

inductive service_step :: "('h, 'n, 'u, 't) platform \<Rightarrow> string option \<Rightarrow> ('n, 't) service \<Rightarrow> ('n, 't) service \<Rightarrow> bool"
  for pf :: "('h, 'n, 'u, 't) platform" and cli_path :: "string option" where
  request: "handle (pf_deps pf) ev (sv_gateway sv) req listener_name is_tls remote = (resp, gw, sent) \<Longrightarrow>
    service_step pf cli_path sv (sv\<lparr>sv_gateway := gw\<rparr>)"
| probe: "map_of (sn_upstreams (gw_snapshot (sv_gateway sv))) n = Some u \<Longrightarrow> up_health u = Some settings \<Longrightarrow>
    service_step pf cli_path sv
      (sv\<lparr>sv_gateway := (sv_gateway sv)\<lparr>gw_snapshot :=
         put_upstream n (probe_round (dp_uri (pf_deps pf)) settings env u) (gw_snapshot (sv_gateway sv))\<rparr>\<rparr>)"
| admin: "sv_admin sv = Some a \<Longrightarrow>
    admin_route (dp_headers (pf_deps pf)) to_string encode (admin_view pf sv a) req = (resp, m) \<Longrightarrow>
    service_step pf cli_path sv (sv\<lparr>sv_gateway := (sv_gateway sv)\<lparr>gw_metrics := m\<rparr>\<rparr>)"
| signal: "service_step pf cli_path sv (on_signal pf ld cli_path sig sv)"


section \<open>The configuration in force\<close>

lemma same_config_trans:
  assumes "same_config s t" "same_config t u"
  shows "same_config s u"
proof -
  have "u\<lparr>sn_upstreams := sn_upstreams t\<rparr> = t" "t\<lparr>sn_upstreams := sn_upstreams s\<rparr> = s"
    using assms by (simp_all add: same_config_def)
  then have "u\<lparr>sn_upstreams := sn_upstreams s\<rparr> = s" by (metis RuntimeConfig.cases RuntimeConfig.update_convs(2))
  moreover have "rel_option same_group (map_of (sn_upstreams s) n) (map_of (sn_upstreams u) n)" for n
  proof -
    have "rel_option same_group (map_of (sn_upstreams s) n) (map_of (sn_upstreams t) n)"
      "rel_option same_group (map_of (sn_upstreams t) n) (map_of (sn_upstreams u) n)"
      using assms by (simp_all add: same_config_def)
    then show ?thesis by (cases "map_of (sn_upstreams t) n") (auto simp: option_rel_Some1 option_rel_Some2 intro: same_group_trans)
  qed
  ultimately show ?thesis by (simp add: same_config_def)
qed

text \<open>Some validated configuration is in force: the snapshot was built from it, and it is the one shown.\<close>

definition in_force :: "('h, 'n, 'u, 't) platform \<Rightarrow> GatePupConfig \<Rightarrow> ('n, 't) service \<Rightarrow> bool" where
  "in_force pf cfg sv \<longleftrightarrow>
     validate (dp_net (pf_deps pf)) (pf_url_parse pf) cfg = Ok () \<and>
     pf_to_string_pretty pf cfg = Ok (sv_effective sv) \<and>
     (\<exists>wt s. build_snapshot_inner (dp_headers (pf_deps pf)) (dp_net (pf_deps pf)) (pf_method_from_bytes pf) (pf_acceptor pf) cfg wt
         = Ok s \<and> same_config s (gw_snapshot (sv_gateway sv)))"

lemma in_force_wf: "in_force pf cfg sv \<Longrightarrow> snapshot_wf (gw_snapshot (sv_gateway sv))"
  using snapshot_wf_built snapshot_wf_same_config unfolding in_force_def validate_Ok_iff by blast

lemma in_force_same:
  assumes "in_force pf cfg sv" "same_config (gw_snapshot (sv_gateway sv)) (gw_snapshot (sv_gateway sv'))"
    and "sv_effective sv' = sv_effective sv"
  shows "in_force pf cfg sv'"
  using assms same_config_trans unfolding in_force_def by metis

lemma handle_same_config:
  assumes "snapshot_wf (gw_snapshot gw)" "handle dp ev gw req lname is_tls remote = (resp, gw', sent)"
  shows "same_config (gw_snapshot gw) (gw_snapshot gw')" "resp \<noteq> None"
proof -
  obtain r gw1 sent1 m w where "handle dp ev gw req lname is_tls remote =
      (Some (reply (dp_headers dp) (fst (ensure_request_id (dp_headers dp) req (ev_wall_nanos ev) (gw_id_counter gw))) r),
       gw1\<lparr>gw_metrics := observe_duration (as_secs_f64 (ev_elapsed ev))
         (tally r ((inc_websocket ^^ w) ((inc_upstream_retries ^^ m) (inc_requests (gw_metrics gw)))))\<rparr>, sent1)"
    "same_config (gw_snapshot gw) (gw_snapshot gw1)"
    by (rule handle_outcome[OF assms(1), of dp ev req lname is_tls remote]) blast
  then show "same_config (gw_snapshot gw) (gw_snapshot gw')" "resp \<noteq> None" using assms(2) by auto
qed

lemma resolve_validated_valid:
  "resolve_validated pf ld cli = Ok (cfg, src) \<Longrightarrow> validate (dp_net (pf_deps pf)) (pf_url_parse pf) cfg = Ok ()"
  by (auto simp: resolve_validated_def split: sum.splits)

text \<open>A validated configuration always has a reload snapshot, so a reload fails only before that or in rendering.\<close>

lemma reload_cases:
  obtains (swapped) cfg src s rendered where
      "resolve_validated pf ld cli = Ok (cfg, src)" "pf_to_string_pretty pf cfg = Ok rendered"
      "build_reload_snapshot (dp_headers (pf_deps pf)) (dp_net (pf_deps pf)) (pf_method_from_bytes pf) (pf_acceptor pf) cfg = Ok s"
      "reload pf ld cli sv =
        sv\<lparr>sv_gateway := (sv_gateway sv)\<lparr>gw_snapshot := s, gw_metrics := inc_config_reload True (gw_metrics (sv_gateway sv))\<rparr>,
           sv_effective := rendered, sv_reloads := sv_reloads sv + 1\<rparr>"
  | (kept) "\<And>cfg src rendered. resolve_validated pf ld cli = Ok (cfg, src) \<Longrightarrow> pf_to_string_pretty pf cfg \<noteq> Ok rendered"
      "reload pf ld cli sv =
        sv\<lparr>sv_gateway := (sv_gateway sv)\<lparr>gw_metrics := inc_config_reload False (gw_metrics (sv_gateway sv))\<rparr>\<rparr>"
proof (cases "resolve_validated pf ld cli")
  case (Inl e)
  then show thesis by (intro kept) (simp_all add: reload_def reload_attempt_def Let_def)
next
  case (Inr cs)
  obtain cfg src where cs: "cs = (cfg, src)" by (cases cs)
  have "config_wf (dp_net (pf_deps pf)) (pf_url_parse pf) cfg"
    using resolve_validated_valid[of pf ld cli cfg src] Inr cs by (simp add: validate_Ok_iff)
  from validated_listeners_build[OF this, where wt = False]
  obtain s where s: "build_reload_snapshot (dp_headers (pf_deps pf)) (dp_net (pf_deps pf)) (pf_method_from_bytes pf)
      (pf_acceptor pf) cfg = Ok s"
    unfolding build_reload_snapshot_def by blast
  show thesis
  proof (cases "pf_to_string_pretty pf cfg")
    case (Inl e)
    then show thesis using Inr cs s by (intro kept) (simp_all add: reload_def reload_attempt_def Let_def)
  next
    case (Inr rendered)
    then show thesis using \<open>resolve_validated pf ld cli = Inr cs\<close> cs s
      by (intro swapped[of cfg src rendered s]) (simp_all add: reload_def reload_attempt_def Let_def)
  qed
qed


lemma in_force_start:
  assumes "serve pf cfg = Ok sv" "validate (dp_net (pf_deps pf)) (pf_url_parse pf) cfg = Ok ()"
  shows "in_force pf cfg sv"
proof -
  obtain s where "build_snapshot (dp_headers (pf_deps pf)) (dp_net (pf_deps pf)) (pf_method_from_bytes pf) (pf_acceptor pf) cfg = Ok s"
    "gw_snapshot (sv_gateway sv) = s" "pf_to_string_pretty pf cfg = Ok (sv_effective sv)"
    using assms(1) by (auto simp: serve_def split: sum.splits)
  then show ?thesis unfolding in_force_def build_snapshot_def using assms(2) same_config_refl by blast
qed

lemma in_force_reload:
  assumes "in_force pf cfg sv"
  shows "\<exists>cfg'. in_force pf cfg' (reload pf ld cli sv)"
proof (cases rule: reload_cases[of pf ld cli sv])
  case (swapped cfg' src s rendered)
  then have "in_force pf cfg' (reload pf ld cli sv)"
    using resolve_validated_valid[OF swapped(1)] same_config_refl
    unfolding in_force_def build_reload_snapshot_def by fastforce
  then show ?thesis ..
next
  case kept
  then have "in_force pf cfg (reload pf ld cli sv)" by (intro in_force_same[OF assms]) simp_all
  then show ?thesis ..
qed

lemma in_force_step:
  assumes "service_step pf cli sv sv'" "\<exists>cfg. in_force pf cfg sv"
  shows "\<exists>cfg. in_force pf cfg sv'"
  using assms
proof (induction rule: service_step.induct)
  case (request ev sv req lname is_tls remote resp gw sent)
  then obtain cfg where cfg: "in_force pf cfg sv" by blast
  show ?case
    by (rule exI[of _ cfg], rule in_force_same[OF cfg])
      (simp_all add: handle_same_config(1)[OF in_force_wf[OF cfg] request.hyps])
next
  case (probe sv n u settings env)
  then obtain cfg where cfg: "in_force pf cfg sv" by blast
  show ?case
    by (rule exI[of _ cfg], rule in_force_same[OF cfg]) (simp_all add: put_upstream_same_config[OF probe.hyps(1) probe_round_targets(1)])
next
  case (admin sv a to_string encode req resp m)
  then obtain cfg where cfg: "in_force pf cfg sv" by blast
  show ?case by (rule exI[of _ cfg], rule in_force_same[OF cfg]) simp_all
next
  case (signal sv ld sig)
  then obtain cfg where cfg: "in_force pf cfg sv" by blast
  show ?case
  proof (cases "sv_shutdown sv")
    case True
    then show ?thesis using cfg by (auto simp: on_signal_def)
  next
    case False
    then show ?thesis
      using in_force_reload[OF cfg] in_force_same[OF cfg, of "sv\<lparr>sv_shutdown := True\<rparr>"]
      by (cases sig) (auto simp: on_signal_def)
  qed
qed

interpretation service: invariant_system
  "\<lambda>sv. \<exists>cfg. serve pf cfg = Ok sv \<and> validate (dp_net (pf_deps pf)) (pf_url_parse pf) cfg = Ok ()"
  "service_step pf cli_path" "\<lambda>sv. \<exists>cfg. in_force pf cfg sv" for pf cli_path
  by unfold_locales (use in_force_start in_force_step in blast)+


section \<open>Properties\<close>

text \<open>The service keeps answering: from the start with a validated configuration, through any
  sequence of requests, probes, admin requests and signals, with any file contents at each
  reload and any network behaviour, every further request is answered; no request panics.\<close>

theorem service_always_answers:
  assumes "serve pf cfg = Ok sv0" "validate (dp_net (pf_deps pf)) (pf_url_parse pf) cfg = Ok ()"
    and "(service_step pf cli_path)\<^sup>*\<^sup>* sv0 sv"
  shows "\<exists>resp gw sent. handle (pf_deps pf) ev (sv_gateway sv) req listener_name is_tls remote = (Some resp, gw, sent)"
proof -
  obtain cfg' where "in_force pf cfg' sv" using service.inv_reachable assms by blast
  from handle_same_config(2)[OF in_force_wf[OF this]] show ?thesis
    by (metis option.exhaust_sel prod_cases3)
qed

text \<open>What \<open>/config/effective\<close> shows is in force: in every reachable state some validated
  configuration renders to the shown text, and the snapshot requests are served from was
  built from that same configuration, but for the run-time state of its targets.\<close>

theorem effective_config_in_force:
  assumes "serve pf cfg = Ok sv0" "validate (dp_net (pf_deps pf)) (pf_url_parse pf) cfg = Ok ()"
    and "(service_step pf cli_path)\<^sup>*\<^sup>* sv0 sv"
  shows "\<exists>cfg'. in_force pf cfg' sv"
  using service.inv_reachable assms by blast

text \<open>C10. Reload is all or nothing: it succeeds exactly when the configuration resolves, validates and
  renders, and then swaps snapshot and shown configuration together; otherwise only the
  failure counter moves. Rate-limiter buckets and the request-id counter survive either way.\<close>

theorem reload_all_or_nothing:
  "case (case resolve_validated pf ld cli of Ok (cfg, _) \<Rightarrow> (case pf_to_string_pretty pf cfg of Ok t \<Rightarrow> Some (cfg, t) | Err _ \<Rightarrow> None)
         | Err _ \<Rightarrow> None) of
     Some (cfg, rendered) \<Rightarrow>
       \<exists>s. build_reload_snapshot (dp_headers (pf_deps pf)) (dp_net (pf_deps pf)) (pf_method_from_bytes pf) (pf_acceptor pf) cfg = Ok s \<and>
         reload pf ld cli sv =
           sv\<lparr>sv_gateway := (sv_gateway sv)\<lparr>gw_snapshot := s, gw_metrics := inc_config_reload True (gw_metrics (sv_gateway sv))\<rparr>,
              sv_effective := rendered, sv_reloads := sv_reloads sv + 1\<rparr>
   | None \<Rightarrow>
       reload pf ld cli sv =
         sv\<lparr>sv_gateway := (sv_gateway sv)\<lparr>gw_metrics := inc_config_reload False (gw_metrics (sv_gateway sv))\<rparr>\<rparr>"
proof (cases rule: reload_cases[of pf ld cli sv])
  case swapped
  then show ?thesis by simp
next
  case kept
  then show ?thesis by (auto split: sum.split)
qed



section \<open>Witnesses\<close>

definition example_platform :: "(header_list, ip_addr \<times> nat, string, unit) platform" where
  "example_platform =
     \<lparr>pf_deps = example_deps, pf_env = Map.empty, pf_url_parse = example_url_parse, pf_method_from_bytes = Some,
      pf_acceptor = (\<lambda>_. Ok ()), pf_to_string_pretty = (\<lambda>_. Ok ''{}''), pf_metrics_new = Ok Metrics_new,
      pf_version = ''0.1''\<rparr>"

lemma example_serves: "\<exists>sv. serve example_platform example_config = Ok sv"
proof -
  have "config_wf prefix_nets example_url_parse example_config"
    using example_config_valid by (simp add: validate_Ok_iff)
  then obtain s where "build_snapshot list_headers prefix_nets Some (\<lambda>_. Ok ()) example_config = Ok s"
    using validated_listeners_build[of prefix_nets example_url_parse example_config True "\<lambda>_. Ok ()" list_headers Some]
    unfolding build_snapshot_def by auto
  moreover have "admin_of example_config = Ok None" by (simp add: admin_of_def example_config_def)
  ultimately show ?thesis by (simp add: serve_def example_platform_def example_deps_def)
qed

lemma example_platform_valid:
  "validate (dp_net (pf_deps example_platform)) (pf_url_parse example_platform) example_config = Ok ()"
  using example_config_valid by (simp add: example_platform_def example_deps_def)

theorem service_always_answers_witness:
  "\<exists>sv resp gw sent. serve example_platform example_config = Ok sv \<and>
     handle example_deps (example_env [SendError]) (sv_gateway (on_signal example_platform no_files None SIGHUP sv))
       (example_request []) ''web'' True example_client = (Some resp, gw, sent)"
proof -
  obtain sv where sv: "serve example_platform example_config = Ok sv" using example_serves by blast
  have "(service_step example_platform None)\<^sup>*\<^sup>* sv (on_signal example_platform no_files None SIGHUP sv)"
    by (rule r_into_rtranclp, rule service_step.signal)
  from service_always_answers[OF sv example_platform_valid this, of "example_env [SendError]" "example_request []" "''web''" True example_client]
  show ?thesis using sv by (auto simp: example_platform_def)
qed

theorem effective_config_in_force_witness:
  "\<exists>sv cfg. serve example_platform example_config = Ok sv \<and>
     in_force example_platform cfg (on_signal example_platform no_files None SIGHUP sv)"
proof -
  obtain sv where sv: "serve example_platform example_config = Ok sv" using example_serves by blast
  have "(service_step example_platform None)\<^sup>*\<^sup>* sv (on_signal example_platform no_files None SIGHUP sv)"
    by (rule r_into_rtranclp, rule service_step.signal)
  from effective_config_in_force[OF sv example_platform_valid this] show ?thesis using sv by blast
qed

end
