(* ===== verification/Cli.thy ===== *)
theory Cli
  imports Core_App
begin

text \<open>
  The command line (\<open>gatepup-cli/src/main.rs\<close>): the three commands, their exit codes and what
  they print. Argument parsing is \<open>clap\<close>; the rendering of messages is a parameter, as is how
  serving ends once it has started.
\<close>

datatype Command = Run "string option" | Validate "string option" | PrintConfig "string option"

datatype ExitCode = SUCCESS | FAILURE

datatype line = Stdout string | Stderr string

record messages =
  ms_valid :: "ConfigSource \<Rightarrow> string \<Rightarrow> string"        \<comment> \<open>\<open>Config is valid\<close>\<close>
  ms_invalid :: "nat \<Rightarrow> string"                        \<comment> \<open>\<open>Config is invalid (n problem(s))\<close>\<close>
  ms_problem :: "ValidationError \<Rightarrow> string"
  ms_error :: "CoreError \<Rightarrow> string"
  ms_runtime :: "string \<Rightarrow> string"

definition report :: "messages \<Rightarrow> CoreError \<Rightarrow> ExitCode \<times> line list" where
  "report ms err =
     (FAILURE,
      case validation_errors err of
        Some problems \<Rightarrow> Stderr (ms_invalid ms (length problems)) # map (Stderr \<circ> ms_problem ms) problems
      | None \<Rightarrow> [Stderr (ms_error ms err)])"

definition run_command ::
  "('h, 'n, 'u, 't) platform \<Rightarrow> messages \<Rightarrow> (unit, string) result \<Rightarrow> (('n, 't) service \<Rightarrow> (unit, CoreError) result) \<Rightarrow>
   loader \<Rightarrow> string option \<Rightarrow> ExitCode \<times> line list" where
  "run_command pf ms runtime serving ld config_path =
     (case resolve_validated pf ld config_path of
        Err err \<Rightarrow> report ms err
      | Ok (config, _) \<Rightarrow>
          (case runtime of
             Err err \<Rightarrow> (FAILURE, [Stderr (ms_runtime ms err)])
           | Ok _ \<Rightarrow>
               (case serve pf config of
                  Err err \<Rightarrow> report ms err
                | Ok sv \<Rightarrow> (case serving sv of Ok _ \<Rightarrow> (SUCCESS, []) | Err err \<Rightarrow> report ms err))))"

definition gatepup_main ::
  "('h, 'n, 'u, 't) platform \<Rightarrow> messages \<Rightarrow> (unit, string) result \<Rightarrow> (('n, 't) service \<Rightarrow> (unit, CoreError) result) \<Rightarrow>
   loader \<Rightarrow> Command \<Rightarrow> ExitCode \<times> line list" where
  "gatepup_main pf ms runtime serving ld command =
     (case command of
        Run config \<Rightarrow> run_command pf ms runtime serving ld config
      | Validate config \<Rightarrow>
          (case resolve_validated pf ld config of
             Ok (cfg, source) \<Rightarrow> (SUCCESS, [Stdout (ms_valid ms source (app_name (cf_app cfg)))])
           | Err err \<Rightarrow> report ms err)
      | PrintConfig config \<Rightarrow>
          (case print_config pf ld config of
             Ok rendered \<Rightarrow> (SUCCESS, [Stdout rendered])
           | Err err \<Rightarrow> report ms err))"


section \<open>Properties\<close>

lemma report_FAILURE: "fst (report ms err) = FAILURE"
  by (simp add: report_def)

text \<open>C38. \<open>validate\<close> predicts a reload: when configurations render, the command exits with success
  exactly when a SIGHUP with the same files and environment makes the running service take
  the configuration over, and otherwise the service keeps its snapshot; and when validation
  is what fails, one line is printed for each problem.\<close>

theorem validate_predicts_reload:
  assumes "\<forall>cfg. \<exists>r. pf_to_string_pretty pf cfg = Ok r" "\<not> sv_shutdown sv"
  shows "(fst (gatepup_main pf ms runtime serving ld (Validate cli)) = SUCCESS \<longleftrightarrow>
      sv_reloads (on_signal pf ld cli SIGHUP sv) = sv_reloads sv + 1) \<and>
    (fst (gatepup_main pf ms runtime serving ld (Validate cli)) = FAILURE \<longrightarrow>
      gw_snapshot (sv_gateway (on_signal pf ld cli SIGHUP sv)) = gw_snapshot (sv_gateway sv)) \<and>
    (\<forall>es. resolve_validated pf ld cli = Err (Core_Invalid es) \<longrightarrow>
      length (snd (gatepup_main pf ms runtime serving ld (Validate cli))) = Suc (length es))"
proof (cases rule: reload_cases[of pf ld cli sv])
  case swapped
  then show ?thesis using assms(2) by (simp add: gatepup_main_def on_signal_def)
next
  case kept
  then obtain e where "resolve_validated pf ld cli = Err e"
    using assms(1) by (metis old.prod.exhaust sum.exhaust)
  then show ?thesis using kept assms(2) by (simp add: gatepup_main_def on_signal_def report_def)
qed


section \<open>Witnesses\<close>

definition plain_messages :: messages where
  "plain_messages = \<lparr>ms_valid = (\<lambda>_ n. n), ms_invalid = (\<lambda>_. []), ms_problem = (\<lambda>_. []), ms_error = (\<lambda>_. []), ms_runtime = id\<rparr>"

theorem validate_predicts_reload_witness:
  "\<exists>sv. serve example_platform example_config = Ok sv \<and>
     sv_reloads (on_signal example_platform no_files None SIGHUP sv) \<noteq> sv_reloads sv + 1"
proof -
  obtain sv where sv: "serve example_platform example_config = Ok sv" using example_serves by blast
  then have "\<not> sv_shutdown sv" by (auto simp: serve_def split: sum.splits)
  moreover have "\<forall>cfg. \<exists>r. pf_to_string_pretty example_platform cfg = Ok r" by (simp add: example_platform_def)
  moreover have "fst (gatepup_main example_platform plain_messages (Ok ()) (\<lambda>_. Ok ()) no_files (Validate None)) = FAILURE"
    by (simp add: gatepup_main_def resolve_validated_def resolve_with_def base_config_def example_platform_def report_def)
  ultimately show ?thesis
    using validate_predicts_reload[of example_platform sv plain_messages "Ok ()" "\<lambda>_. Ok ()" no_files None] sv by auto
qed

end
