(* ===== verification/Logging.thy ===== *)
theory Logging
  imports Cli
begin

text \<open>
  Logging (\<open>gatepup-observability/src/logging.rs\<close>): which filter is installed, and that \<open>run\<close> of the
  command line installs one only for a validated configuration. The filters and their parser
  are \<open>tracing_subscriber\<close>; what is written is output only.
\<close>

record 'f filter_api =
  ef_try_new :: "string \<Rightarrow> ('f, string) result"     \<comment> \<open>\<open>EnvFilter::try_new\<close>\<close>
  ef_new :: "string \<Rightarrow> 'f"                           \<comment> \<open>\<open>EnvFilter::new\<close>, which ignores what it cannot parse\<close>

definition try_from_env :: "'f filter_api \<Rightarrow> environment \<Rightarrow> string \<Rightarrow> ('f, string) result" where
  "try_from_env ef env var =
     (case env var of None \<Rightarrow> Err ''environment variable not found'' | Some s \<Rightarrow> ef_try_new ef s)"

definition init_logging :: "'f filter_api \<Rightarrow> environment \<Rightarrow> string \<Rightarrow> 'f" where
  "init_logging ef env level =
     (case try_from_env ef env ''GATEPUP_LOG'' of
        Ok f \<Rightarrow> f
      | Err _ \<Rightarrow> (case ef_try_new ef level of Ok f \<Rightarrow> f | Err _ \<Rightarrow> ef_new ef ''info''))"

text \<open>What \<open>run\<close> installs before it starts the runtime; both read the same environment.\<close>

definition run_logging ::
  "('h, 'n, 'u, 't) platform \<Rightarrow> 'f filter_api \<Rightarrow> loader \<Rightarrow> string option \<Rightarrow> 'f option" where
  "run_logging pf ef ld config_path =
     (case resolve_validated pf ld config_path of
        Err _ \<Rightarrow> None
      | Ok (config, _) \<Rightarrow> Some (init_logging ef (pf_env pf) (app_log_level (cf_app config))))"

lemma resolve_validated_level:
  assumes "resolve_validated pf ld config_path = Ok (config, source)" "pf_env pf ''GATEPUP_LOG'' = Some level"
  shows "app_log_level (cf_app config) = level"
proof -
  obtain base where "apply_overrides base (pf_env pf) = Ok config"
    using assms(1) by (auto simp: resolve_validated_def resolve_with_def split: sum.splits prod.splits)
  then show ?thesis using apply_overrides_Ok(2) assms(2) by fastforce
qed

text \<open>The variable and the configuration cannot disagree, and the fallback to \<open>info\<close> is never taken: with
  a parser that knows the level names in any case, the filter installed is the one of the
  validated configuration's level, into which \<open>GATEPUP_LOG\<close> has already gone.\<close>

theorem configured_level_is_installed:
  assumes "\<And>l. to_ascii_lowercase l \<in> set log_levels \<Longrightarrow> \<exists>f. ef_try_new ef l = Ok f"
    and "resolve_validated pf ld config_path = Ok (config, source)"
  shows "\<exists>f. run_logging pf ef ld config_path = Some f \<and> ef_try_new ef (app_log_level (cf_app config)) = Ok f"
proof -
  have "config_wf (dp_net (pf_deps pf)) (pf_url_parse pf) config"
    using resolve_validated_valid[OF assms(2)] by (simp add: validate_Ok_iff)
  then have "to_ascii_lowercase (app_log_level (cf_app config)) \<in> set log_levels" by (simp add: config_wf_def)
  then obtain f where f: "ef_try_new ef (app_log_level (cf_app config)) = Ok f" using assms(1) by blast
  have "init_logging ef (pf_env pf) (app_log_level (cf_app config)) = f"
    using f resolve_validated_level[OF assms(2)]
    by (cases "pf_env pf ''GATEPUP_LOG''") (simp_all add: init_logging_def try_from_env_def)
  then show ?thesis using f assms(2) by (simp add: run_logging_def)
qed

end
