(* ===== verification/Interleaving.thy ===== *)
theory Interleaving
  imports Core_App
begin

text \<open>
  Many requests at once. Here \<open>handle\<close>, \<open>forward\<close>, \<open>handle_upgrade\<close> and \<open>pick_target\<close> of
  \<open>gatepup-proxy\<close> and \<open>reload\<close> of \<open>gatepup-core\<close> are cut at their accesses to shared state, and the
  pieces of any number of requests interleave with each other, with health observations,
  with admin requests and with reloads. A request keeps the snapshot it has loaded: all
  versions ever stored stay reachable, as their reference counts keep them alive, and the
  last one is the live one. The piece that follows an access only computes on the request's own data.
  Two calls are one piece although they access shared state more than once: \<open>check\<close> of the
  limiter, which runs under the lock of the client's shard, and \<open>observe\<close> of a target's state,
  whose five accesses are interleaved in \<open>Health_Concurrent\<close>.
\<close>

section \<open>Tasks\<close>

text \<open>What \<open>handle\<close> derives from a request before it does anything else.\<close>

record 'h job =
  jb_req :: "'h request"
  jb_listener :: string
  jb_scheme :: string
  jb_remote :: socket_addr
  jb_version :: nat            \<comment> \<open>the snapshot loaded\<close>
  jb_host :: string
  jb_ip :: ip_addr
  jb_id :: string

text \<open>
  What a target is being picked for: an attempt of \<open>forward\<close> (with the rewritten headers, the
  attempts that may follow, the number of this one, the last error and the body), or an upgrade.
\<close>

datatype 'h plan = Attempting 'h nat nat GatewayError BodySource | Upgrading

datatype ('h, 'n, 'u) task =
    NotStarted
  | Admitting "'h job"
  | Picking "'h job" "'n CompiledRoute" "'h plan" nat               \<comment> \<open>turns of \<open>pick_target\<close> left\<close>
  | Looking "'h job" "'n CompiledRoute" "'h plan" nat nat           \<comment> \<open>the target of this turn, turns left\<close>
  | Sending "'h job" "'n CompiledRoute" "'h plan" nat out_body "('h, 'u) upstream_request"
  | Closing "'h job" "('h forwarded, GatewayError) result"
  | Finished "'h response"
  | Crashed

text \<open>A request that went out to an upstream.\<close>

record ('h, 'n, 'u) dispatched =
  ds_task :: nat
  ds_job :: "'h job"
  ds_route :: "'n CompiledRoute"
  ds_target :: nat
  ds_request :: "('h, 'u) upstream_request"

record ('h, 'n, 'u, 't) fleet =
  fl_versions :: "('n, 't) RuntimeConfig list"
  fl_limiter :: RateLimiter
  fl_metrics :: Metrics
  fl_ids :: u64
  fl_effective :: string
  fl_swap :: "string option"     \<comment> \<open>text a reload has still to store\<close>
  fl_next :: nat                 \<comment> \<open>requests started\<close>
  fl_tasks :: "nat \<Rightarrow> ('h, 'n, 'u) task"
  fl_sent :: "('h, 'n, 'u) dispatched list"

definition live_version :: "('h, 'n, 'u, 't) fleet \<Rightarrow> nat" where
  "live_version s = length (fl_versions s) - 1"

definition live :: "('h, 'n, 'u, 't) fleet \<Rightarrow> ('n, 't) RuntimeConfig" where
  "live s = fl_versions s ! live_version s"

definition set_task :: "nat \<Rightarrow> ('h, 'n, 'u) task \<Rightarrow> ('h, 'n, 'u, 't) fleet \<Rightarrow> ('h, 'n, 'u, 't) fleet" where
  "set_task t k s = s\<lparr>fl_tasks := (fl_tasks s)(t := k)\<rparr>"

definition put_version ::
  "nat \<Rightarrow> string \<Rightarrow> UpstreamRuntime \<Rightarrow> ('h, 'n, 'u, 't) fleet \<Rightarrow> ('h, 'n, 'u, 't) fleet" where
  "put_version v n u s = s\<lparr>fl_versions := (fl_versions s)[v := put_upstream n u (fl_versions s ! v)]\<rparr>"

definition dispatch_entry ::
  "nat \<Rightarrow> 'h job \<Rightarrow> 'n CompiledRoute \<Rightarrow> nat \<times> ('h, 'u) upstream_request \<Rightarrow> ('h, 'n, 'u) dispatched" where
  "dispatch_entry t j route x = \<lparr>ds_task = t, ds_job = j, ds_route = route, ds_target = fst x, ds_request = snd x\<rparr>"

text \<open>The route's upstream in the snapshot the request has loaded.\<close>

definition job_snapshot :: "'h job \<Rightarrow> ('h, 'n, 'u, 't) fleet \<Rightarrow> ('n, 't) RuntimeConfig" where
  "job_snapshot j s = fl_versions s ! jb_version j"

definition job_upstream :: "'h job \<Rightarrow> 'n CompiledRoute \<Rightarrow> ('h, 'n, 'u, 't) fleet \<Rightarrow> UpstreamRuntime option" where
  "job_upstream j route s = map_of (sn_upstreams (job_snapshot j s)) (cr_upstream route)"


section \<open>The pieces of a request\<close>

text \<open>Up to \<open>metrics.inc_requests()\<close>.\<close>

definition start_request ::
  "('h, 'n, 'u) deps \<Rightarrow> 'h env \<Rightarrow> 'h request \<Rightarrow> string \<Rightarrow> bool \<Rightarrow> socket_addr \<Rightarrow>
   ('h, 'n, 'u, 't) fleet \<Rightarrow> ('h, 'n, 'u, 't) fleet" where
  "start_request dp ev req listener_name is_tls remote s =
     (let (rid, ids) = ensure_request_id (dp_headers dp) req (ev_wall_nanos ev) (fl_ids s);
          job = \<lparr>jb_req = req, jb_listener = listener_name, jb_scheme = (if is_tls then ''https'' else ''http''),
                 jb_remote = remote, jb_version = live_version s, jb_host = request_host (dp_headers dp) req,
                 jb_ip = client_of dp (live s) req remote, jb_id = rid\<rparr>
      in set_task (fl_next s) (Admitting job)
           (s\<lparr>fl_ids := ids, fl_metrics := inc_requests (fl_metrics s), fl_next := Suc (fl_next s)\<rparr>))"

text \<open>The top of \<open>for attempt in 0..max_attempts\<close>, with \<open>n\<close> attempts left, and of \<open>pick_target\<close>.\<close>

definition next_attempt ::
  "'h job \<Rightarrow> 'n CompiledRoute \<Rightarrow> UpstreamRuntime \<Rightarrow> 'h \<Rightarrow> nat \<Rightarrow> nat \<Rightarrow> GatewayError \<Rightarrow> BodySource \<Rightarrow> ('h, 'n, 'u) task" where
  "next_attempt j route u headers n k last_err src =
     (case n of
        0 \<Rightarrow> Closing j (Err last_err)
      | Suc m \<Rightarrow> Picking j route (Attempting headers m k last_err src) (length (up_schedule u)))"

text \<open>What follows the guards, up to the first \<open>pick_target\<close>.\<close>

definition admitted_task ::
  "('h, 'n, 'u) deps \<Rightarrow> ('n, 't) RuntimeConfig \<Rightarrow> 'h job \<Rightarrow> 'n CompiledRoute \<Rightarrow> UpstreamRuntime \<Rightarrow> ('h, 'n, 'u) task" where
  "admitted_task dp snap j route u =
     (let api = dp_headers dp; req = jb_req j
      in if is_upgrade api req then Picking j route Upgrading (length (up_schedule u))
         else if body_exceeds_limit api (rq_headers req) (sn_max_body_bytes snap) then Closing j (Err PayloadTooLarge)
         else
           let headers = forward_headers api route req (jb_host j) (jb_scheme j) (jb_remote j) (jb_id j);
               replayable = replayable_body api u (rq_method req) headers;
               src = prepare_body_source (dp_collect dp) (rq_body req) replayable (sn_max_body_bytes snap)
           in next_attempt j route u headers (attempt_limit u replayable) 0 NoHealthyUpstream src)"

definition admit_task ::
  "('h, 'n, 'u) deps \<Rightarrow> 'h env \<Rightarrow> nat \<Rightarrow> 'h job \<Rightarrow> ('h, 'n, 'u, 't) fleet \<Rightarrow> ('h, 'n, 'u, 't) fleet" where
  "admit_task dp ev t j s =
     (let snap = job_snapshot j s;
          (admitted, rl) = admit dp snap (fl_limiter s) (ev_now ev) (jb_listener j) (jb_req j) (jb_host j) (jb_ip j)
      in set_task t
           (case admitted of Err e \<Rightarrow> Closing j (Err e) | Ok (route, u) \<Rightarrow> admitted_task dp snap j route u)
           (s\<lparr>fl_limiter := rl\<rparr>))"

text \<open>One \<open>fetch_add\<close> of \<open>pick_target\<close>, or the end of its loop.\<close>

definition pick_task_turn ::
  "nat \<Rightarrow> 'h job \<Rightarrow> 'n CompiledRoute \<Rightarrow> 'h plan \<Rightarrow> nat \<Rightarrow> ('h, 'n, 'u, 't) fleet \<Rightarrow> ('h, 'n, 'u, 't) fleet" where
  "pick_task_turn t j route plan left s =
     (case job_upstream j route s of
        None \<Rightarrow> set_task t Crashed s
      | Some u \<Rightarrow>
          (case left of
             0 \<Rightarrow> set_task t (Closing j (Err NoHealthyUpstream)) s
           | Suc n \<Rightarrow>
               set_task t (Looking j route plan (up_schedule u ! (unat (up_next u) mod length (up_schedule u))) n)
                 (put_version (jb_version j) (cr_upstream route) (u\<lparr>up_next := up_next u + 1\<rparr>) s)))"

text \<open>With a target picked: the next body and the request for it.\<close>

definition prepare_send ::
  "('h, 'n, 'u) deps \<Rightarrow> 'h job \<Rightarrow> 'n CompiledRoute \<Rightarrow> UpstreamRuntime \<Rightarrow> 'h plan \<Rightarrow> nat \<Rightarrow> ('h, 'n, 'u) task" where
  "prepare_send dp j route u plan i =
     (let req = jb_req j; pq = rewritten_path_and_query route (rq_path_and_query req); url = tr_url (up_targets u ! i)
      in case plan of
           Attempting headers n k last_err src \<Rightarrow>
             (case next_body src of
                (None, src') \<Rightarrow> Closing j (Err last_err)
              | (Some body, src') \<Rightarrow>
                  (case build_attempt_request (dp_uri dp) (rq_method req) (rq_version req) headers pq url body of
                     None \<Rightarrow> Closing j (Err BadGateway)
                   | Some rq \<Rightarrow> Sending j route (Attempting headers n k last_err src') i body rq))
         | Upgrading \<Rightarrow>
             (case parse_authority (dp_uri dp) url of
                None \<Rightarrow> Closing j (Err BadGateway)
              | Some (target_host, target_port) \<Rightarrow>
                  (case build_upgrade_request dp req pq (target_host @ '':'' @ dec_of_nat (unat target_port)) (jb_host j)
                          (jb_scheme j) (jb_remote j) (jb_id j) of
                     None \<Rightarrow> Closing j (Err BadGateway)
                   | Some rq \<Rightarrow> Sending j route Upgrading i (FullBody []) rq)))"

text \<open>\<open>is_healthy\<close> of the turn's target.\<close>

definition look_task ::
  "('h, 'n, 'u) deps \<Rightarrow> nat \<Rightarrow> 'h job \<Rightarrow> 'n CompiledRoute \<Rightarrow> 'h plan \<Rightarrow> nat \<Rightarrow> nat \<Rightarrow>
   ('h, 'n, 'u, 't) fleet \<Rightarrow> ('h, 'n, 'u, 't) fleet" where
  "look_task dp t j route plan i left s =
     (case job_upstream j route s of
        None \<Rightarrow> set_task t Crashed s
      | Some u \<Rightarrow>
          (case get_at (up_targets u) i of
             None \<Rightarrow> set_task t Crashed s
           | Some target \<Rightarrow>
               if is_healthy (tr_state target) then set_task t (prepare_send dp j route u plan i) s
               else set_task t (Picking j route plan left) s))"

text \<open>A send is recorded when its outcome is known; the upstream and the metrics are written back.\<close>

definition logged ::
  "nat \<Rightarrow> 'h job \<Rightarrow> 'n CompiledRoute \<Rightarrow> nat \<Rightarrow> ('h, 'u) upstream_request \<Rightarrow> UpstreamRuntime \<Rightarrow> Metrics \<Rightarrow>
   ('h, 'n, 'u, 't) fleet \<Rightarrow> ('h, 'n, 'u, 't) fleet" where
  "logged t j route i rq u m s =
     put_version (jb_version j) (cr_upstream route) u
       (s\<lparr>fl_metrics := m, fl_sent := fl_sent s @ [dispatch_entry t j route (i, rq)]\<rparr>)"

text \<open>The outcome of an attempt, and of an upgrade.\<close>

definition attempt_task ::
  "('h, 'n, 'u) deps \<Rightarrow> 'h env \<Rightarrow> nat \<Rightarrow> 'h job \<Rightarrow> 'n CompiledRoute \<Rightarrow> UpstreamRuntime \<Rightarrow> 'h \<Rightarrow> nat \<Rightarrow> nat \<Rightarrow>
   GatewayError \<Rightarrow> BodySource \<Rightarrow> nat \<Rightarrow> out_body \<Rightarrow> ('h, 'u) upstream_request \<Rightarrow>
   ('h, 'n, 'u, 't) fleet \<Rightarrow> ('h, 'n, 'u, 't) fleet" where
  "attempt_task dp ev t j route u headers n k last_err src i body rq s =
     (let keep = (\<lambda>st. put_version (jb_version j) (cr_upstream route) (as_up st)
            (s\<lparr>fl_metrics := as_metrics st, fl_sent := fl_sent s @ map (dispatch_entry t j route) (as_sent st)\<rparr>))
      in case after_send (forward_ctx dp ev route u (jb_req j) headers) (n = 0) (ev_attempts ev k) i body last_err src
             \<lparr>as_up = u, as_metrics = fl_metrics s, as_sent = [(i, rq)]\<rparr> of
           Done None st \<Rightarrow> set_task t Crashed (keep st)
         | Done (Some r) st \<Rightarrow> set_task t (Closing j (finish dp (job_snapshot j s) route (jb_req j) r)) (keep st)
         | Again last_err' src' st \<Rightarrow>
             set_task t (next_attempt j route (as_up st) headers n (Suc k) last_err' src') (keep st))"

definition upgrade_task ::
  "'h env \<Rightarrow> nat \<Rightarrow> 'h job \<Rightarrow> 'n CompiledRoute \<Rightarrow> UpstreamRuntime \<Rightarrow> nat \<Rightarrow> ('h, 'u) upstream_request \<Rightarrow>
   ('h, 'n, 'u, 't) fleet \<Rightarrow> ('h, 'n, 'u, 't) fleet" where
  "upgrade_task ev t j route u i rq s =
     (let ug = ev_upgrade ev;
          seen = (\<lambda>ok. observe_target (ug_now_ms ug) i ok u)
      in if \<not> ug_connects ug \<or> \<not> ug_handshakes ug
         then set_task t (Closing j (Err UpstreamConnect)) (put_version (jb_version j) (cr_upstream route) (seen False) s)
         else case ug_answer ug of
                None \<Rightarrow> set_task t (Closing j (Err UpstreamConnect)) (logged t j route i rq (seen False) (fl_metrics s) s)
              | Some r \<Rightarrow>
                  if res_status r = 101
                  then set_task t (Closing j (Ok (Forwarded \<lparr>res_status = 101, res_headers = res_headers r, res_body = []\<rparr>
                         (cr_name route) (cr_upstream route))))
                         (logged t j route i rq (seen True) (inc_websocket (fl_metrics s)) s)
                  else set_task t (Closing j (Ok (Forwarded r (cr_name route) (cr_upstream route))))
                         (logged t j route i rq (seen (res_status r < 500)) (fl_metrics s) s))"

definition send_task ::
  "('h, 'n, 'u) deps \<Rightarrow> 'h env \<Rightarrow> nat \<Rightarrow> 'h job \<Rightarrow> 'n CompiledRoute \<Rightarrow> 'h plan \<Rightarrow> nat \<Rightarrow> out_body \<Rightarrow>
   ('h, 'u) upstream_request \<Rightarrow> ('h, 'n, 'u, 't) fleet \<Rightarrow> ('h, 'n, 'u, 't) fleet" where
  "send_task dp ev t j route plan i body rq s =
     (case job_upstream j route s of
        None \<Rightarrow> set_task t Crashed s
      | Some u \<Rightarrow>
          (case plan of
             Attempting headers n k last_err src \<Rightarrow> attempt_task dp ev t j route u headers n k last_err src i body rq s
           | Upgrading \<Rightarrow> upgrade_task ev t j route u i rq s))"

text \<open>From the outcome to the response.\<close>

definition close_task ::
  "('h, 'n, 'u) deps \<Rightarrow> 'h env \<Rightarrow> nat \<Rightarrow> 'h job \<Rightarrow> ('h forwarded, GatewayError) result \<Rightarrow>
   ('h, 'n, 'u, 't) fleet \<Rightarrow> ('h, 'n, 'u, 't) fleet" where
  "close_task dp ev t j r s =
     set_task t (Finished (reply (dp_headers dp) (jb_id j) r))
       (s\<lparr>fl_metrics := observe_duration (as_secs_f64 (ev_elapsed ev)) (tally r (fl_metrics s))\<rparr>)"

text \<open>The next piece of task \<open>t\<close>.\<close>

definition task_step ::
  "('h, 'n, 'u) deps \<Rightarrow> 'h env \<Rightarrow> nat \<Rightarrow> ('h, 'n, 'u, 't) fleet \<Rightarrow> ('h, 'n, 'u, 't) fleet" where
  "task_step dp ev t s =
     (case fl_tasks s t of
        Admitting j \<Rightarrow> admit_task dp ev t j s
      | Picking j route plan left \<Rightarrow> pick_task_turn t j route plan left s
      | Looking j route plan i left \<Rightarrow> look_task dp t j route plan i left s
      | Sending j route plan i body rq \<Rightarrow> send_task dp ev t j route plan i body rq s
      | Closing j r \<Rightarrow> close_task dp ev t j r s
      | _ \<Rightarrow> s)"


section \<open>The pieces of a reload\<close>

text \<open>\<open>shared.store\<close>; \<open>effective.store\<close> with the counting that follows; the error branch.\<close>

definition reload_store ::
  "('n, 't) RuntimeConfig \<Rightarrow> string \<Rightarrow> ('h, 'n, 'u, 't) fleet \<Rightarrow> ('h, 'n, 'u, 't) fleet" where
  [simp]: "reload_store snap rendered s = s\<lparr>fl_versions := fl_versions s @ [snap], fl_swap := Some rendered\<rparr>"

definition reload_display :: "string \<Rightarrow> ('h, 'n, 'u, 't) fleet \<Rightarrow> ('h, 'n, 'u, 't) fleet" where
  [simp]: "reload_display rendered s =
     s\<lparr>fl_effective := rendered, fl_swap := None, fl_metrics := inc_config_reload True (fl_metrics s)\<rparr>"

definition reload_failed :: "('h, 'n, 'u, 't) fleet \<Rightarrow> ('h, 'n, 'u, 't) fleet" where
  [simp]: "reload_failed s = s\<lparr>fl_metrics := inc_config_reload False (fl_metrics s)\<rparr>"


section \<open>Interleavings\<close>

text \<open>
  One step of the whole: a request arrives, a task runs its next piece, some target of some
  version is observed (a probe loop may still hold an older one), an admin request is
  served, or a reload stores the snapshot, then the text shown, or fails. A step is labelled with the task that runs.
\<close>

inductive fleet_step ::
  "('h, 'n, 'u, 't) platform \<Rightarrow> string option \<Rightarrow> nat option \<Rightarrow> ('h, 'n, 'u, 't) fleet \<Rightarrow> ('h, 'n, 'u, 't) fleet \<Rightarrow> bool"
  for pf :: "('h, 'n, 'u, 't) platform" and cli_path :: "string option" where
  arrive: "fleet_step pf cli_path None s (start_request (pf_deps pf) ev req listener_name is_tls remote s)"
| piece: "t < fl_next s \<Longrightarrow> fleet_step pf cli_path (Some t) s (task_step (pf_deps pf) ev t s)"
| observation: "v < length (fl_versions s) \<Longrightarrow> map_of (sn_upstreams (fl_versions s ! v)) n = Some u \<Longrightarrow>
    i < length (up_targets u) \<Longrightarrow> fleet_step pf cli_path None s (put_version v n (observe_target now i ok u) s)"
| admin: "ads_snapshot st = live s \<Longrightarrow> ads_metrics st = fl_metrics s \<Longrightarrow> ads_effective_config st = fl_effective s \<Longrightarrow>
    fleet_step pf cli_path None s
      (s\<lparr>fl_metrics := snd (admin_route (dp_headers (pf_deps pf)) to_string encode st req)\<rparr>)"
| store: "fl_swap s = None \<Longrightarrow> reload_attempt pf ld cli_path = Ok (snap, rendered) \<Longrightarrow>
    fleet_step pf cli_path None s (reload_store snap rendered s)"
| display: "fl_swap s = Some rendered \<Longrightarrow> fleet_step pf cli_path None s (reload_display rendered s)"
| reload_fails: "fl_swap s = None \<Longrightarrow> reload_attempt pf ld cli_path = Err e \<Longrightarrow>
    fleet_step pf cli_path None s (reload_failed s)"

inductive fleet_run ::
  "('h, 'n, 'u, 't) platform \<Rightarrow> string option \<Rightarrow> nat option list \<Rightarrow> ('h, 'n, 'u, 't) fleet \<Rightarrow> ('h, 'n, 'u, 't) fleet \<Rightarrow> bool"
  for pf :: "('h, 'n, 'u, 't) platform" and cli_path :: "string option" where
  stop: "fleet_run pf cli_path [] s s"
| more: "fleet_step pf cli_path l s s1 \<Longrightarrow> fleet_run pf cli_path ls s1 s2 \<Longrightarrow> fleet_run pf cli_path (l # ls) s s2"

definition fleet_of :: "('n, 't) service \<Rightarrow> ('h, 'n, 'u, 't) fleet" where
  "fleet_of sv =
     \<lparr>fl_versions = [gw_snapshot (sv_gateway sv)], fl_limiter = gw_limiter (sv_gateway sv), fl_metrics = gw_metrics (sv_gateway sv),
      fl_ids = gw_id_counter (sv_gateway sv), fl_effective = sv_effective sv, fl_swap = None, fl_next = 0,
      fl_tasks = (\<lambda>_. NotStarted), fl_sent = []\<rparr>"


section \<open>Frames\<close>

lemma set_task_simps [simp]:
  "fl_versions (set_task t k s) = fl_versions s" "fl_limiter (set_task t k s) = fl_limiter s"
  "fl_metrics (set_task t k s) = fl_metrics s" "fl_ids (set_task t k s) = fl_ids s"
  "fl_effective (set_task t k s) = fl_effective s" "fl_swap (set_task t k s) = fl_swap s"
  "fl_next (set_task t k s) = fl_next s" "fl_sent (set_task t k s) = fl_sent s"
  "fl_tasks (set_task t k s) = (fl_tasks s)(t := k)"
  by (simp_all add: set_task_def)

lemma put_version_simps [simp]:
  "length (fl_versions (put_version v n u s)) = length (fl_versions s)" "fl_limiter (put_version v n u s) = fl_limiter s"
  "fl_metrics (put_version v n u s) = fl_metrics s" "fl_ids (put_version v n u s) = fl_ids s"
  "fl_effective (put_version v n u s) = fl_effective s" "fl_swap (put_version v n u s) = fl_swap s"
  "fl_next (put_version v n u s) = fl_next s" "fl_sent (put_version v n u s) = fl_sent s"
  "fl_tasks (put_version v n u s) = fl_tasks s"
  by (simp_all add: put_version_def)

text \<open>Two states whose versions have the same configurations; later ones may have been added.\<close>

definition extends :: "('h, 'n, 'u, 't) fleet \<Rightarrow> ('h, 'n, 'u, 't) fleet \<Rightarrow> bool" where
  "extends s s' \<longleftrightarrow>
     length (fl_versions s) \<le> length (fl_versions s') \<and>
     (\<forall>v < length (fl_versions s). same_config (fl_versions s ! v) (fl_versions s' ! v))"

lemma extends_same: "fl_versions s' = fl_versions s \<Longrightarrow> extends s s'"
  by (simp add: extends_def)

lemma extends_refl [simp]: "extends s s"
  by (simp add: extends_same)

lemma extends_trans: "extends s t \<Longrightarrow> extends t u \<Longrightarrow> extends s u"
  unfolding extends_def using same_config_trans by (meson le_trans less_le_trans)

lemma extends_put:
  assumes "map_of (sn_upstreams (fl_versions s ! v)) n = Some u" "same_group u u'"
  shows "extends s (put_version v n u' s)"
  using put_upstream_same_config[OF assms]
  by (cases "v < length (fl_versions s)") (auto simp: extends_def put_version_def nth_list_update)

lemma extends_append: "fl_versions s' = fl_versions s @ [snap] \<Longrightarrow> extends s s'"
  by (simp add: extends_def nth_append)

lemma extends_set_task [simp]: "extends s (set_task t k s') \<longleftrightarrow> extends s s'"
  by (simp add: extends_def)

lemma same_config_fields:
  assumes "same_config s s'"
  shows "sn_listeners s' = sn_listeners s" "sn_trusted_proxies s' = sn_trusted_proxies s"
    "sn_max_body_bytes s' = sn_max_body_bytes s" "sn_compression s' = sn_compression s"
  using assms by (cases s; cases s'; simp add: same_config_def)+


section \<open>Invariant\<close>

text \<open>The request may be forwarded on this route: all guards but the rate limiter's, which have no state.\<close>

definition allowed :: "('h, 'n, 'u) deps \<Rightarrow> ('n, 't) RuntimeConfig \<Rightarrow> 'h job \<Rightarrow> 'n CompiledRoute \<Rightarrow> bool" where
  "allowed dp snap j route \<longleftrightarrow>
     (\<exists>l \<in> set (sn_listeners snap). lr_name l = jb_listener j \<and>
        match_route (lr_router l) (jb_host j) (rq_path (jb_req j)) = Some route) \<and>
     jb_host j = request_host (dp_headers dp) (jb_req j) \<and> jb_ip j = client_of dp snap (jb_req j) (jb_remote j) \<and>
     IpAccess_allows (dp_net dp) (cr_ip_access route) (jb_ip j) \<and>
     (\<forall>users. cr_basic_auth route = Some users \<longrightarrow>
        basic_auth_ok (dp_headers dp) (dp_b64_decode dp) (rq_headers (jb_req j)) users) \<and>
     (is_upgrade (dp_headers dp) (jb_req j) \<or>
        \<not> body_exceeds_limit (dp_headers dp) (rq_headers (jb_req j)) (sn_max_body_bytes snap))"

definition job_headers :: "('h, 'n, 'u) deps \<Rightarrow> 'h job \<Rightarrow> 'n CompiledRoute \<Rightarrow> 'h" where
  "job_headers dp j route =
     forward_headers (dp_headers dp) route (jb_req j) (jb_host j) (jb_scheme j) (jb_remote j) (jb_id j)"

text \<open>The request built for target \<open>i\<close> is the one the handler builds.\<close>

definition lawful ::
  "('h, 'n, 'u) deps \<Rightarrow> 'h job \<Rightarrow> 'n CompiledRoute \<Rightarrow> UpstreamRuntime \<Rightarrow> nat \<Rightarrow> ('h, 'u) upstream_request \<Rightarrow> bool" where
  "lawful dp j route u i rq \<longleftrightarrow>
     i < length (up_targets u) \<and> i \<in> set (up_schedule u) \<and>
     (if is_upgrade (dp_headers dp) (jb_req j)
      then \<exists>host port. parse_authority (dp_uri dp) (tr_url (up_targets u ! i)) = Some (host, port) \<and>
        build_upgrade_request dp (jb_req j) (rewritten_path_and_query route (rq_path_and_query (jb_req j)))
          (host @ '':'' @ dec_of_nat (unat port)) (jb_host j) (jb_scheme j) (jb_remote j) (jb_id j) = Some rq
      else well_sent dp route u (jb_req j) (job_headers dp j route) (i, rq))"

definition sends :: "nat \<Rightarrow> ('h, 'n, 'u) dispatched list \<Rightarrow> nat" where
  "sends t es = length (filter (\<lambda>e. ds_task e = t) es)"

fun plan_ok :: "('h, 'n, 'u) deps \<Rightarrow> 'h job \<Rightarrow> 'n CompiledRoute \<Rightarrow> UpstreamRuntime \<Rightarrow> nat \<Rightarrow> 'h plan \<Rightarrow> bool" where
  "plan_ok dp j route u m (Attempting headers n k last_err src) \<longleftrightarrow>
     \<not> is_upgrade (dp_headers dp) (jb_req j) \<and> headers = job_headers dp j route \<and> k = m \<and>
     n + k < policy_attempts (up_retry u) (rq_method (jb_req j))"
| "plan_ok dp j route u m Upgrading \<longleftrightarrow> is_upgrade (dp_headers dp) (jb_req j) \<and> m = 0"

definition engaged ::
  "('h, 'n, 'u) deps \<Rightarrow> ('h, 'n, 'u, 't) fleet \<Rightarrow> nat \<Rightarrow> 'h job \<Rightarrow> 'n CompiledRoute \<Rightarrow> 'h plan \<Rightarrow> UpstreamRuntime \<Rightarrow> bool" where
  "engaged dp s t j route plan u \<longleftrightarrow>
     jb_version j < length (fl_versions s) \<and> allowed dp (job_snapshot j s) j route \<and> job_upstream j route s = Some u \<and>
     plan_ok dp j route u (sends t (fl_sent s)) plan \<and>
     (\<forall>e \<in> set (fl_sent s). ds_task e = t \<longrightarrow> ds_job e = j \<and> ds_route e = route)"

fun task_ok :: "('h, 'n, 'u) deps \<Rightarrow> ('h, 'n, 'u, 't) fleet \<Rightarrow> nat \<Rightarrow> ('h, 'n, 'u) task \<Rightarrow> bool" where
  "task_ok dp s t NotStarted \<longleftrightarrow> sends t (fl_sent s) = 0"
| "task_ok dp s t (Admitting j) \<longleftrightarrow> jb_version j < length (fl_versions s) \<and> sends t (fl_sent s) = 0 \<and>
     jb_host j = request_host (dp_headers dp) (jb_req j) \<and> jb_ip j = client_of dp (job_snapshot j s) (jb_req j) (jb_remote j)"
| "task_ok dp s t (Picking j route plan left) \<longleftrightarrow>
     (\<exists>u. engaged dp s t j route plan u \<and> left \<le> length (up_schedule u))"
| "task_ok dp s t (Looking j route plan i left) \<longleftrightarrow>
     (\<exists>u. engaged dp s t j route plan u \<and> left < length (up_schedule u) \<and> i \<in> set (up_schedule u))"
| "task_ok dp s t (Sending j route plan i body rq) \<longleftrightarrow> (\<exists>u. engaged dp s t j route plan u \<and> lawful dp j route u i rq)"
| "task_ok dp s t (Closing j r) \<longleftrightarrow> True"
| "task_ok dp s t (Finished r) \<longleftrightarrow> True"
| "task_ok dp s t Crashed \<longleftrightarrow> False"

text \<open>A request that went out was allowed in the snapshot its task had loaded, and the task stays
  within the attempts its upstream allows.\<close>

definition entry_ok :: "('h, 'n, 'u) deps \<Rightarrow> ('h, 'n, 'u, 't) fleet \<Rightarrow> ('h, 'n, 'u) dispatched \<Rightarrow> bool" where
  "entry_ok dp s e \<longleftrightarrow>
     jb_version (ds_job e) < length (fl_versions s) \<and> allowed dp (job_snapshot (ds_job e) s) (ds_job e) (ds_route e) \<and>
     (\<exists>u. job_upstream (ds_job e) (ds_route e) s = Some u \<and> lawful dp (ds_job e) (ds_route e) u (ds_target e) (ds_request e) \<and>
        sends (ds_task e) (fl_sent s) \<le> policy_attempts (up_retry u) (rq_method (jb_req (ds_job e))))"

definition fleet_inv :: "('h, 'n, 'u) deps \<Rightarrow> ('h, 'n, 'u, 't) fleet \<Rightarrow> bool" where
  "fleet_inv dp s \<longleftrightarrow>
     fl_versions s \<noteq> [] \<and> (\<forall>snap \<in> set (fl_versions s). snapshot_wf snap) \<and>
     (\<forall>t. task_ok dp s t (fl_tasks s t)) \<and> (\<forall>t \<ge> fl_next s. fl_tasks s t = NotStarted) \<and>
     (\<forall>t < fl_next s. fl_tasks s t \<noteq> NotStarted) \<and> (\<forall>e \<in> set (fl_sent s). entry_ok dp s e)"


subsection \<open>What other steps leave alone\<close>

lemma allowed_same:
  assumes "same_config snap snap'"
  shows "allowed dp snap' j route \<longleftrightarrow> allowed dp snap j route"
  using same_config_fields[OF assms] by (simp add: allowed_def client_of_def)

lemma lawful_same: "same_group u u' \<Longrightarrow> lawful dp j route u i rq \<Longrightarrow> lawful dp j route u' i rq"
  using same_group_length[of u u'] same_group_url[of u u' i] by (auto simp: lawful_def well_sent_def same_group_def)

lemma plan_ok_same: "same_group u u' \<Longrightarrow> plan_ok dp j route u m plan \<longleftrightarrow> plan_ok dp j route u' m plan"
  by (cases plan) (auto simp: same_group_def)

lemma extends_job:
  assumes "extends s s'" "jb_version j < length (fl_versions s)"
  shows "jb_version j < length (fl_versions s')" "same_config (job_snapshot j s) (job_snapshot j s')"
    and "job_upstream j route s = Some u \<Longrightarrow> \<exists>u'. job_upstream j route s' = Some u' \<and> same_group u u'"
proof -
  show sc: "jb_version j < length (fl_versions s')" "same_config (job_snapshot j s) (job_snapshot j s')"
    using assms by (auto simp: extends_def job_snapshot_def)
  show "\<exists>u'. job_upstream j route s' = Some u' \<and> same_group u u'" if "job_upstream j route s = Some u"
    using sc(2) that unfolding job_upstream_def same_config_def by (metis option_rel_Some1)
qed

lemma engaged_extends:
  assumes "extends s s'" "filter (\<lambda>e. ds_task e = t) (fl_sent s') = filter (\<lambda>e. ds_task e = t) (fl_sent s)"
    and "engaged dp s t j route plan u"
  shows "\<exists>u'. engaged dp s' t j route plan u' \<and> same_group u u'"
proof -
  have v: "jb_version j < length (fl_versions s)" using assms(3) by (simp add: engaged_def)
  note x = extends_job[OF assms(1) v]
  obtain u' where u': "job_upstream j route s' = Some u'" "same_group u u'"
    using x(3)[of route u] assms(3) by (auto simp: engaged_def)
  have "sends t (fl_sent s') = sends t (fl_sent s)" by (simp add: sends_def assms(2))
  moreover have "\<forall>e \<in> set (fl_sent s'). ds_task e = t \<longrightarrow> ds_job e = j \<and> ds_route e = route"
    using arg_cong[OF assms(2), of set] assms(3) unfolding engaged_def set_filter by blast
  ultimately have "engaged dp s' t j route plan u'"
    using assms(3) x(1) u' by (simp add: engaged_def allowed_same[OF x(2)] plan_ok_same[OF u'(2), symmetric])
  then show ?thesis using u'(2) by blast
qed

lemma task_ok_extends:
  assumes "extends s s'" "filter (\<lambda>e. ds_task e = t) (fl_sent s') = filter (\<lambda>e. ds_task e = t) (fl_sent s)"
    and "task_ok dp s t k"
  shows "task_ok dp s' t k"
proof -
  have sent: "sends t (fl_sent s') = sends t (fl_sent s)" by (simp add: sends_def assms(2))
  have eng: "\<exists>u'. engaged dp s' t j route plan u' \<and> up_schedule u' = up_schedule u \<and> (\<forall>i rq. lawful dp j route u i rq \<longrightarrow> lawful dp j route u' i rq)"
    if "engaged dp s t j route plan u" for j route plan u
    using engaged_extends[OF assms(1,2) that] lawful_same unfolding same_group_def by metis
  show ?thesis
  proof (cases k)
    case (Admitting j)
    then have "jb_version j < length (fl_versions s)" using assms(3) by simp
    note x = extends_job(1,2)[OF assms(1) this]
    then show ?thesis using Admitting assms(3) sent same_config_fields(2)[OF x(2)] by (simp add: client_of_def)
  next
    case (Picking j route plan left)
    then obtain u where "engaged dp s t j route plan u" "left \<le> length (up_schedule u)" using assms(3) by auto
    then show ?thesis using Picking eng[of j route plan u] by auto
  next
    case (Looking j route plan i left)
    then obtain u where "engaged dp s t j route plan u" "left < length (up_schedule u)" "i \<in> set (up_schedule u)"
      using assms(3) by auto
    then show ?thesis using Looking eng[of j route plan u] by auto
  next
    case (Sending j route plan i body rq)
    then obtain u where "engaged dp s t j route plan u" "lawful dp j route u i rq" using assms(3) by auto
    then show ?thesis using Sending eng[of j route plan u] by auto
  qed (use assms(3) sent in simp_all)
qed

lemma entry_ok_extends:
  assumes "extends s s'" "sends (ds_task e) (fl_sent s') = sends (ds_task e) (fl_sent s)" "entry_ok dp s e"
  shows "entry_ok dp s' e"
proof -
  have v: "jb_version (ds_job e) < length (fl_versions s)" using assms(3) by (simp add: entry_ok_def)
  obtain u where u: "job_upstream (ds_job e) (ds_route e) s = Some u" "lawful dp (ds_job e) (ds_route e) u (ds_target e) (ds_request e)"
    "sends (ds_task e) (fl_sent s) \<le> policy_attempts (up_retry u) (rq_method (jb_req (ds_job e)))"
    using assms(3) by (auto simp: entry_ok_def)
  obtain u' where u': "job_upstream (ds_job e) (ds_route e) s' = Some u'" "same_group u u'"
    using extends_job(3)[OF assms(1) v u(1)] by blast
  have "up_retry u' = up_retry u" using u'(2) by (simp add: same_group_def)
  then show ?thesis
    using assms(2,3) u u'(1) lawful_same[OF u'(2) u(2)] extends_job(1)[OF assms(1) v]
    by (simp add: entry_ok_def allowed_same[OF extends_job(2)[OF assms(1) v]])
qed

lemma versions_wf:
  assumes "fleet_inv dp s" "extends s s'" "length (fl_versions s') = length (fl_versions s)"
  shows "\<forall>snap \<in> set (fl_versions s'). snapshot_wf snap"
proof
  fix snap
  assume "snap \<in> set (fl_versions s')"
  then obtain v where v: "v < length (fl_versions s)" "snap = fl_versions s' ! v"
    using assms(3) by (auto simp: in_set_conv_nth)
  then show "snapshot_wf snap"
    using assms(1,2) snapshot_wf_same_config[of "fl_versions s ! v"] by (simp add: fleet_inv_def extends_def)
qed

text \<open>A step of task \<open>t\<close> only has to answer for that task.\<close>

lemma fleet_inv_task:
  assumes inv: "fleet_inv dp s" and ext: "extends s s'" "length (fl_versions s') = length (fl_versions s)"
    and frame: "fl_next s' = fl_next s" "fl_sent s' = fl_sent s @ new" "\<forall>e \<in> set new. ds_task e = t" "t < fl_next s"
    and task: "fl_tasks s' = (fl_tasks s)(t := k)" "k \<noteq> NotStarted" "task_ok dp s' t k"
    and entries: "new \<noteq> [] \<Longrightarrow> \<forall>e \<in> set (fl_sent s'). ds_task e = t \<longrightarrow> entry_ok dp s' e"
  shows "fleet_inv dp s'"
proof -
  have other: "filter (\<lambda>e. ds_task e = t') (fl_sent s') = filter (\<lambda>e. ds_task e = t') (fl_sent s)" if "t' \<noteq> t \<or> new = []" for t'
    using that frame(2,3) by (auto simp: filter_empty_conv)
  have "task_ok dp s' t' (fl_tasks s' t')" for t'
  proof (cases "t' = t")
    case False
    then show ?thesis using inv other[of t'] task(1) by (simp add: task_ok_extends[OF ext(1)] fleet_inv_def)
  qed (use task in simp)
  moreover have "entry_ok dp s' e" if "e \<in> set (fl_sent s')" for e
  proof (cases "ds_task e = t \<and> new \<noteq> []")
    case False
    then have "e \<in> set (fl_sent s)" "sends (ds_task e) (fl_sent s') = sends (ds_task e) (fl_sent s)"
      using that frame(2,3) other[of "ds_task e"] by (auto simp: sends_def)
    then show ?thesis using inv entry_ok_extends[OF ext(1)] by (simp add: fleet_inv_def)
  qed (use entries that in blast)
  ultimately show ?thesis
    using inv versions_wf[OF inv ext] ext(2) frame(1,4) task(1,2) by (auto simp: fleet_inv_def)
qed

corollary fleet_inv_quiet:
  assumes "fleet_inv dp s" "extends s s'" "length (fl_versions s') = length (fl_versions s)"
    and "fl_next s' = fl_next s" "fl_sent s' = fl_sent s" "t < fl_next s"
    and "fl_tasks s' = (fl_tasks s)(t := k)" "k \<noteq> NotStarted" "task_ok dp s' t k"
  shows "fleet_inv dp s'"
  by (rule fleet_inv_task[OF assms(1-4) _ _ assms(6-9), where new = "[]"]) (simp_all add: assms(5))

text \<open>Environment steps: no task moves.\<close>

lemma fleet_inv_env:
  assumes "fleet_inv dp s" "extends s s'" "\<forall>snap \<in> set (fl_versions s'). snapshot_wf snap"
    and "fl_next s' = fl_next s" "fl_sent s' = fl_sent s" "fl_tasks s' = fl_tasks s"
  shows "fleet_inv dp s'"
  using assms task_ok_extends[OF assms(2), of _ dp] entry_ok_extends[OF assms(2), of _ dp]
  by (auto simp: fleet_inv_def extends_def)


subsection \<open>The pieces keep it\<close>

lemma engaged_wf:
  assumes "fleet_inv dp s" "engaged dp s t j route plan u"
  shows "up_wf u"
proof -
  have wf: "snapshot_wf (job_snapshot j s)" using assms by (simp add: fleet_inv_def engaged_def job_snapshot_def)
  obtain l where "l \<in> set (sn_listeners (job_snapshot j s))" "match_route (lr_router l) (jb_host j) (rq_path (jb_req j)) = Some route"
    using assms(2) by (auto simp: engaged_def allowed_def)
  then show ?thesis
    using wf match_route_Some(1) assms(2) unfolding snapshot_wf_def engaged_def job_upstream_def by fastforce
qed

text \<open>Reading and writing the upstream of an engaged task.\<close>

lemma put_version_job:
  assumes "job_upstream j route s = Some u" "jb_version j < length (fl_versions s)"
  shows "job_upstream j route (put_version (jb_version j) (cr_upstream route) u' s) = Some u'"
  using assms by (simp add: job_upstream_def job_snapshot_def put_version_def put_upstream_def update_conv)

lemma engaged_put:
  assumes "engaged dp s t j route plan u" "same_group u u'"
  shows "engaged dp (put_version (jb_version j) (cr_upstream route) u' s) t j route plan u'"
    and "extends s (put_version (jb_version j) (cr_upstream route) u' s)"
proof -
  let ?s = "put_version (jb_version j) (cr_upstream route) u' s"
  show ext: "extends s ?s"
    using assms by (intro extends_put) (simp_all add: engaged_def job_upstream_def job_snapshot_def)
  obtain u2 where u2: "engaged dp ?s t j route plan u2" using engaged_extends[OF ext, of t dp j route plan u] assms(1) by auto
  have "job_upstream j route ?s = Some u'" using assms(1) by (intro put_version_job) (auto simp: engaged_def)
  then have "u2 = u'" using u2 unfolding engaged_def by simp
  then show "engaged dp ?s t j route plan u'" using u2 by simp
qed

lemma engaged_set_task [simp]: "engaged dp (set_task t' k s) t j route plan u \<longleftrightarrow> engaged dp s t j route plan u"
  by (simp add: engaged_def job_snapshot_def job_upstream_def)

lemma task_ok_set_task [simp]: "task_ok dp (set_task t' k' s) t k \<longleftrightarrow> task_ok dp s t k"
  by (cases k) (simp_all add: job_snapshot_def)

lemma fleet_inv_set_task:
  assumes "fleet_inv dp s" "t < fl_next s" "k \<noteq> NotStarted" "task_ok dp s t k"
  shows "fleet_inv dp (set_task t k s)"
  using assms by (intro fleet_inv_quiet[OF assms(1)]) (simp_all add: extends_same)

lemma fleet_inv_frame [inv_intros]:
  assumes "fleet_inv dp s" "fl_versions s' = fl_versions s" "fl_next s' = fl_next s" "fl_sent s' = fl_sent s" "fl_tasks s' = fl_tasks s"
  shows "fleet_inv dp s'"
  using assms(2-) by (intro fleet_inv_env[OF assms(1)]) (use assms(1) in \<open>simp_all add: extends_same fleet_inv_def\<close>)

lemma fleet_inv_admit [inv_intros]:
  assumes inv: "fleet_inv dp s" and t: "t < fl_next s" "fl_tasks s t = Admitting j"
  shows "fleet_inv dp (admit_task dp ev t j s)"
proof -
  let ?adm = "admit dp (job_snapshot j s) (fl_limiter s) (ev_now ev) (jb_listener j) (jb_req j) (jb_host j) (jb_ip j)"
  obtain a rl where adm: "?adm = (a, rl)" by (cases ?adm)
  let ?s = "s\<lparr>fl_limiter := rl\<rparr>"
  have ok: "task_ok dp s t (Admitting j)" using inv t(2) unfolding fleet_inv_def by metis
  have quiet: "fleet_inv dp (set_task t k ?s)" if "k \<noteq> NotStarted" "task_ok dp ?s t k" for k
    using that t by (intro fleet_inv_set_task fleet_inv_frame[OF inv]) simp_all
  show ?thesis
  proof (cases a)
    case (Inl e)
    then show ?thesis using adm quiet[of "Closing j (Err e)"] by (simp add: admit_task_def Let_def)
  next
    case (Inr ru)
    obtain route u where ru: "ru = (route, u)" by (cases ru)
    let ?fits = "is_upgrade (dp_headers dp) (jb_req j) \<or>
      \<not> body_exceeds_limit (dp_headers dp) (rq_headers (jb_req j)) (sn_max_body_bytes (job_snapshot j s))"
    have pass: "passes dp (job_snapshot j s) (fl_limiter s) (ev_now ev) (jb_listener j) (jb_req j) (jb_host j) (jb_ip j) route u"
      using adm Inr ru by (intro admit_passes) simp
    then have "allowed dp (job_snapshot j s) j route" if ?fits
      using that ok unfolding passes_def allowed_def by simp
    then have eng: "engaged dp ?s t j route plan u" if ?fits "plan_ok dp j route u 0 plan" for plan
      using that ok pass by (auto simp: engaged_def job_upstream_def job_snapshot_def passes_def sends_def filter_empty_conv)
    let ?h = "job_headers dp j route"
    let ?rep = "replayable_body (dp_headers dp) u (rq_method (jb_req j)) ?h"
    have "task_ok dp ?s t (next_attempt j route u ?h (attempt_limit u ?rep) 0 le src)"
      if "\<not> is_upgrade (dp_headers dp) (jb_req j)" ?fits for le src
      using that eng attempt_limit_le[of u "dp_headers dp" "rq_method (jb_req j)" ?h]
      by (cases "attempt_limit u ?rep") (auto simp: next_attempt_def intro!: exI[of _ u])
    moreover have "task_ok dp ?s t (Picking j route Upgrading (length (up_schedule u)))" if "is_upgrade (dp_headers dp) (jb_req j)"
      using eng[of Upgrading] that by auto
    ultimately have "task_ok dp ?s t (admitted_task dp (job_snapshot j s) j route u)"
      unfolding admitted_task_def Let_def job_headers_def[symmetric] by (simp del: task_ok.simps(3))
    moreover have "admitted_task dp (job_snapshot j s) j route u \<noteq> NotStarted"
      by (simp add: admitted_task_def next_attempt_def Let_def split: nat.split)
    ultimately show ?thesis using adm Inr ru quiet by (simp add: admit_task_def)
  qed
qed

lemma fleet_inv_pick [inv_intros]:
  assumes inv: "fleet_inv dp s" and t: "t < fl_next s" "fl_tasks s t = Picking j route plan left"
  shows "fleet_inv dp (pick_task_turn t j route plan left s)"
proof -
  have "task_ok dp s t (Picking j route plan left)" using inv t(2) unfolding fleet_inv_def by metis
  then obtain u where eng: "engaged dp s t j route plan u" "left \<le> length (up_schedule u)" by auto
  have up: "job_upstream j route s = Some u" using eng(1) by (simp add: engaged_def)
  show ?thesis
  proof (cases left)
    case 0
    then show ?thesis using up t
      by (auto simp: pick_task_turn_def intro!: fleet_inv_quiet[OF inv] extends_same)
  next
    case (Suc n)
    let ?u = "u\<lparr>up_next := up_next u + 1\<rparr>"
    let ?i = "up_schedule u ! (unat (up_next u) mod length (up_schedule u))"
    have grp: "same_group u ?u" by (simp add: same_group_def)
    have "?i \<in> set (up_schedule u)" using eng(2) Suc by (intro nth_mem mod_less_divisor) auto
    then have "task_ok dp (set_task t k (put_version (jb_version j) (cr_upstream route) ?u s)) t (Looking j route plan ?i n)" for k
      using engaged_put(1)[OF eng(1) grp] eng(2) Suc by (auto intro!: exI[of _ ?u])
    then show ?thesis using up t Suc engaged_put(2)[OF eng(1) grp]
      by (auto simp: pick_task_turn_def intro!: fleet_inv_quiet[OF inv])
  qed
qed

lemma prepare_send_ok:
  assumes "engaged dp s t j route plan u" "i < length (up_targets u)" "i \<in> set (up_schedule u)"
  shows "task_ok dp s t (prepare_send dp j route u plan i)" "prepare_send dp j route u plan i \<noteq> NotStarted"
proof -
  have "task_ok dp s t (prepare_send dp j route u plan i) \<and> prepare_send dp j route u plan i \<noteq> NotStarted"
  proof (cases plan)
    case (Attempting headers n k le src)
    obtain b src' where nb: "next_body src = (b, src')" by (cases "next_body src")
    have "plan_ok dp j route u (sends t (fl_sent s)) plan" using assms(1) by (simp add: engaged_def)
    then have h: "headers = job_headers dp j route" "\<not> is_upgrade (dp_headers dp) (jb_req j)" using Attempting by auto
    have eng: "engaged dp s t j route (Attempting headers n k le src') u"
      using assms(1) Attempting by (simp add: engaged_def)
    have "lawful dp j route u i rq"
      if "build_attempt_request (dp_uri dp) (rq_method (jb_req j)) (rq_version (jb_req j)) headers
        (rewritten_path_and_query route (rq_path_and_query (jb_req j))) (tr_url (up_targets u ! i)) body = Some rq" for body rq
      using build_attempt_request_ok[OF that] assms(2,3) h by (simp add: lawful_def well_sent_def)
    then show ?thesis using Attempting nb eng by (auto simp: prepare_send_def Let_def split: option.split)
  next
    case Upgrading
    have "is_upgrade (dp_headers dp) (jb_req j)" using assms(1) Upgrading by (simp add: engaged_def)
    then show ?thesis using assms Upgrading by (auto simp: prepare_send_def Let_def lawful_def split: option.split)
  qed
  then show "task_ok dp s t (prepare_send dp j route u plan i)" "prepare_send dp j route u plan i \<noteq> NotStarted" by simp_all
qed

lemma fleet_inv_look [inv_intros]:
  assumes inv: "fleet_inv dp s" and t: "t < fl_next s" "fl_tasks s t = Looking j route plan i left"
  shows "fleet_inv dp (look_task dp t j route plan i left s)"
proof -
  have "task_ok dp s t (Looking j route plan i left)" using inv t(2) unfolding fleet_inv_def by metis
  then obtain u where eng: "engaged dp s t j route plan u" "left < length (up_schedule u)" "i \<in> set (up_schedule u)" by auto
  have up: "job_upstream j route s = Some u" using eng(1) by (simp add: engaged_def)
  have i: "i < length (up_targets u)" using engaged_wf[OF inv eng(1)] eng(3) by (auto simp: up_wf_def)
  note quiet = fleet_inv_set_task[OF inv t(1)]
  have "task_ok dp s t (Picking j route plan left)" using eng by (auto intro!: exI[of _ u])
  then show ?thesis
    using up i quiet prepare_send_ok[OF eng(1) i eng(3)] by (simp add: look_task_def get_at_def)
qed

lemma fleet_inv_close [inv_intros]:
  assumes "fleet_inv dp s" "t < fl_next s"
  shows "fleet_inv dp (close_task dp ev t j r s)"
  using assms(2) by (auto simp: close_task_def intro!: fleet_inv_quiet[OF assms(1)] extends_same)

lemma logged_simps [simp]:
  "fl_sent (logged t j route i rq u m s) = fl_sent s @ [dispatch_entry t j route (i, rq)]"
  "fl_tasks (logged t j route i rq u m s) = fl_tasks s" "fl_next (logged t j route i rq u m s) = fl_next s"
  "length (fl_versions (logged t j route i rq u m s)) = length (fl_versions s)" "fl_metrics (logged t j route i rq u m s) = m"
  "fl_limiter (logged t j route i rq u m s) = fl_limiter s" "fl_ids (logged t j route i rq u m s) = fl_ids s"
  by (simp_all add: logged_def)

lemma dispatch_entry_simps [simp]:
  "ds_task (dispatch_entry t j route x) = t" "ds_job (dispatch_entry t j route x) = j"
  "ds_route (dispatch_entry t j route x) = route" "ds_target (dispatch_entry t j route x) = fst x"
  "ds_request (dispatch_entry t j route x) = snd x"
  by (simp_all add: dispatch_entry_def)

lemma engaged_logged:
  assumes eng: "engaged dp s t j route plan u" and grp: "same_group u u'" and law: "lawful dp j route u i rq"
    and le: "Suc (sends t (fl_sent s)) \<le> policy_attempts (up_retry u) (rq_method (jb_req j))"
    and old: "\<forall>e \<in> set (fl_sent s). entry_ok dp s e"
    and s'_def: "s' = logged t j route i rq u' m s"
  shows "extends s s'" "\<forall>e \<in> set (fl_sent s'). ds_task e = t \<longrightarrow> entry_ok dp s' e"
    "plan_ok dp j route u' (Suc (sends t (fl_sent s))) plan' \<Longrightarrow> engaged dp s' t j route plan' u'"
proof -
  let ?w = "put_version (jb_version j) (cr_upstream route) u' s"
  have v: "fl_versions s' = fl_versions ?w" by (simp add: s'_def logged_def put_version_def)
  have w: "engaged dp ?w t j route plan u'" "extends s ?w" by (rule engaged_put[OF eng grp])+
  show ext: "extends s s'" using w(2) by (simp add: extends_def v)
  have at: "jb_version j < length (fl_versions s')" "allowed dp (job_snapshot j s') j route" "job_upstream j route s' = Some u'"
    using w(1) by (simp_all add: engaged_def v job_upstream_def job_snapshot_def)
  have own: "ds_job e = j \<and> ds_route e = route" if "e \<in> set (fl_sent s')" "ds_task e = t" for e
  proof (cases "e \<in> set (fl_sent s)")
    case False
    then have "e = dispatch_entry t j route (i, rq)" using that(1) by (simp add: s'_def)
    then show ?thesis by simp
  qed (use that(2) eng in \<open>simp add: engaged_def\<close>)
  have count: "sends t (fl_sent s') = Suc (sends t (fl_sent s))" by (simp add: s'_def sends_def)
  have bound: "Suc (sends t (fl_sent s)) \<le> policy_attempts (up_retry u') (rq_method (jb_req j))"
    using le grp by (simp add: same_group_def)
  show "\<forall>e \<in> set (fl_sent s'). ds_task e = t \<longrightarrow> entry_ok dp s' e"
  proof (intro ballI impI)
    fix e
    assume e: "e \<in> set (fl_sent s')" "ds_task e = t"
    have "lawful dp j route u' (ds_target e) (ds_request e)"
    proof (cases "e \<in> set (fl_sent s)")
      case True
      then obtain u0 where "job_upstream (ds_job e) (ds_route e) s = Some u0"
          "lawful dp (ds_job e) (ds_route e) u0 (ds_target e) (ds_request e)"
        using old unfolding entry_ok_def by blast
      then show ?thesis using own[OF e] eng lawful_same[OF grp] by (simp add: engaged_def)
    next
      case False
      then have "e = dispatch_entry t j route (i, rq)" using e(1) by (simp add: s'_def)
      then show ?thesis using lawful_same[OF grp law] by simp
    qed
    then show "entry_ok dp s' e" using own[OF e] at e(2) count bound by (simp add: entry_ok_def)
  qed
  show "engaged dp s' t j route plan' u'" if "plan_ok dp j route u' (Suc (sends t (fl_sent s))) plan'"
    using that at own count by (simp add: engaged_def)
qed

lemma fleet_inv_logged:
  assumes inv: "fleet_inv dp s" and t: "t < fl_next s"
    and eng: "engaged dp s t j route plan u" "same_group u u'" "lawful dp j route u i rq"
    and le: "Suc (sends t (fl_sent s)) \<le> policy_attempts (up_retry u) (rq_method (jb_req j))"
    and k: "k \<noteq> NotStarted" "task_ok dp (logged t j route i rq u' m s) t k"
  shows "fleet_inv dp (set_task t k (logged t j route i rq u' m s))"
proof -
  have old: "\<forall>e \<in> set (fl_sent s). entry_ok dp s e" using inv by (simp add: fleet_inv_def)
  note l = engaged_logged[OF eng le old, where m = m, OF refl]
  have "entry_ok dp (set_task t k (logged t j route i rq u' m s)) e \<longleftrightarrow> entry_ok dp (logged t j route i rq u' m s) e" for e
    by (simp add: entry_ok_def job_snapshot_def job_upstream_def)
  then show ?thesis
    using l(1,2) t k by (intro fleet_inv_task[OF inv, where new = "[dispatch_entry t j route (i, rq)]" and t = t and k = k]) simp_all
qed

lemma attempt_task_logged [consumes 1]:
  assumes "i < length (up_targets u)"
  obtains (closed) r u' m where "same_group u u'"
      "attempt_task dp ev t j route u h n k le src i body rq s =
        set_task t (Closing j (finish dp (job_snapshot j s) route (jb_req j) r)) (logged t j route i rq u' m s)"
      "m = fl_metrics s"
  | (again) le' src' u' m where "same_group u u'"
      "attempt_task dp ev t j route u h n k le src i body rq s =
        set_task t (next_attempt j route u' h n (Suc k) le' src') (logged t j route i rq u' m s)"
      "m = inc_upstream_retries (fl_metrics s)"
proof -
  let ?cx = "forward_ctx dp ev route u (jb_req j) h"
  let ?st = "\<lparr>as_up = u, as_metrics = fl_metrics s, as_sent = [(i, rq)]\<rparr>"
  let ?r = "after_send ?cx (n = 0) (ev_attempts ev k) i body le src ?st"
  have "i < length (up_targets (as_up ?st))" "ev_attempts ev k = cx_env ?cx k" using assms by (simp_all add: forward_ctx_def)
  note c = after_send_cases[OF this, where is_last = "n = 0" and body = body and le = le and src = src]
  show thesis
  proof (cases ?r)
    case (Done r st)
    with c obtain r' where "r = Some r'" "same_group u (as_up st)" "as_metrics st = fl_metrics s" "as_sent st = [(i, rq)]" by auto
    then show thesis using Done by (intro closed[of "as_up st" r' "as_metrics st"]) (simp_all add: attempt_task_def logged_def Let_def)
  next
    case (Again le' src' st)
    with c have "same_group u (as_up st)" "as_metrics st = inc_upstream_retries (fl_metrics s)" "as_sent st = [(i, rq)]" by auto
    then show thesis using Again by (intro again[of "as_up st" le' src' "as_metrics st"]) (simp_all add: attempt_task_def logged_def Let_def)
  qed
qed

lemma policy_attempts_pos: "0 < policy_attempts p m"
  by (simp add: policy_attempts_def less_max_iff_disj split: option.split)

lemma plan_within:
  assumes "plan_ok dp j route u m plan"
  shows "Suc m \<le> policy_attempts (up_retry u) (rq_method (jb_req j))"
  using assms policy_attempts_pos[of "up_retry u" "rq_method (jb_req j)"] by (cases plan) auto

lemma fleet_inv_upgrade:
  assumes inv: "fleet_inv dp s" and t: "t < fl_next s"
    and eng: "engaged dp s t j route Upgrading u" and law: "lawful dp j route u i rq"
  shows "fleet_inv dp (upgrade_task ev t j route u i rq s)"
proof -
  have grp: "same_group u (observe_target now i ok u)" for now ok
    using law by (intro same_group_observe) (simp add: lawful_def)
  have le: "Suc (sends t (fl_sent s)) \<le> policy_attempts (up_retry u) (rq_method (jb_req j))"
    using plan_within eng unfolding engaged_def by blast
  have log: "fleet_inv dp (set_task t (Closing j r) (logged t j route i rq (observe_target now i ok u) m s))" for r now ok m
    by (rule fleet_inv_logged[OF inv t eng grp law le]) simp_all
  have quiet: "fleet_inv dp (set_task t (Closing j r) (put_version (jb_version j) (cr_upstream route) (observe_target now i ok u) s))" for r now ok
    using engaged_put(2)[OF eng grp] t by (intro fleet_inv_quiet[OF inv, of _ t "Closing j r"]) simp_all
  show ?thesis using log quiet by (simp add: upgrade_task_def Let_def split: option.split)
qed

lemma fleet_inv_attempt:
  assumes inv: "fleet_inv dp s" and t: "t < fl_next s"
    and eng: "engaged dp s t j route (Attempting h n k le src) u" and law: "lawful dp j route u i rq"
  shows "fleet_inv dp (attempt_task dp ev t j route u h n k le src i body rq s)"
proof -
  have i: "i < length (up_targets u)" using law by (simp add: lawful_def)
  have plan: "plan_ok dp j route u (sends t (fl_sent s)) (Attempting h n k le src)" using eng by (simp add: engaged_def)
  note lim = plan_within[OF plan]
  have old: "\<forall>e \<in> set (fl_sent s). entry_ok dp s e" using inv by (simp add: fleet_inv_def)
  from i show ?thesis
  proof (cases rule: attempt_task_logged[where dp = dp and ev = ev and t = t and j = j and route = route and h = h and
        n = n and k = k and le = le and src = src and body = body and rq = rq and s = s])
    case (closed r u' m)
    show ?thesis unfolding closed(2) by (rule fleet_inv_logged[OF inv t eng closed(1) law lim]) simp_all
  next
    case (again le' src' u' m)
    have "task_ok dp (logged t j route i rq u' m s) t (next_attempt j route u' h n (Suc k) le' src')"
    proof (cases n)
      case (Suc n')
      then have "plan_ok dp j route u' (Suc (sends t (fl_sent s))) (Attempting h n' (Suc k) le' src')"
        using plan again(1) by (auto simp: same_group_def)
      then have "engaged dp (logged t j route i rq u' m s) t j route (Attempting h n' (Suc k) le' src') u'"
        by (rule engaged_logged(3)[OF eng again(1) law lim old refl])
      then show ?thesis using Suc by (auto simp: next_attempt_def)
    qed (simp add: next_attempt_def)
    moreover have "next_attempt j route u' h n (Suc k) le' src' \<noteq> NotStarted" by (simp add: next_attempt_def split: nat.split)
    ultimately show ?thesis unfolding again(2) by (intro fleet_inv_logged[OF inv t eng again(1) law lim]) simp_all
  qed
qed

lemma fleet_inv_piece [inv_intros]:
  assumes inv: "fleet_inv dp s" and t: "t < fl_next s"
  shows "fleet_inv dp (task_step dp ev t s)"
proof (cases "fl_tasks s t")
  case (Sending j route plan i body rq)
  have "task_ok dp s t (Sending j route plan i body rq)" using inv Sending unfolding fleet_inv_def by metis
  then obtain u where "engaged dp s t j route plan u" "lawful dp j route u i rq" by auto
  moreover have "job_upstream j route s = Some u" using calculation(1) by (simp add: engaged_def)
  ultimately show ?thesis
    using fleet_inv_attempt[OF inv t] fleet_inv_upgrade[OF inv t] Sending
    by (cases plan) (auto simp: task_step_def send_task_def)
qed (use assms in \<open>simp_all add: task_step_def inv_intros\<close>)

lemma fleet_inv_arrive [inv_intros]:
  assumes inv: "fleet_inv dp s"
  shows "fleet_inv dp (start_request dp ev req listener_name is_tls remote s)"
proof -
  let ?s = "start_request dp ev req listener_name is_tls remote s"
  define j where "j = \<lparr>jb_req = req, jb_listener = listener_name, jb_scheme = (if is_tls then ''https'' else ''http''),
    jb_remote = remote, jb_version = live_version s, jb_host = request_host (dp_headers dp) req,
    jb_ip = client_of dp (live s) req remote,
    jb_id = fst (ensure_request_id (dp_headers dp) req (ev_wall_nanos ev) (fl_ids s))\<rparr>"
  have same: "fl_versions ?s = fl_versions s" "fl_sent ?s = fl_sent s" "fl_next ?s = Suc (fl_next s)"
    and j: "fl_tasks ?s = (fl_tasks s)(fl_next s := Admitting j)" "jb_version j = live_version s"
      "jb_host j = request_host (dp_headers dp) (jb_req j)" "jb_ip j = client_of dp (live s) (jb_req j) (jb_remote j)"
    by (simp_all add: start_request_def Let_def case_prod_unfold j_def)
  have "task_ok dp s (fl_next s) NotStarted" using inv unfolding fleet_inv_def by (metis order_refl)
  then have "task_ok dp s (fl_next s) (Admitting j)"
    using j(2-4) same inv by (simp add: live_version_def live_def job_snapshot_def fleet_inv_def)
  moreover have "task_ok dp ?s t k \<longleftrightarrow> task_ok dp s t k" for t k
    using same by (cases k) (simp_all add: engaged_def job_snapshot_def job_upstream_def)
  moreover have "entry_ok dp ?s e \<longleftrightarrow> entry_ok dp s e" for e
    using same by (simp add: entry_ok_def job_snapshot_def job_upstream_def)
  ultimately show ?thesis using inv j(1) same by (auto simp: fleet_inv_def less_Suc_eq)
qed

lemma reload_attempt_wf:
  assumes "reload_attempt pf ld cli = Ok (snap, rendered)"
  obtains cfg src where "resolve_validated pf ld cli = Ok (cfg, src)" "pf_to_string_pretty pf cfg = Ok rendered"
    "build_reload_snapshot (dp_headers (pf_deps pf)) (dp_net (pf_deps pf)) (pf_method_from_bytes pf) (pf_acceptor pf) cfg = Ok snap"
    "snapshot_wf snap"
proof -
  obtain cfg src where r: "resolve_validated pf ld cli = Ok (cfg, src)" "pf_to_string_pretty pf cfg = Ok rendered"
    "build_reload_snapshot (dp_headers (pf_deps pf)) (dp_net (pf_deps pf)) (pf_method_from_bytes pf) (pf_acceptor pf) cfg = Ok snap"
    using assms by (auto simp: reload_attempt_def split: sum.splits)
  have "config_wf (dp_net (pf_deps pf)) (pf_url_parse pf) cfg"
    using resolve_validated_valid[OF r(1)] by (simp add: validate_Ok_iff)
  then have "snapshot_wf snap" using r(3) snapshot_wf_built unfolding build_reload_snapshot_def by blast
  with r show thesis by (rule that)
qed

lemma fleet_inv_step:
  assumes inv: "fleet_inv (pf_deps pf) s" and step: "fleet_step pf cli l s s'"
  shows "fleet_inv (pf_deps pf) s'"
  using step inv
proof (induction rule: fleet_step.induct)
  case (observation v s n u i now ok)
  have "extends s (put_version v n (observe_target now i ok u) s)"
    by (rule extends_put[OF observation.hyps(2) same_group_observe[OF observation.hyps(3)]])
  then show ?case using observation.prems versions_wf[OF observation.prems] by (intro fleet_inv_env[OF observation.prems]) simp_all
next
  case (store s ld snap rendered)
  have "snapshot_wf snap" using reload_attempt_wf[OF store.hyps(2)] by blast
  then show ?case using store.prems
    by (intro fleet_inv_env[OF store.prems]) (auto simp: fleet_inv_def intro!: extends_append)
qed (simp_all add: inv_intros)

lemma fleet_inv_start: "snapshot_wf (gw_snapshot (sv_gateway sv)) \<Longrightarrow> fleet_inv dp (fleet_of sv)"
  by (simp add: fleet_inv_def fleet_of_def sends_def)

lemma fleet_inv_serve:
  "serve pf cfg = Ok sv \<Longrightarrow> validate (dp_net (pf_deps pf)) (pf_url_parse pf) cfg = Ok () \<Longrightarrow> fleet_inv (pf_deps pf) (fleet_of sv)"
  by (rule fleet_inv_start[OF in_force_wf[OF in_force_start]])

interpretation fleet: invariant_system
  "\<lambda>s. \<exists>cfg sv. serve pf cfg = Ok sv \<and> validate (dp_net (pf_deps pf)) (pf_url_parse pf) cfg = Ok () \<and> s = fleet_of sv"
  "\<lambda>s s'. \<exists>l. fleet_step pf cli_path l s s'" "fleet_inv (pf_deps pf)" for pf cli_path
  by unfold_locales (use fleet_inv_serve fleet_inv_step in blast)+

lemma fleet_run_steps: "fleet_run pf cli_path ls s s' \<Longrightarrow> (\<lambda>s s'. \<exists>l. fleet_step pf cli_path l s s')\<^sup>*\<^sup>* s s'"
  by (induction rule: fleet_run.induct) (auto intro: converse_rtranclp_into_rtranclp)

lemma fleet_run_inv: "fleet_run pf cli_path ls s s' \<Longrightarrow> fleet_inv (pf_deps pf) s \<Longrightarrow> fleet_inv (pf_deps pf) s'"
  using fleet.inv_steps fleet_run_steps by blast


section \<open>Progress\<close>

text \<open>A bound on the pieces a task has still to run.\<close>

definition turns :: "UpstreamRuntime \<Rightarrow> nat" where
  "turns u = 2 * length (up_schedule u) + 1"

fun attempts_after :: "'h plan \<Rightarrow> nat" where
  "attempts_after (Attempting h n k le src) = n"
| "attempts_after Upgrading = 0"

definition plan_cost :: "'h job \<Rightarrow> 'n CompiledRoute \<Rightarrow> 'h plan \<Rightarrow> ('h, 'n, 'u, 't) fleet \<Rightarrow> nat" where
  "plan_cost j route plan s =
     (case job_upstream j route s of None \<Rightarrow> 0 | Some u \<Rightarrow> attempts_after plan * turns u)"

definition snapshot_cost :: "string \<Rightarrow> ('n, 't) RuntimeConfig \<Rightarrow> nat" where
  "snapshot_cost method snap =
     (\<Sum>n \<in> dom (map_of (sn_upstreams snap)).
        case map_of (sn_upstreams snap) n of
          None \<Rightarrow> 0 | Some u \<Rightarrow> Suc (policy_attempts (up_retry u) method) * turns u)"

fun task_cost :: "('h, 'n, 'u, 't) fleet \<Rightarrow> ('h, 'n, 'u) task \<Rightarrow> nat" where
  "task_cost s (Admitting j) = 3 + snapshot_cost (rq_method (jb_req j)) (job_snapshot j s)"
| "task_cost s (Picking j route plan left) = plan_cost j route plan s + 2 * left + 2"
| "task_cost s (Looking j route plan i left) = plan_cost j route plan s + 2 * left + 3"
| "task_cost s (Sending j route plan i body rq) = plan_cost j route plan s + 2"
| "task_cost s (Closing j r) = 1"
| "task_cost s _ = 0"

lemma snapshot_cost_same:
  assumes "same_config a b"
  shows "snapshot_cost m b = snapshot_cost m a"
proof -
  have rel: "rel_option same_group (map_of (sn_upstreams a) n) (map_of (sn_upstreams b) n)" for n
    using assms by (simp add: same_config_def)
  have dom: "dom (map_of (sn_upstreams b)) = dom (map_of (sn_upstreams a))"
    using rel by (auto simp: option_rel_Some1 option_rel_Some2 dom_def)  (metis option_rel_Some1 option_rel_Some2)+
  have cost: "(case map_of (sn_upstreams b) n of None \<Rightarrow> 0 | Some u \<Rightarrow> Suc (policy_attempts (up_retry u) m) * turns u) =
      (case map_of (sn_upstreams a) n of None \<Rightarrow> 0 | Some u \<Rightarrow> Suc (policy_attempts (up_retry u) m) * turns u)" for n
    using rel[of n] by (cases "map_of (sn_upstreams a) n"; cases "map_of (sn_upstreams b) n") (auto simp: same_group_def turns_def)
  show ?thesis unfolding snapshot_cost_def dom using cost by simp
qed

lemma plan_cost_same:
  assumes "extends s s'" "engaged dp s t j route plan u"
  shows "plan_cost j route plan' s' = plan_cost j route plan' s" "plan_cost j route plan' s = attempts_after plan' * turns u"
proof -
  have v: "jb_version j < length (fl_versions s)" "job_upstream j route s = Some u" using assms(2) by (simp_all add: engaged_def)
  obtain u' where "job_upstream j route s' = Some u'" "same_group u u'" using extends_job(3)[OF assms(1) v] by blast
  then show "plan_cost j route plan' s' = plan_cost j route plan' s" "plan_cost j route plan' s = attempts_after plan' * turns u"
    using v(2) by (simp_all add: plan_cost_def turns_def same_group_def)
qed

lemma task_cost_same:
  assumes "extends s s'" "task_ok dp s t k"
  shows "task_cost s' k = task_cost s k"
proof (cases k)
  case (Admitting j)
  then show ?thesis using assms(2) extends_job(2)[OF assms(1), of j] snapshot_cost_same by (metis task_cost.simps(1) task_ok.simps(2))
qed (use assms plan_cost_same(1)[OF assms(1)] in auto)

lemma snapshot_cost_ge:
  assumes "map_of (sn_upstreams snap) n = Some u"
  shows "Suc (policy_attempts (up_retry u) m) * turns u \<le> snapshot_cost m snap"
proof -
  have "n \<in> dom (map_of (sn_upstreams snap))" using assms by blast
  from member_le_sum[OF this, where f = "\<lambda>n. case map_of (sn_upstreams snap) n of
      None \<Rightarrow> 0 | Some u \<Rightarrow> Suc (policy_attempts (up_retry u) m) * turns u"]
  show ?thesis using assms by (simp add: snapshot_cost_def finite_dom_map_of)
qed

lemma next_attempt_cost:
  assumes "job_upstream j route s = Some u'" "up_schedule u' = up_schedule u"
  shows "task_cost s (next_attempt j route u h n k le src) \<le> n * turns u + 1"
  using assms by (cases n) (simp_all add: next_attempt_def plan_cost_def turns_def)

lemma turns_le: "n < p \<Longrightarrow> n * turns u + turns u \<le> p * turns u"
  by (metis Suc_leI add.commute mult_Suc mult_le_mono1)

lemma plan_cost_set_task [simp]: "plan_cost j route plan (set_task t k s) = plan_cost j route plan s"
  by (simp add: plan_cost_def job_upstream_def job_snapshot_def)

lemma task_cost_set_task [simp]: "task_cost (set_task t k' s) k = task_cost s k"
  by (cases k) (simp_all add: job_snapshot_def)

lemma admit_cost:
  assumes "fl_tasks s t = Admitting j"
  shows "task_cost (admit_task dp ev t j s) (fl_tasks (admit_task dp ev t j s) t) < task_cost s (Admitting j)"
proof -
  let ?adm = "admit dp (job_snapshot j s) (fl_limiter s) (ev_now ev) (jb_listener j) (jb_req j) (jb_host j) (jb_ip j)"
  obtain a rl where adm: "?adm = (a, rl)" by (cases ?adm)
  let ?s = "s\<lparr>fl_limiter := rl\<rparr>"
  let ?m = "rq_method (jb_req j)"
  show ?thesis
  proof (cases a)
    case (Inl e)
    then show ?thesis using adm by (simp add: admit_task_def)
  next
    case (Inr ru)
    obtain route u where ru: "ru = (route, u)" by (cases ru)
    have "passes dp (job_snapshot j s) (fl_limiter s) (ev_now ev) (jb_listener j) (jb_req j) (jb_host j) (jb_ip j) route u"
      using adm Inr ru by (intro admit_passes) simp
    then have up: "map_of (sn_upstreams (job_snapshot j s)) (cr_upstream route) = Some u" by (simp add: passes_def)
    have at: "job_upstream j route ?s = Some u" using up by (simp add: job_upstream_def job_snapshot_def)
    let ?h = "forward_headers (dp_headers dp) route (jb_req j) (jb_host j) (jb_scheme j) (jb_remote j) (jb_id j)"
    let ?n = "attempt_limit u (replayable_body (dp_headers dp) u ?m ?h)"
    have "?n * turns u \<le> policy_attempts (up_retry u) ?m * turns u" by (rule mult_le_mono1[OF attempt_limit_le])
    then have n: "?n * turns u + turns u \<le> snapshot_cost ?m (job_snapshot j s)" using snapshot_cost_ge[OF up, of ?m] unfolding mult_Suc by linarith
    have "task_cost ?s (next_attempt j route u ?h ?n 0 le src) \<le> ?n * turns u + 1" for le src
      by (rule next_attempt_cost[OF at refl])
    then have "task_cost ?s (next_attempt j route u ?h ?n 0 le src) \<le> snapshot_cost ?m (job_snapshot j s) + 1" for le src
      using n by (meson add_le_mono1 add_leE order_trans)
    moreover have "task_cost ?s (Picking j route Upgrading (length (up_schedule u))) \<le> snapshot_cost ?m (job_snapshot j s) + 1"
      using n at by (simp add: plan_cost_def turns_def)
    ultimately have "task_cost ?s (admitted_task dp (job_snapshot j s) j route u) \<le> snapshot_cost ?m (job_snapshot j s) + 1"
      by (simp add: admitted_task_def Let_def del: task_cost.simps(2))
    then show ?thesis using adm Inr ru by (simp add: admit_task_def)
  qed
qed

lemma prepare_send_cost:
  assumes "engaged dp s t j route plan u"
  shows "task_cost s (prepare_send dp j route u plan i) \<le> plan_cost j route plan s + 2"
  using assms
  by (cases plan) (auto simp: prepare_send_def Let_def plan_cost_def engaged_def split: option.split prod.split)

lemma send_cost:
  assumes "engaged dp s t j route plan u" "lawful dp j route u i rq"
    and s'_def: "s' = send_task dp ev t j route plan i body rq s"
  shows "task_cost s' (fl_tasks s' t) < plan_cost j route plan s + 2"
proof -
  have up: "job_upstream j route s = Some u" and v: "jb_version j < length (fl_versions s)" using assms(1) by (simp_all add: engaged_def)
  show ?thesis
  proof (cases plan)
    case (Attempting h n k le src)
    have i: "i < length (up_targets u)" using assms(2) by (simp add: lawful_def)
    have pc: "plan_cost j route plan s = n * turns u" using up Attempting by (simp add: plan_cost_def)
    have s': "s' = attempt_task dp ev t j route u h n k le src i body rq s" using up Attempting by (simp add: s'_def send_task_def)
    from i show ?thesis
    proof (cases rule: attempt_task_logged[where dp = dp and ev = ev and t = t and j = j and route = route and h = h and
        n = n and k = k and le = le and src = src and body = body and rq = rq and s = s])
      case (again le' src' u' m)
      have "job_upstream j route (logged t j route i rq u' m s) = Some u'"
        unfolding logged_def by (rule put_version_job) (use up v in \<open>simp_all add: job_upstream_def job_snapshot_def\<close>)
      from next_attempt_cost[OF this refl] have "task_cost s' (fl_tasks s' t) \<le> n * turns u' + 1" by (simp add: s' again(2))
      then show ?thesis using pc again(1) by (simp add: turns_def same_group_def)
    qed (simp add: s')
  next
    case Upgrading
    then show ?thesis using up by (simp add: s'_def send_task_def upgrade_task_def Let_def split: option.split)
  qed
qed

lemma piece_cost:
  assumes inv: "fleet_inv dp s" and busy: "0 < task_cost s (fl_tasks s t)"
  shows "task_cost (task_step dp ev t s) (fl_tasks (task_step dp ev t s) t) < task_cost s (fl_tasks s t)"
proof -
  have ok: "task_ok dp s t (fl_tasks s t)" using inv by (simp add: fleet_inv_def)
  show ?thesis
  proof (cases "fl_tasks s t")
    case (Admitting j)
    then show ?thesis using admit_cost[OF Admitting] by (simp add: task_step_def)
  next
    case (Picking j route plan left)
    then obtain u where eng: "engaged dp s t j route plan u" using ok by auto
    have up: "job_upstream j route s = Some u" using eng by (simp add: engaged_def)
    let ?u = "u\<lparr>up_next := up_next u + 1\<rparr>"
    have "plan_cost j route plan (put_version (jb_version j) (cr_upstream route) ?u s) = plan_cost j route plan s"
      by (rule plan_cost_same(1)[OF engaged_put(2)[OF eng] eng]) (simp add: same_group_def)
    then show ?thesis using Picking up by (cases left) (simp_all add: task_step_def pick_task_turn_def)
  next
    case (Looking j route plan i left)
    then obtain u where eng: "engaged dp s t j route plan u" "i \<in> set (up_schedule u)" using ok by auto
    have up: "job_upstream j route s = Some u" using eng(1) by (simp add: engaged_def)
    have "i < length (up_targets u)" using engaged_wf[OF inv eng(1)] eng(2) by (auto simp: up_wf_def)
    then show ?thesis using Looking up prepare_send_cost[OF eng(1), of i] by (simp add: task_step_def look_task_def get_at_def)
  next
    case (Sending j route plan i body rq)
    then obtain u where "engaged dp s t j route plan u" "lawful dp j route u i rq" using ok by auto
    then show ?thesis using Sending send_cost[OF _ _ refl] by (simp add: task_step_def)
  qed (use busy in \<open>simp_all add: task_step_def close_task_def\<close>)
qed

text \<open>A piece leaves the other tasks and the configurations alone.\<close>

lemma extends_logged:
  assumes "engaged dp s t j route plan u" "same_group u u'"
  shows "extends s (logged t j route i rq u' m s)"
  using engaged_put(2)[OF assms] by (simp add: extends_def logged_def put_version_def)

lemma extends_send:
  assumes "engaged dp s t j route plan u" "lawful dp j route u i rq"
  shows "extends s (send_task dp ev t j route plan i body rq s)"
proof -
  have up: "job_upstream j route s = Some u" using assms(1) by (simp add: engaged_def)
  have i: "i < length (up_targets u)" using assms(2) by (simp add: lawful_def)
  note obs = same_group_observe[OF i]
  show ?thesis
  proof (cases plan)
    case (Attempting h n k le src)
    from i show ?thesis
      by (cases rule: attempt_task_logged[where dp = dp and ev = ev and t = t and j = j and route = route and h = h and
          n = n and k = k and le = le and src = src and body = body and rq = rq and s = s])
        (simp_all add: send_task_def up Attempting extends_logged[OF assms(1)])
  next
    case Upgrading
    then show ?thesis
      using extends_logged[OF assms(1) obs] engaged_put(2)[OF assms(1) obs]
      by (simp add: send_task_def up upgrade_task_def Let_def split: option.split)
  qed
qed

lemma extends_piece:
  assumes inv: "fleet_inv dp s"
  shows "extends s (task_step dp ev t s)"
proof -
  have ok: "task_ok dp s t (fl_tasks s t)" using inv by (simp add: fleet_inv_def)
  show ?thesis
  proof (cases "fl_tasks s t")
    case (Picking j route plan left)
    then obtain u where eng: "engaged dp s t j route plan u" using ok by auto
    have "extends s (put_version (jb_version j) (cr_upstream route) (u\<lparr>up_next := up_next u + 1\<rparr>) s)"
      by (rule engaged_put(2)[OF eng]) (simp add: same_group_def)
    moreover have "job_upstream j route s = Some u" using eng by (simp add: engaged_def)
    ultimately show ?thesis using Picking by (cases left) (simp_all add: task_step_def pick_task_turn_def)
  next
    case (Sending j route plan i body rq)
    then obtain u where "engaged dp s t j route plan u" "lawful dp j route u i rq" using ok by auto
    then show ?thesis using Sending extends_send by (simp add: task_step_def)
  qed (simp_all add: task_step_def admit_task_def look_task_def close_task_def case_prod_unfold Let_def extends_same split: option.split)
qed

lemma other_tasks_piece: "t' \<noteq> t \<Longrightarrow> fl_tasks (task_step dp ev t s) t' = fl_tasks s t'"
  by (simp add: task_step_def admit_task_def pick_task_turn_def look_task_def send_task_def attempt_task_def upgrade_task_def
      close_task_def case_prod_unfold Let_def split: task.split option.split nat.split plan.split turn.split)

lemma extends_step:
  assumes "fleet_inv (pf_deps pf) s" "fleet_step pf cli l s s'"
  shows "extends s s'"
  using assms(2,1)
proof (induction rule: fleet_step.induct)
  case (observation v s n u i now ok)
  show ?case by (rule extends_put[OF observation.hyps(2) same_group_observe[OF observation.hyps(3)]])
next
  case (store s ld snap rendered)
  show ?case by (rule extends_append) simp
qed (simp_all add: extends_piece extends_same start_request_def Let_def case_prod_unfold)

lemma fleet_next_mono: "fleet_step pf cli l s s' \<Longrightarrow> fl_next s \<le> fl_next s'"
  by (induction rule: fleet_step.induct)
    (simp_all add: start_request_def Let_def task_step_def admit_task_def pick_task_turn_def look_task_def send_task_def
      attempt_task_def upgrade_task_def close_task_def case_prod_unfold split: task.split option.split nat.split plan.split turn.split)

lemma step_cost:
  assumes inv: "fleet_inv (pf_deps pf) s" and step: "fleet_step pf cli l s s'" and t: "t < fl_next s"
  shows "task_cost s' (fl_tasks s' t) \<le> task_cost s (fl_tasks s t) - of_bool (l = Some t)"
proof -
  have same: "task_cost s' (fl_tasks s t) = task_cost s (fl_tasks s t)"
    using task_cost_same[OF extends_step[OF inv step], of "pf_deps pf" t] inv by (simp add: fleet_inv_def)
  show ?thesis
    using step
  proof cases
    case (piece t' ev)
    show ?thesis
    proof (cases "t' = t")
      case True
      show ?thesis
      proof (cases "task_cost s (fl_tasks s t) = 0")
        case True
        then have "task_step (pf_deps pf) ev t s = s" by (cases "fl_tasks s t") (simp_all add: task_step_def)
        then show ?thesis using True piece \<open>t' = t\<close> by simp
      next
        case False
        then show ?thesis using piece_cost[OF inv, of t ev] piece \<open>t' = t\<close> by simp
      qed
    next
      case False
      then show ?thesis using same piece other_tasks_piece[of t t' "pf_deps pf" ev s] by simp
    qed
  qed (use same t in \<open>simp_all add: start_request_def Let_def case_prod_unfold\<close>)
qed

lemma run_cost:
  assumes "fleet_run pf cli ls s s'" "fleet_inv (pf_deps pf) s" "t < fl_next s"
  shows "task_cost s' (fl_tasks s' t) \<le> task_cost s (fl_tasks s t) - count_list ls (Some t) \<and> t < fl_next s'"
  using assms
proof (induction rule: fleet_run.induct)
  case (more l s s1 ls s2)
  have "t < fl_next s1" using more.prems(2) fleet_next_mono[OF more.hyps(1)] by simp
  then have "task_cost s2 (fl_tasks s2 t) \<le> task_cost s1 (fl_tasks s1 t) - count_list ls (Some t) \<and> t < fl_next s2"
    using more.IH fleet_inv_step[OF more.prems(1) more.hyps(1)] by blast
  then show ?case using step_cost[OF more.prems(1) more.hyps(1) more.prems(2)] by auto
qed simp

lemma no_cost_finished:
  assumes "fleet_inv dp s" "t < fl_next s" "task_cost s (fl_tasks s t) = 0"
  shows "\<exists>resp. fl_tasks s t = Finished resp"
proof -
  have "task_ok dp s t (fl_tasks s t)" "fl_tasks s t \<noteq> NotStarted" using assms(1,2) by (simp_all add: fleet_inv_def)
  then show ?thesis using assms(3) by (cases "fl_tasks s t") auto
qed

section \<open>Counters and the configuration shown\<close>

definition finished :: "('h, 'n, 'u, 't) fleet \<Rightarrow> nat set" where
  "finished s = {t. \<exists>resp. fl_tasks s t = Finished resp}"

definition counted :: "Metrics \<Rightarrow> ('h, 'n, 'u, 't) fleet \<Rightarrow> bool" where
  "counted m s \<longleftrightarrow>
     mx_requests_total (fl_metrics s) = mx_requests_total m + of_nat (fl_next s) \<and>
     length (mx_request_duration (fl_metrics s)) = length (mx_request_duration m) + card (finished s)"

text \<open>What the two counters of the metrics see of a piece.\<close>

definition quiet_metrics :: "Metrics \<Rightarrow> Metrics \<Rightarrow> bool" where
  "quiet_metrics m m' \<longleftrightarrow>
     mx_requests_total m' = mx_requests_total m \<and> mx_request_duration m' = mx_request_duration m"

lemma quiet_metrics_simps [simp]:
  "quiet_metrics m m" "quiet_metrics m (inc_upstream_retries m)" "quiet_metrics m (inc_websocket m)"
  "quiet_metrics m (inc_config_reload ok m)"
  by (simp_all add: quiet_metrics_def inc_upstream_retries_def inc_websocket_def inc_config_reload_def Let_def)

lemma piece_frame:
  "length (fl_versions (task_step dp ev t s)) = length (fl_versions s)" "fl_next (task_step dp ev t s) = fl_next s"
  "fl_effective (task_step dp ev t s) = fl_effective s" "fl_swap (task_step dp ev t s) = fl_swap s"
  by (simp_all add: task_step_def admit_task_def pick_task_turn_def look_task_def send_task_def attempt_task_def upgrade_task_def
      close_task_def case_prod_unfold Let_def logged_def split: task.split option.split nat.split plan.split turn.split)

lemma prepare_send_not_finished: "prepare_send dp j route u plan i \<noteq> Finished resp"
  by (simp add: prepare_send_def Let_def split: plan.split option.split prod.split)

lemma next_attempt_not_finished: "next_attempt j route u h n k le src \<noteq> Finished resp"
  by (simp add: next_attempt_def split: nat.split)

lemma piece_quiet:
  assumes inv: "fleet_inv dp s" and "\<And>j r. fl_tasks s t \<noteq> Closing j r" "\<And>resp. fl_tasks s t \<noteq> Finished resp"
  shows "quiet_metrics (fl_metrics s) (fl_metrics (task_step dp ev t s)) \<and> (\<forall>resp. fl_tasks (task_step dp ev t s) t \<noteq> Finished resp)"
proof -
  have ok: "task_ok dp s t (fl_tasks s t)" using inv by (simp add: fleet_inv_def)
  show ?thesis
  proof (cases "fl_tasks s t")
    case (Sending j route plan i body rq)
    then obtain u where u: "engaged dp s t j route plan u" "lawful dp j route u i rq" using ok by auto
    have up: "job_upstream j route s = Some u" and i: "i < length (up_targets u)" using u by (simp_all add: engaged_def lawful_def)
    show ?thesis
    proof (cases plan)
      case (Attempting h n k le src)
      from i show ?thesis
        by (cases rule: attempt_task_logged[where dp = dp and ev = ev and t = t and j = j and route = route and h = h and
            n = n and k = k and le = le and src = src and body = body and rq = rq and s = s])
          (simp_all add: task_step_def send_task_def Sending up Attempting next_attempt_not_finished)
    next
      case Upgrading
      then show ?thesis using Sending up
        by (simp add: task_step_def send_task_def upgrade_task_def Let_def split: option.split)
    qed
  next
    case (Looking j route plan i left)
    then show ?thesis
      by (simp add: task_step_def look_task_def prepare_send_not_finished split: option.split)
  next
    case (Admitting j)
    then show ?thesis
      by (simp add: task_step_def admit_task_def admitted_task_def next_attempt_not_finished case_prod_unfold Let_def split: sum.split)
  next
    case (Picking j route plan left)
    then show ?thesis by (simp add: task_step_def pick_task_turn_def split: option.split nat.split)
  qed (use assms(2,3) in \<open>simp_all add: task_step_def\<close>)
qed

lemma counted_quiet:
  assumes "counted m s" "quiet_metrics (fl_metrics s) (fl_metrics s')" "fl_next s' = fl_next s" "finished s' = finished s"
  shows "counted m s'"
  using assms by (simp add: counted_def quiet_metrics_def)

lemma finished_bound: "fleet_inv dp s \<Longrightarrow> finished s \<subseteq> {..<fl_next s}"
  by (auto simp: finished_def fleet_inv_def) (metis linorder_le_less_linear task.distinct(11))

lemma counted_piece:
  assumes inv: "fleet_inv dp s" and c: "counted m s" and t: "t < fl_next s"
  shows "counted m (task_step dp ev t s)"
proof (cases "\<exists>j r. fl_tasks s t = Closing j r")
  case True
  then obtain j r where r: "fl_tasks s t = Closing j r" by blast
  let ?s = "task_step dp ev t s"
  have "finished ?s = insert t (finished s)" "t \<notin> finished s" using r by (auto simp: finished_def task_step_def close_task_def)
  moreover have "finite (finished s)" using finished_bound[OF inv] finite_subset by blast
  ultimately have "card (finished ?s) = Suc (card (finished s))" by simp
  then show ?thesis using c r
    by (simp add: counted_def task_step_def close_task_def observe_duration_def tally_fields)
next
  case False
  show ?thesis
  proof (cases "\<exists>resp. fl_tasks s t = Finished resp")
    case True
    then have "task_step dp ev t s = s" by (auto simp: task_step_def)
    then show ?thesis using c by simp
  next
    case idle: False
    note q = piece_quiet[OF inv, of t ev]
    have "fl_tasks (task_step dp ev t s) t' = Finished resp \<longleftrightarrow> fl_tasks s t' = Finished resp" for t' resp
      using q False idle other_tasks_piece[of t' t dp ev s] by (cases "t' = t") auto
    then have "finished (task_step dp ev t s) = finished s" by (simp add: finished_def)
    then show ?thesis using q False idle by (intro counted_quiet[OF c]) (auto simp: piece_frame)
  qed
qed

text \<open>The live snapshot was built from a validated configuration, and the text shown is that
  configuration's, or a reload has yet to replace it.\<close>

definition displayed :: "('h, 'n, 'u, 't) platform \<Rightarrow> ('h, 'n, 'u, 't) fleet \<Rightarrow> bool" where
  "displayed pf s \<longleftrightarrow>
     (\<exists>cfg wt snap. validate (dp_net (pf_deps pf)) (pf_url_parse pf) cfg = Ok () \<and>
        build_snapshot_inner (dp_headers (pf_deps pf)) (dp_net (pf_deps pf)) (pf_method_from_bytes pf) (pf_acceptor pf) cfg wt = Ok snap \<and>
        same_config snap (live s) \<and>
        pf_to_string_pretty pf cfg = Ok (case fl_swap s of None \<Rightarrow> fl_effective s | Some rendered \<Rightarrow> rendered))"

lemma displayed_extends:
  assumes "displayed pf s" "extends s s'" "length (fl_versions s') = length (fl_versions s)" "fl_versions s \<noteq> []"
    and "fl_swap s' = fl_swap s" "fl_effective s' = fl_effective s"
  shows "displayed pf s'"
proof -
  have "same_config (live s) (live s')" using assms(2-4) by (simp add: extends_def live_def live_version_def)
  then show ?thesis using assms(1,5,6) same_config_trans unfolding displayed_def by metis
qed

text \<open>Both, with the invariant of the tasks.\<close>

definition fleet_books :: "('h, 'n, 'u, 't) platform \<Rightarrow> Metrics \<Rightarrow> ('h, 'n, 'u, 't) fleet \<Rightarrow> bool" where
  "fleet_books pf m s \<longleftrightarrow> fleet_inv (pf_deps pf) s \<and> counted m s \<and> displayed pf s"

lemma displayed_step:
  assumes inv: "fleet_inv (pf_deps pf) s" and d: "displayed pf s" and step: "fleet_step pf cli l s s'"
  shows "displayed pf s'"
proof -
  have ne: "fl_versions s \<noteq> []" using inv by (simp add: fleet_inv_def)
  note keep = displayed_extends[OF d extends_step[OF inv step] _ ne]
  show ?thesis
    using step
  proof cases
    case (store ld snap rendered)
    obtain cfg src where "resolve_validated pf ld cli = Ok (cfg, src)" "pf_to_string_pretty pf cfg = Ok rendered"
      "build_reload_snapshot (dp_headers (pf_deps pf)) (dp_net (pf_deps pf)) (pf_method_from_bytes pf) (pf_acceptor pf) cfg = Ok snap"
      using reload_attempt_wf[OF store(4)] by blast
    moreover have "live s' = snap" using store(2) by (simp add: live_def live_version_def)
    ultimately show ?thesis
      using store(2) resolve_validated_valid same_config_refl
      unfolding displayed_def build_reload_snapshot_def by (intro exI[of _ cfg] exI[of _ False] exI[of _ snap]) simp
  next
    case (display rendered)
    then show ?thesis using d by (simp add: displayed_def live_def live_version_def)
  qed (use keep in \<open>simp_all add: piece_frame start_request_def Let_def case_prod_unfold\<close>)
qed

lemma counted_step:
  assumes inv: "fleet_inv (pf_deps pf) s" and c: "counted m s" and step: "fleet_step pf cli l s s'"
  shows "counted m s'"
  using step
proof cases
  case (arrive ev req lname is_tls remote)
  have "fl_tasks s (fl_next s) = NotStarted" using inv by (simp add: fleet_inv_def)
  then have "finished s' = finished s" using arrive by (auto simp: finished_def start_request_def Let_def case_prod_unfold)
  then show ?thesis using c arrive
    by (simp add: counted_def start_request_def Let_def case_prod_unfold inc_requests_def)
next
  case (piece t ev)
  then show ?thesis using counted_piece[OF inv c] by simp
qed (auto intro!: counted_quiet[OF c] simp: finished_def quiet_metrics_def admin_route_fields inc_config_reload_def Let_def)

lemma displayed_start: "in_force pf cfg sv \<Longrightarrow> displayed pf (fleet_of sv)"
  by (auto simp: in_force_def displayed_def live_def live_version_def fleet_of_def)

lemma counted_start: "counted (gw_metrics (sv_gateway sv)) (fleet_of sv)"
  by (simp add: counted_def finished_def fleet_of_def)

lemma fleet_books_serve:
  assumes "serve pf cfg = Ok sv" "validate (dp_net (pf_deps pf)) (pf_url_parse pf) cfg = Ok ()"
  shows "fleet_books pf (gw_metrics (sv_gateway sv)) (fleet_of sv)"
  using fleet_inv_serve[OF assms] counted_start displayed_start[OF in_force_start[OF assms]] by (simp add: fleet_books_def)

lemma fleet_books_step: "fleet_books pf m s \<Longrightarrow> fleet_step pf cli l s s' \<Longrightarrow> fleet_books pf m s'"
  using fleet_inv_step displayed_step counted_step unfolding fleet_books_def by blast

interpretation books: invariant_system
  "\<lambda>s. \<exists>cfg sv. serve pf cfg = Ok sv \<and> validate (dp_net (pf_deps pf)) (pf_url_parse pf) cfg = Ok () \<and> s = fleet_of sv \<and>
     m = gw_metrics (sv_gateway sv)"
  "\<lambda>s s'. \<exists>l. fleet_step pf cli_path l s s'" "fleet_books pf m" for pf cli_path m
  by unfold_locales (use fleet_books_serve fleet_books_step in blast)+

lemma fleet_run_books:
  assumes "serve pf cfg = Ok sv" "validate (dp_net (pf_deps pf)) (pf_url_parse pf) cfg = Ok ()"
    and "fleet_run pf cli_path ls (fleet_of sv) s"
  shows "fleet_books pf (gw_metrics (sv_gateway sv)) s"
  using books.inv_reachable[OF _ fleet_run_steps[OF assms(3)]] assms(1,2) by blast

lemma fleet_run_extends:
  assumes "fleet_run pf cli ls s s'" "fleet_inv (pf_deps pf) s"
  shows "extends s s'"
  using assms
proof (induction rule: fleet_run.induct)
  case (more l s s1 ls s2)
  then show ?case using extends_trans[OF extends_step[OF more.prems more.hyps(1)]] fleet_inv_step by blast
qed simp


section \<open>Properties\<close>

text \<open>C2. Every request is answered, however requests, health observations and reloads interleave:
  started with a validated configuration, no task ever crashes, and once a task has run as
  many pieces as \<open>task_cost\<close> bounds, it has its response, whatever the others did in between.
  The bound comes from the task's stage, its retry policy and its schedule alone.\<close>

theorem interleaved_requests_are_answered:
  assumes "serve pf cfg = Ok sv" "validate (dp_net (pf_deps pf)) (pf_url_parse pf) cfg = Ok ()"
    and "fleet_run pf cli_path before (fleet_of sv) s" "fleet_run pf cli_path ls s s'" "t < fl_next s"
  shows "fl_tasks s' t \<noteq> Crashed \<and>
    (task_cost s (fl_tasks s t) \<le> count_list ls (Some t) \<longrightarrow> (\<exists>resp. fl_tasks s' t = Finished resp))"
proof -
  have inv: "fleet_inv (pf_deps pf) s" using fleet_run_books[OF assms(1-3)] by (simp add: fleet_books_def)
  have inv': "fleet_inv (pf_deps pf) s'" by (rule fleet_run_inv[OF assms(4) inv])
  have "task_ok (pf_deps pf) s' t (fl_tasks s' t)" using inv' by (simp add: fleet_inv_def)
  then show ?thesis using run_cost[OF assms(4) inv assms(5)] no_cost_finished[OF inv'] by auto
qed

text \<open>C1. A request in flight keeps the snapshot it has loaded: through any interleaving with
  reloads, every request sent to an upstream was allowed by the routes, access lists,
  credentials and body limit of the version its task loaded; it is the request the handler
  builds for a target of that version's upstream; no task sends more often than that
  upstream's retry policy allows; and no step changes the configuration of a version.\<close>

theorem in_flight_requests_keep_their_snapshot:
  assumes "serve pf cfg = Ok sv" "validate (dp_net (pf_deps pf)) (pf_url_parse pf) cfg = Ok ()"
    and "fleet_run pf cli_path before (fleet_of sv) s" "fleet_run pf cli_path ls s s'"
  shows "extends s s' \<and>
    (\<forall>e \<in> set (fl_sent s'). allowed (pf_deps pf) (job_snapshot (ds_job e) s') (ds_job e) (ds_route e) \<and>
       (\<exists>u. job_upstream (ds_job e) (ds_route e) s' = Some u \<and>
          lawful (pf_deps pf) (ds_job e) (ds_route e) u (ds_target e) (ds_request e) \<and>
          sends (ds_task e) (fl_sent s') \<le> policy_attempts (up_retry u) (rq_method (jb_req (ds_job e)))))"
proof -
  have inv: "fleet_inv (pf_deps pf) s" using fleet_run_books[OF assms(1-3)] by (simp add: fleet_books_def)
  then have "\<forall>e \<in> set (fl_sent s'). entry_ok (pf_deps pf) s' e"
    using fleet_run_inv[OF assms(4)] by (simp add: fleet_inv_def)
  then show ?thesis using fleet_run_extends[OF assms(4) inv] unfolding entry_ok_def by blast
qed

text \<open>What a task refers to exists: its snapshot, its upstream and the target it looks at or sends to.\<close>

fun refers_ok :: "('h, 'n, 'u, 't) fleet \<Rightarrow> ('h, 'n, 'u) task \<Rightarrow> bool" where
  "refers_ok s (Admitting j) \<longleftrightarrow> jb_version j < length (fl_versions s)"
| "refers_ok s (Picking j route plan left) \<longleftrightarrow>
     (\<exists>u. job_upstream j route s = Some u \<and> up_wf u \<and> left \<le> length (up_schedule u))"
| "refers_ok s (Looking j route plan i left) \<longleftrightarrow>
     (\<exists>u. job_upstream j route s = Some u \<and> up_wf u \<and> i < length (up_targets u))"
| "refers_ok s (Sending j route plan i body rq) \<longleftrightarrow>
     (\<exists>u. job_upstream j route s = Some u \<and> up_wf u \<and> i < length (up_targets u))"
| "refers_ok s Crashed \<longleftrightarrow> False"
| "refers_ok s _ \<longleftrightarrow> True"

text \<open>C14. Well-formedness is kept by every interleaving: there is always a live snapshot, every snapshot
  ever stored has its schedules inside its targets, no task has crashed, and whatever a task
  holds on to (snapshot, upstream, target) exists.\<close>

theorem interleaved_state_stays_well_formed:
  assumes "serve pf cfg = Ok sv" "validate (dp_net (pf_deps pf)) (pf_url_parse pf) cfg = Ok ()"
    and "fleet_run pf cli_path ls (fleet_of sv) s"
  shows "fl_versions s \<noteq> [] \<and> (\<forall>snap \<in> set (fl_versions s). snapshot_wf snap) \<and>
    (\<forall>t. refers_ok s (fl_tasks s t)) \<and> (\<forall>t. fl_tasks s t = NotStarted \<longleftrightarrow> fl_next s \<le> t)"
proof -
  have inv: "fleet_inv (pf_deps pf) s" using fleet_run_books[OF assms] by (simp add: fleet_books_def)
  have eng: "job_upstream j route s = Some u \<and> up_wf u \<and> (\<forall>i \<in> set (up_schedule u). i < length (up_targets u))"
    if "engaged (pf_deps pf) s t j route plan u" for t j route plan u
    using engaged_wf[OF inv that] that by (simp add: engaged_def up_wf_def)
  have "refers_ok s (fl_tasks s t)" for t
  proof -
    have "task_ok (pf_deps pf) s t (fl_tasks s t)" using inv by (simp add: fleet_inv_def)
    then show ?thesis
      by (cases "fl_tasks s t") (auto simp: lawful_def dest!: eng)
  qed
  then show ?thesis using inv unfolding fleet_inv_def by (metis leI)
qed

text \<open>C15. Nothing is lost or counted twice under concurrency: at any moment of any interleaving the
  request counter has advanced by the requests that arrived, and as many durations have
  been observed as requests have been answered.\<close>

theorem interleaved_metrics_add_up:
  assumes "serve pf cfg = Ok sv" "validate (dp_net (pf_deps pf)) (pf_url_parse pf) cfg = Ok ()"
    and "fleet_run pf cli_path ls (fleet_of sv) s"
  shows "mx_requests_total (fl_metrics s) = mx_requests_total (gw_metrics (sv_gateway sv)) + of_nat (fl_next s) \<and>
    length (mx_request_duration (fl_metrics s)) =
      length (mx_request_duration (gw_metrics (sv_gateway sv))) + card (finished s) \<and>
    finished s \<subseteq> {..<fl_next s}"
  using fleet_run_books[OF assms] finished_bound by (auto simp: fleet_books_def counted_def)

text \<open>C13. What \<open>/config/effective\<close> shows is in force, except between the two stores of a reload: the
  live snapshot was always built from a validated configuration, whose text is the one
  shown or the one the running reload is about to store.\<close>

theorem shown_config_is_live:
  assumes "serve pf cfg = Ok sv" "validate (dp_net (pf_deps pf)) (pf_url_parse pf) cfg = Ok ()"
    and "fleet_run pf cli_path ls (fleet_of sv) s"
  shows "\<exists>cfg' wt snap. validate (dp_net (pf_deps pf)) (pf_url_parse pf) cfg' = Ok () \<and>
     build_snapshot_inner (dp_headers (pf_deps pf)) (dp_net (pf_deps pf)) (pf_method_from_bytes pf) (pf_acceptor pf) cfg' wt = Ok snap \<and>
     same_config snap (live s) \<and>
     pf_to_string_pretty pf cfg' = Ok (case fl_swap s of None \<Rightarrow> fl_effective s | Some rendered \<Rightarrow> rendered)"
  using fleet_run_books[OF assms] by (simp add: fleet_books_def displayed_def)


section \<open>Witnesses\<close>

lemma fleet_run_alone: "t < fl_next s \<Longrightarrow> fleet_run pf cli (replicate n (Some t)) s ((task_step (pf_deps pf) ev t ^^ n) s)"
proof (induction n arbitrary: s)
  case (Suc n)
  have "fleet_step pf cli (Some t) s (task_step (pf_deps pf) ev t s)" by (rule fleet_step.piece[OF Suc.prems])
  moreover have "fleet_run pf cli (replicate n (Some t)) (task_step (pf_deps pf) ev t s) ((task_step (pf_deps pf) ev t ^^ n) (task_step (pf_deps pf) ev t s))"
    using Suc.prems by (intro Suc.IH) (simp add: piece_frame)
  ultimately show ?case by (simp add: fleet_run.more funpow_swap1)
qed (simp add: fleet_run.stop)

definition example_service :: "(ip_addr \<times> nat, unit) service" where
  "example_service = projr (serve example_platform example_config)"

definition example_fleet :: "(header_list, ip_addr \<times> nat, string, unit) fleet" where
  "example_fleet = start_request example_deps (example_env [Answered example_answer]) (example_request []) ''web'' True
     example_client (fleet_of example_service)"

lemma example_service_serves: "serve example_platform example_config = Ok example_service"
  using example_serves by (auto simp: example_service_def)

lemma serve_metrics: "serve pf cfg = Ok sv \<Longrightarrow> pf_metrics_new pf = Ok (gw_metrics (sv_gateway sv))"
  by (auto simp: serve_def split: sum.splits)

lemma example_fleet_run: "fleet_run example_platform None [None] (fleet_of example_service) example_fleet"
proof -
  have "pf_deps example_platform = example_deps" by (simp add: example_platform_def)
  then show ?thesis unfolding example_fleet_def
    using fleet_run.more[OF fleet_step.arrive[of example_platform] fleet_run.stop] by metis
qed

lemma example_fleet_next: "0 < fl_next example_fleet"
  by (simp add: example_fleet_def start_request_def Let_def case_prod_unfold)

theorem interleaved_requests_are_answered_witness:
  "\<exists>s resp. fleet_run example_platform None (replicate (task_cost example_fleet (fl_tasks example_fleet 0)) (Some 0)) example_fleet s \<and>
     fl_tasks s 0 = Finished resp"
proof -
  let ?n = "task_cost example_fleet (fl_tasks example_fleet 0)"
  obtain s where run: "fleet_run example_platform None (replicate ?n (Some 0)) example_fleet s"
    using fleet_run_alone[OF example_fleet_next] by blast
  have "count_list (replicate n x) x = n" for n and x :: "nat option" by (induction n) simp_all
  then have "?n \<le> count_list (replicate ?n (Some 0)) (Some (0::nat))" by simp
  then show ?thesis
    using interleaved_requests_are_answered[OF example_service_serves example_platform_valid example_fleet_run run example_fleet_next] run
    by blast
qed

theorem in_flight_requests_keep_their_snapshot_witness:
  "\<exists>s e u. fleet_run example_platform None (replicate 4 (Some 0)) example_fleet s \<and> e \<in> set (fl_sent s) \<and>
     job_upstream (ds_job e) (ds_route e) s = Some u \<and> lawful example_deps (ds_job e) (ds_route e) u (ds_target e) (ds_request e)"
proof -
  let ?s = "(task_step example_deps (example_env [Answered example_answer]) 0 ^^ 4) example_fleet"
  have pf: "pf_deps example_platform = example_deps" by (simp add: example_platform_def)
  have run: "fleet_run example_platform None (replicate 4 (Some 0)) example_fleet ?s"
    using fleet_run_alone[OF example_fleet_next, of example_platform None 4] by (simp add: pf)
  have "length (fl_sent ?s) = 1" by code_simp
  then obtain e where "e \<in> set (fl_sent ?s)" by (cases "fl_sent ?s") auto
  then show ?thesis
    using in_flight_requests_keep_their_snapshot[OF example_service_serves example_platform_valid example_fleet_run run] run
    unfolding pf by blast
qed

theorem interleaved_state_stays_well_formed_witness:
  "fl_versions example_fleet \<noteq> [] \<and> refers_ok example_fleet (fl_tasks example_fleet 0) \<and> fl_tasks example_fleet 0 \<noteq> NotStarted"
  using interleaved_state_stays_well_formed[OF example_service_serves example_platform_valid example_fleet_run] example_fleet_next
  by auto

theorem interleaved_metrics_add_up_witness:
  "mx_requests_total (fl_metrics example_fleet) = 1 \<and> mx_request_duration (fl_metrics example_fleet) = []"
proof -
  have "gw_metrics (sv_gateway example_service) = Metrics_new"
    using serve_metrics[OF example_service_serves] by (simp add: example_platform_def)
  moreover have "fl_next example_fleet = 1" "finished example_fleet = {}"
    by (simp_all add: example_fleet_def start_request_def fleet_of_def finished_def Let_def case_prod_unfold)
  ultimately show ?thesis
    using interleaved_metrics_add_up[OF example_service_serves example_platform_valid example_fleet_run]
    by (simp add: Metrics_new_def)
qed

theorem shown_config_is_live_witness:
  "\<exists>cfg. validate (dp_net (pf_deps example_platform)) (pf_url_parse example_platform) cfg = Ok () \<and>
     pf_to_string_pretty example_platform cfg = Ok (fl_effective example_fleet)"
proof -
  have "fl_swap example_fleet = None" by (simp add: example_fleet_def start_request_def Let_def case_prod_unfold fleet_of_def)
  then show ?thesis
    using shown_config_is_live[OF example_service_serves example_platform_valid example_fleet_run] by auto
qed

end
