(* ===== verification/Undisturbed.thy ===== *)
theory Undisturbed
  imports Interleaving
begin

text \<open>
  The interleaved model and the sequential one agree: a request whose pieces run without
  anything in between does exactly what \<^const>\<open>handle\<close> does, response, sends and state.
\<close>

section \<open>Running one task\<close>

definition solo ::
  "('h, 'n, 'u) deps \<Rightarrow> 'h env \<Rightarrow> nat \<Rightarrow> ('h, 'n, 'u, 't) fleet \<Rightarrow> ('h, 'n, 'u, 't) fleet \<Rightarrow> bool" where
  "solo dp ev t s s' \<longleftrightarrow> (\<exists>m. (task_step dp ev t ^^ m) s = s')"

lemma solo_refl: "solo dp ev t s s"
  unfolding solo_def by (metis funpow_0)

lemma solo_trans: "solo dp ev t a b \<Longrightarrow> solo dp ev t b c \<Longrightarrow> solo dp ev t a c"
  unfolding solo_def by (metis comp_apply funpow_add)

lemma solo_step: "solo dp ev t s (task_step dp ev t s)"
  unfolding solo_def by (metis funpow_0 funpow_simps_right(2) comp_apply)

lemma solo_first: "solo dp ev t (task_step dp ev t s) s' \<Longrightarrow> solo dp ev t s s'"
  using solo_trans[OF solo_step] .


section \<open>Writing back\<close>

lemma update_triv: "map_of us n = Some u \<Longrightarrow> AList.update n u us = us"
  by (induction us) auto

lemma update_twice: "AList.update n v (AList.update n u us) = AList.update n v us"
  by (induction us) auto

lemma put_version_triv:
  assumes "job_upstream j route s = Some u"
  shows "put_version (jb_version j) (cr_upstream route) u s = s"
  using assms by (simp add: put_version_def put_upstream_def job_upstream_def job_snapshot_def update_triv)

lemma put_version_twice:
  assumes "v < length (fl_versions s)"
  shows "put_version v n u' (put_version v n u s) = put_version v n u' s"
  using assms by (simp add: put_version_def put_upstream_def update_twice)

lemma put_version_set_task: "put_version v n u (set_task t k s) = set_task t k (put_version v n u s)"
  by (simp add: put_version_def set_task_def)

lemma set_task_twice [simp]: "set_task t k (set_task t k' s) = set_task t k s"
  by (simp add: set_task_def)

lemma job_upstream_set_task [simp]: "job_upstream j route (set_task t k s) = job_upstream j route s"
  by (simp add: job_upstream_def job_snapshot_def)


section \<open>Picking a target\<close>

lemma pick_target_loop: "pick_target u = pick_loop (length (up_schedule u)) u"
  by (cases "up_schedule u") (simp_all add: pick_target_def)

text \<open>Where the pick loop takes a task, in terms of the sequential \<^const>\<open>pick_loop\<close>.\<close>

definition picked_task ::
  "('h, 'n, 'u) deps \<Rightarrow> 'h job \<Rightarrow> 'n CompiledRoute \<Rightarrow> 'h plan \<Rightarrow> pick \<times> UpstreamRuntime \<Rightarrow> ('h, 'n, 'u) task" where
  "picked_task dp j route plan r =
     (case fst r of
        Picked i \<Rightarrow> prepare_send dp j route (snd r) plan i
      | NoneHealthy \<Rightarrow> Closing j (Err NoHealthyUpstream)
      | IndexPanic \<Rightarrow> Crashed)"

lemma solo_pick:
  assumes "job_upstream j route s = Some u" "jb_version j < length (fl_versions s)"
  shows "solo dp ev t (set_task t (Picking j route plan left) s)
    (set_task t (picked_task dp j route plan (pick_loop left u))
       (put_version (jb_version j) (cr_upstream route) (snd (pick_loop left u)) s))"
  using assms
proof (induction left arbitrary: s u)
  case 0
  then show ?case
    by - (rule solo_first, simp add: task_step_def pick_task_turn_def picked_task_def put_version_triv solo_refl)
next
  case (Suc left)
  let ?i = "up_schedule u ! (unat (up_next u) mod length (up_schedule u))"
  let ?u = "u\<lparr>up_next := up_next u + 1\<rparr>"
  let ?s = "put_version (jb_version j) (cr_upstream route) ?u s"
  have up: "job_upstream j route ?s = Some ?u" by (rule put_version_job[OF Suc.prems])
  have one: "task_step dp ev t (set_task t (Picking j route plan (Suc left)) s) = set_task t (Looking j route plan ?i left) ?s"
    using Suc.prems(1) by (simp add: task_step_def pick_task_turn_def put_version_set_task)
  have two: "task_step dp ev t (set_task t (Looking j route plan ?i left) ?s) =
    (case get_at (up_targets u) ?i of None \<Rightarrow> set_task t Crashed ?s
     | Some tr \<Rightarrow> if is_healthy (tr_state tr) then set_task t (prepare_send dp j route ?u plan ?i) ?s
               else set_task t (Picking j route plan left) ?s)"
    using up by (simp add: task_step_def look_task_def split: option.split)
  have v: "jb_version j < length (fl_versions ?s)" using Suc.prems(2) by simp
  note IH = Suc.IH[OF up v, unfolded put_version_twice[OF Suc.prems(2)]]
  have "solo dp ev t (task_step dp ev t (set_task t (Looking j route plan ?i left) ?s))
    (set_task t (picked_task dp j route plan (pick_loop (Suc left) u))
       (put_version (jb_version j) (cr_upstream route) (snd (pick_loop (Suc left) u)) s))"
    unfolding two using IH by (auto simp: pick_iter_def Let_def picked_task_def solo_refl split: option.split)
  then show ?case using one solo_first by metis
qed

section \<open>The attempts\<close>

lemma after_send_frame:
  assumes "cx_policy cx = cx_policy cx'"
  shows "after_send cx is_last a i body le src \<lparr>as_up = u, as_metrics = m, as_sent = x\<rparr> =
    (case after_send cx' is_last a i body le src \<lparr>as_up = u, as_metrics = m, as_sent = y\<rparr> of
       Done r st \<Rightarrow> Done r (st\<lparr>as_sent := x\<rparr>)
     | Again le' src' st \<Rightarrow> Again le' src' (st\<lparr>as_sent := x\<rparr>))"
  using assms by (cases "at_result a") (simp_all add: after_send_def Let_def)

lemma finish_put_version:
  "finish dp (job_snapshot j (put_version v n u s)) route req r = finish dp (job_snapshot j s) route req r"
proof -
  have "sn_compression (job_snapshot j (put_version v n u s)) = sn_compression (job_snapshot j s)"
    by (cases "v < length (fl_versions s)")
      (auto simp: job_snapshot_def put_version_def put_upstream_def nth_list_update list_update_beyond not_less)
  then show ?thesis unfolding finish_def by (simp only:)
qed

lemma attempt_task_set_task:
  "attempt_task dp ev t j route u h n k le src i body rq (set_task t k' s) = attempt_task dp ev t j route u h n k le src i body rq s"
  by (simp add: attempt_task_def put_version_def set_task_def job_snapshot_def Let_def split: turn.split option.split)

text \<open>The state after some attempts, in terms of the sequential loop's.\<close>

definition settled ::
  "nat \<Rightarrow> 'h job \<Rightarrow> 'n CompiledRoute \<Rightarrow> UpstreamRuntime \<Rightarrow> Metrics \<Rightarrow> (nat \<times> ('h, 'u) upstream_request) list \<Rightarrow>
   ('h, 'n, 'u, 't) fleet \<Rightarrow> ('h, 'n, 'u, 't) fleet" where
  "settled t j route u m new s =
     put_version (jb_version j) (cr_upstream route) u
       (s\<lparr>fl_metrics := m, fl_sent := fl_sent s @ map (dispatch_entry t j route) new\<rparr>)"

lemma settled_none: "settled t j route u (fl_metrics s) [] s = put_version (jb_version j) (cr_upstream route) u s"
  by (simp add: settled_def put_version_def)

lemma settled_settled:
  assumes "jb_version j < length (fl_versions s)"
  shows "settled t j route u' m' new' (settled t j route u m new s) = settled t j route u' m' (new @ new') s"
    and "settled t j route u' m' new' (put_version (jb_version j) (cr_upstream route) u s) = settled t j route u' m' new' s"
  using assms by (simp_all add: settled_def put_version_def put_upstream_def update_twice)

lemma settled_simps [simp]:
  "fl_metrics (settled t j route u m new s) = m" "length (fl_versions (settled t j route u m new s)) = length (fl_versions s)"
  "fl_limiter (settled t j route u m new s) = fl_limiter s" "fl_ids (settled t j route u m new s) = fl_ids s"
  "fl_sent (settled t j route u m new s) = fl_sent s @ map (dispatch_entry t j route) new"
  "fl_next (settled t j route u m new s) = fl_next s"
  by (simp_all add: settled_def)

lemma settled_job:
  assumes "job_upstream j route s = Some u0" "jb_version j < length (fl_versions s)"
  shows "job_upstream j route (settled t j route u m new s) = Some u"
    "finish dp (job_snapshot j (settled t j route u m new s)) route req r = finish dp (job_snapshot j s) route req r"
  unfolding settled_def
  by (rule put_version_job) (use assms in \<open>simp_all add: job_upstream_def job_snapshot_def finish_put_version[unfolded job_snapshot_def]\<close>)

lemma attempt_task_turn:
  assumes "up_retry u = up_retry u0"
  shows "case after_send (forward_ctx dp ev route u0 (jb_req j) h) (n = 0) (ev_attempts ev k) i body le src
      \<lparr>as_up = u, as_metrics = fl_metrics s, as_sent = x @ [(i, rq)]\<rparr> of
      Done (Some r) st \<Rightarrow> attempt_task dp ev t j route u h n k le src i body rq s =
        set_task t (Closing j (finish dp (job_snapshot j s) route (jb_req j) r))
          (settled t j route (as_up st) (as_metrics st) [(i, rq)] s) \<and> as_sent st = x @ [(i, rq)]
    | Again le' src' st \<Rightarrow> attempt_task dp ev t j route u h n k le src i body rq s =
        set_task t (next_attempt j route (as_up st) h n (Suc k) le' src')
          (settled t j route (as_up st) (as_metrics st) [(i, rq)] s) \<and> as_sent st = x @ [(i, rq)]
    | _ \<Rightarrow> True"
proof -
  have "cx_policy (forward_ctx dp ev route u0 (jb_req j) h) = cx_policy (forward_ctx dp ev route u (jb_req j) h)"
    using assms by (simp add: forward_ctx_def)
  note fr = after_send_frame[OF this, where x = "x @ [(i, rq)]" and y = "[(i, rq)]" and is_last = "n = 0" and a = "ev_attempts ev k"
      and i = i and body = body and le = le and src = src and u = u and m = "fl_metrics s"]
  have sent: "as_sent st = [(i, rq)]"
    if "after_send (forward_ctx dp ev route u (jb_req j) h) (n = 0) (ev_attempts ev k) i body le src
      \<lparr>as_up = u, as_metrics = fl_metrics s, as_sent = [(i, rq)]\<rparr> = Done r st \<or>
      after_send (forward_ctx dp ev route u (jb_req j) h) (n = 0) (ev_attempts ev k) i body le src
      \<lparr>as_up = u, as_metrics = fl_metrics s, as_sent = [(i, rq)]\<rparr> = Again le' src' st" for r st le' src'
    using that by (cases "at_result (ev_attempts ev k)") (auto simp: after_send_def Let_def split: if_splits)
  show ?thesis
    using sent unfolding fr
    by (auto simp: attempt_task_def settled_def Let_def split: turn.split option.split)
qed

text \<open>What a turn of the sequential loop says of the task that runs it from \<open>start\<close> on.\<close>

definition turn_runs ::
  "('h, 'n, 'u) deps \<Rightarrow> 'h env \<Rightarrow> nat \<Rightarrow> 'h job \<Rightarrow> 'n CompiledRoute \<Rightarrow> 'h \<Rightarrow> nat \<Rightarrow> nat \<Rightarrow> UpstreamRuntime \<Rightarrow>
   (nat \<times> ('h, 'u) upstream_request) list \<Rightarrow> ('h, 'n, 'u, 't) fleet \<Rightarrow> ('h, 'n, 'u, 't) fleet \<Rightarrow> ('h, 'u) turn \<Rightarrow> bool" where
  "turn_runs dp ev t j route h n k u x s start turn \<longleftrightarrow>
     (case turn of
        Done None st \<Rightarrow> False
      | Done (Some r) st \<Rightarrow> (\<exists>new. as_sent st = x @ new \<and>
          solo dp ev t start
            (set_task t (Closing j (finish dp (job_snapshot j s) route (jb_req j) r)) (settled t j route (as_up st) (as_metrics st) new s)))
      | Again le src st \<Rightarrow> (\<exists>new. as_sent st = x @ new \<and> same_group u (as_up st) \<and>
          solo dp ev t start
            (set_task t (next_attempt j route (as_up st) h n (Suc k) le src) (settled t j route (as_up st) (as_metrics st) new s))))"

text \<open>A turn from the moment its request goes out.\<close>

lemma turn_runs_sent:
  assumes v: "jb_version j < length (fl_versions s)" and ret: "up_retry u' = up_retry u0"
    and grp: "same_group u u'" and i: "i < length (up_targets u')"
    and s'_def: "s' = put_version (jb_version j) (cr_upstream route) u' s" and up: "job_upstream j route s' = Some u'"
    and to: "solo dp ev t start (set_task t (Sending j route (Attempting h n k le src) i body rq) s')"
    and turn: "turn = after_send (forward_ctx dp ev route u0 (jb_req j) h) (n = 0) (ev_attempts ev k) i body le src
      \<lparr>as_up = u', as_metrics = fl_metrics s', as_sent = x @ [(i, rq)]\<rparr>"
  shows "turn_runs dp ev t j route h n k u x s start turn"
proof -
  let ?st = "\<lparr>as_up = u', as_metrics = fl_metrics s', as_sent = x @ [(i, rq)]\<rparr>"
  have "task_step dp ev t (set_task t (Sending j route (Attempting h n k le src) i body rq) s') =
      attempt_task dp ev t j route u' h n k le src i body rq s'"
    using up by (simp add: task_step_def send_task_def attempt_task_set_task)
  then have to1: "solo dp ev t start (attempt_task dp ev t j route u' h n k le src i body rq s')"
    using solo_trans[OF to solo_step] by simp
  note at = attempt_task_turn[OF ret, where dp = dp and ev = ev and route = route and j = j and h = h and n = n and k = k
      and i = i and body = body and le = le and src = src and s = s' and x = x and rq = rq and t = t, folded turn]
  show ?thesis
  proof (cases turn)
    case (Done r st)
    then obtain r' where "r = Some r'" using turn by (cases "at_result (ev_attempts ev k)") (auto simp: after_send_def Let_def split: if_splits)
    then show ?thesis using Done at to1 by (simp add: turn_runs_def s'_def settled_settled(2)[OF v] finish_put_version)
  next
    case (Again le' src2 st)
    then have "same_group u' (as_up st)"
      using after_send_cases[where st = ?st and cx = "forward_ctx dp ev route u0 (jb_req j) h" and k = k and is_last = "n = 0" and body = body
          and le = le and src = src and i = i and a = "ev_attempts ev k"] i turn by (simp add: forward_ctx_def)
    then show ?thesis using Again at to1 same_group_trans[OF grp] by (simp add: turn_runs_def s'_def settled_settled(2)[OF v])
  qed
qed

lemma solo_turn:
  assumes up: "job_upstream j route s = Some u" and v: "jb_version j < length (fl_versions s)"
    and ret: "up_retry u = up_retry u0" and wf: "up_wf u"
    and turn_def: "turn = attempt_turn (forward_ctx dp ev route u0 (jb_req j) h) (n = 0) k le src
      \<lparr>as_up = u, as_metrics = fl_metrics s, as_sent = x\<rparr>"
    and start_def: "start = set_task t (Picking j route (Attempting h n k le src) (length (up_schedule u))) s"
  shows "turn_runs dp ev t j route h n k u x s start turn"
proof -
  let ?cx = "forward_ctx dp ev route u0 (jb_req j) h"
  let ?plan = "Attempting h n k le src"
  obtain p u' where pick: "pick_loop (length (up_schedule u)) u = (p, u')" by (cases "pick_loop (length (up_schedule u)) u")
  then have pt: "pick_target u = (p, u')" by (simp add: pick_target_loop)
  have grp: "same_group u u'" using same_group_pick[OF wf] pt by simp
  let ?s = "put_version (jb_version j) (cr_upstream route) u' s"
  have to: "solo dp ev t start (set_task t (picked_task dp j route ?plan (p, u')) ?s)"
    using solo_pick[OF up v, of dp ev t ?plan "length (up_schedule u)"] by (simp add: start_def pick)
  obtain b src' where nb: "next_body src = (b, src')" by (cases "next_body src")
  let ?req = "\<lambda>i body. build_attempt_request (dp_uri dp) (rq_method (jb_req j)) (rq_version (jb_req j)) h
    (rewritten_path_and_query route (rq_path_and_query (jb_req j))) (tr_url (up_targets u' ! i)) body"
  note defs = picked_task_def prepare_send_def turn_def attempt_turn_def forward_ctx_def
  consider (ends) e where "picked_task dp j route ?plan (p, u') = Closing j (Err e)"
      "turn = Done (Some (Err e)) \<lparr>as_up = u', as_metrics = fl_metrics s, as_sent = x\<rparr>"
    | (sends) i body rq where "p = Picked i" "b = Some body" "?req i body = Some rq"
  proof (cases p)
    case IndexPanic
    then show thesis using pick_target_not_panic[OF wf] pt by simp
  next
    case NoneHealthy
    then show thesis using pt by (intro that(1)[of NoHealthyUpstream]) (auto simp: defs)
  next
    case (Picked i)
    then show thesis using pt nb that(1)[of le] that(1)[of BadGateway] that(2)[of i]
      by (cases b; cases "?req i (the b)") (auto simp: defs)
  qed
  then show ?thesis
  proof cases
    case (ends e)
    then show ?thesis using to by (simp add: turn_runs_def settled_none finish_def)
  next
    case (sends i body rq)
    have turn: "turn = after_send ?cx (n = 0) (ev_attempts ev k) i body le src'
        \<lparr>as_up = u', as_metrics = fl_metrics ?s, as_sent = x @ [(i, rq)]\<rparr>"
      using pt sends nb by (simp add: turn_def attempt_turn_def forward_ctx_def)
    have "picked_task dp j route ?plan (p, u') = Sending j route (Attempting h n k le src') i body rq"
      using sends nb by (simp add: defs)
    with to have to1: "solo dp ev t start (set_task t (Sending j route (Attempting h n k le src') i body rq) ?s)" by simp
    have "up_retry u' = up_retry u0" using grp ret by (simp add: same_group_def)
    moreover have "i < length (up_targets u')" using pick_target_Picked[OF wf] pt sends same_group_length[OF grp] by auto
    ultimately show ?thesis by (rule turn_runs_sent[OF v _ grp _ refl put_version_job[OF up v] to1 turn])
  qed
qed

lemma solo_attempts:
  assumes "job_upstream j route s = Some u" "jb_version j < length (fl_versions s)" "up_retry u = up_retry u0" "up_wf u"
    and "attempt_loop (forward_ctx dp ev route u0 (jb_req j) h) n k le src \<lparr>as_up = u, as_metrics = fl_metrics s, as_sent = x\<rparr> = (Some r, st)"
  shows "\<exists>new. as_sent st = x @ new \<and>
    solo dp ev t (set_task t (next_attempt j route u h n k le src) s)
      (set_task t (Closing j (finish dp (job_snapshot j s) route (jb_req j) r)) (settled t j route (as_up st) (as_metrics st) new s))"
  using assms
proof (induction n arbitrary: k le src s u x)
  case 0
  then show ?case
    by (intro exI[of _ "[]"]) (auto simp: next_attempt_def settled_none put_version_triv finish_def solo_refl)
next
  case (Suc n)
  note up = Suc.prems(1) and v = Suc.prems(2)
  note turn = solo_turn[OF Suc.prems(1-4) refl refl, where dp = dp and ev = ev and n = n and k = k and le = le and src = src and h = h and x = x and t = t]
  show ?case
  proof (cases "attempt_turn (forward_ctx dp ev route u0 (jb_req j) h) (n = 0) k le src \<lparr>as_up = u, as_metrics = fl_metrics s, as_sent = x\<rparr>")
    case (Done r' st')
    then show ?thesis using turn Suc.prems(5) by (simp add: next_attempt_def turn_runs_def)
  next
    case (Again le' src2 st1)
    with turn obtain new1 where n1: "as_sent st1 = x @ new1" "same_group u (as_up st1)"
      "solo dp ev t (set_task t (next_attempt j route u h (Suc n) k le src) s)
        (set_task t (next_attempt j route (as_up st1) h n (Suc k) le' src2) (settled t j route (as_up st1) (as_metrics st1) new1 s))"
      by (auto simp: next_attempt_def turn_runs_def)
    let ?s1 = "settled t j route (as_up st1) (as_metrics st1) new1 s"
    have loop: "attempt_loop (forward_ctx dp ev route u0 (jb_req j) h) n (Suc k) le' src2
        \<lparr>as_up = as_up st1, as_metrics = fl_metrics ?s1, as_sent = x @ new1\<rparr> = (Some r, st)"
      using Suc.prems(5) Again n1(1) by (cases st1) simp
    have "\<exists>new. as_sent st = (x @ new1) @ new \<and>
      solo dp ev t (set_task t (next_attempt j route (as_up st1) h n (Suc k) le' src2) ?s1)
        (set_task t (Closing j (finish dp (job_snapshot j ?s1) route (jb_req j) r)) (settled t j route (as_up st) (as_metrics st) new ?s1))"
      using n1(2) same_group_wf[OF n1(2) Suc.prems(4)] Suc.prems(3) v
      by (intro Suc.IH[OF settled_job(1)[OF up v] _ _ _ loop]) (simp_all add: same_group_def)
    then show ?thesis
      using solo_trans[OF n1(3)] by (auto simp: settled_job(2)[OF up v] settled_settled(1)[OF v])
  qed
qed


section \<open>From admission to the outcome\<close>

definition gateway_of :: "('h, 'n, 'u, 't) fleet \<Rightarrow> ('n, 't) gateway" where
  "gateway_of s =
     \<lparr>gw_snapshot = live s, gw_limiter = fl_limiter s, gw_metrics = fl_metrics s, gw_id_counter = fl_ids s\<rparr>"

lemma gateway_of_set_task [simp]: "gateway_of (set_task t k s) = gateway_of s"
  by (simp add: gateway_of_def live_def live_version_def)

text \<open>The state in which a task ends what \<open>forward\<close> or \<open>handle_upgrade\<close> does, given their result.\<close>

definition closes_with ::
  "nat \<Rightarrow> 'h job \<Rightarrow> ('h, 'n, 'u, 't) fleet \<Rightarrow> ('h forwarded, GatewayError) result \<Rightarrow> ('n, 't) gateway \<Rightarrow>
   (nat \<times> ('h, 'u) upstream_request) list \<Rightarrow> ('h, 'n, 'u, 't) fleet \<Rightarrow> bool" where
  "closes_with t j s r gw sent s' \<longleftrightarrow>
     fl_tasks s' t = Closing j r \<and> gateway_of s' = gw \<and> length (fl_versions s') = length (fl_versions s) \<and>
     (\<exists>new. fl_sent s' = fl_sent s @ new \<and> map (\<lambda>d. (ds_target d, ds_request d)) new = sent \<and> (\<forall>d \<in> set new. ds_task d = t))"

lemma closes_with_settled:
  assumes "jb_version j = live_version s" "fl_versions s \<noteq> []"
  shows "closes_with t j s r ((gateway_of s)\<lparr>gw_limiter := rl, gw_snapshot := put_upstream (cr_upstream route) u (live s), gw_metrics := m\<rparr>)
    sent (set_task t (Closing j r) (settled t j route u m sent (s\<lparr>fl_limiter := rl\<rparr>)))"
  using assms
  by (auto simp: closes_with_def settled_def gateway_of_def live_def live_version_def put_version_def dispatch_entry_def o_def
      intro!: exI[of _ "map (dispatch_entry t j route) sent"])


lemma admit_step:
  assumes "admit dp (job_snapshot j s) (fl_limiter s) (ev_now ev) (jb_listener j) (jb_req j) (jb_host j) (jb_ip j) = (a, rl)"
  shows "task_step dp ev t (set_task t (Admitting j) s) =
    set_task t (case a of Err e \<Rightarrow> Closing j (Err e) | Ok (route, u) \<Rightarrow> admitted_task dp (job_snapshot j s) j route u) (s\<lparr>fl_limiter := rl\<rparr>)"
  using assms by (simp add: task_step_def admit_task_def job_snapshot_def set_task_def split: sum.split)

text \<open>The task, run from its admission, ends what the sequential handler \<open>res\<close> does.\<close>

definition agrees ::
  "('h, 'n, 'u) deps \<Rightarrow> 'h env \<Rightarrow> nat \<Rightarrow> 'h job \<Rightarrow> ('h, 'n, 'u, 't) fleet \<Rightarrow>
   'h outcome \<times> ('n, 't) gateway \<times> (nat \<times> ('h, 'u) upstream_request) list \<Rightarrow> bool" where
  "agrees dp ev t j s res \<longleftrightarrow>
     (\<exists>r gw sent s'. res = (Returned r, gw, sent) \<and> solo dp ev t (set_task t (Admitting j) s) s' \<and> closes_with t j s r gw sent s')"

lemma agreesI:
  assumes "res = (Returned r, gw, sent)" "solo dp ev t (task_step dp ev t (set_task t (Admitting j) s)) s'" "closes_with t j s r gw sent s'"
  shows "agrees dp ev t j s res"
  using assms solo_first unfolding agrees_def by blast

lemma agrees_refused:
  assumes "res = (Returned (Err e), (gateway_of s)\<lparr>gw_limiter := rl\<rparr>, [])"
    and "task_step dp ev t (set_task t (Admitting j) s) = set_task t (Closing j (Err e)) (s\<lparr>fl_limiter := rl\<rparr>)"
  shows "agrees dp ev t j s res"
  using assms(1)
proof (rule agreesI)
  show "solo dp ev t (task_step dp ev t (set_task t (Admitting j) s)) (set_task t (Closing j (Err e)) (s\<lparr>fl_limiter := rl\<rparr>))"
    by (simp add: assms(2) solo_refl)
qed (simp add: closes_with_def gateway_of_def live_def live_version_def)

text \<open>The fields of the sequential state, and the first piece of a job on the live snapshot.\<close>

lemma gateway_of_simps [simp]:
  "gw_snapshot (gateway_of s) = live s" "gw_limiter (gateway_of s) = fl_limiter s" "gw_metrics (gateway_of s) = fl_metrics s"
  by (simp_all add: gateway_of_def)

lemma admission_cases [consumes 3, case_names refused passed]:
  assumes "jb_version j = live_version s" "fl_versions s \<noteq> []" "snapshot_wf (live s)"
  obtains e rl where "admit dp (live s) (fl_limiter s) (ev_now ev) (jb_listener j) (jb_req j) (jb_host j) (jb_ip j) = (Err e, rl)"
      "task_step dp ev t (set_task t (Admitting j) s) = set_task t (Closing j (Err e)) (s\<lparr>fl_limiter := rl\<rparr>)"
    | route u rl where "admit dp (live s) (fl_limiter s) (ev_now ev) (jb_listener j) (jb_req j) (jb_host j) (jb_ip j) = (Ok (route, u), rl)"
      "task_step dp ev t (set_task t (Admitting j) s) = set_task t (admitted_task dp (live s) j route u) (s\<lparr>fl_limiter := rl\<rparr>)"
      "job_upstream j route (s\<lparr>fl_limiter := rl\<rparr>) = Some u" "jb_version j < length (fl_versions (s\<lparr>fl_limiter := rl\<rparr>))" "up_wf u"
proof (cases "admit dp (live s) (fl_limiter s) (ev_now ev) (jb_listener j) (jb_req j) (jb_host j) (jb_ip j)")
  case (Pair a rl)
  have snap: "job_snapshot j s = live s" using assms by (simp add: job_snapshot_def live_def)
  note step = admit_step[of dp j s ev, unfolded snap, OF Pair]
  show thesis
  proof (cases a)
    case (Inl e)
    then show thesis using Pair step by (intro that(1)) simp_all
  next
    case (Inr ru)
    then obtain route u where adm: "admit dp (live s) (fl_limiter s) (ev_now ev) (jb_listener j) (jb_req j) (jb_host j) (jb_ip j) = (Ok (route, u), rl)"
      "a = Ok (route, u)" using Pair by (cases ru) simp
    have "map_of (sn_upstreams (live s)) (cr_upstream route) = Some u" "up_wf u"
      using admit_passes[OF adm(1)] passes_wf[OF assms(3) admit_passes[OF adm(1)]] by (simp_all add: passes_def)
    with adm step assms show thesis
      by (intro that(2)) (auto simp: job_upstream_def job_snapshot_def live_def live_version_def)
  qed
qed

lemma forward_agrees:
  assumes live: "jb_version j = live_version s" "fl_versions s \<noteq> []" "snapshot_wf (live s)"
    and plain: "\<not> is_upgrade (dp_headers dp) (jb_req j)"
  shows "agrees dp ev t j s
    (forward dp ev (gateway_of s) (jb_listener j) (jb_req j) (jb_host j) (jb_scheme j) (jb_remote j) (jb_ip j) (jb_id j))"
  using live
proof (cases rule: admission_cases[where dp = dp and ev = ev and t = t])
  case (refused e rl)
  then show ?thesis by (intro agrees_refused[OF forward_Err]) simp_all
next
  case (passed route u rl)
  let ?api = "dp_headers dp" and ?req = "jb_req j" and ?gw = "gateway_of s" and ?s = "s\<lparr>fl_limiter := rl\<rparr>"
  show ?thesis
  proof (cases "body_exceeds_limit ?api (rq_headers ?req) (sn_max_body_bytes (live s))")
    case True
    then show ?thesis using passed(1,2) plain by (intro agrees_refused[OF forward_oversize]) (simp_all add: admitted_task_def)
  next
    case False
    let ?h = "forward_headers ?api route ?req (jb_host j) (jb_scheme j) (jb_remote j) (jb_id j)"
    let ?rep = "replayable_body ?api u (rq_method ?req) ?h"
    let ?src = "prepare_body_source (dp_collect dp) (rq_body ?req) ?rep (sn_max_body_bytes (live s))"
    have snap: "job_snapshot j ?s = live s" using live by (simp add: job_snapshot_def live_def)
    obtain r st where loop: "attempt_loop (forward_ctx dp ev route u ?req ?h) (attempt_limit u ?rep) 0 NoHealthyUpstream ?src
        \<lparr>as_up = u, as_metrics = fl_metrics ?s, as_sent = []\<rparr> = (Some r, st)"
      using attempt_loop_run[of "\<lparr>as_up = u, as_metrics = fl_metrics ?s, as_sent = []\<rparr>" NoHealthyUpstream] passed(5) by fastforce
    have fwd: "forward dp ev ?gw (jb_listener j) ?req (jb_host j) (jb_scheme j) (jb_remote j) (jb_ip j) (jb_id j) =
        (Returned (finish dp (live s) route ?req r),
         ?gw\<lparr>gw_limiter := rl, gw_snapshot := put_upstream (cr_upstream route) (as_up st) (live s), gw_metrics := as_metrics st\<rparr>, as_sent st)"
      using forward_attempts_unfold[where gw = ?gw and dp = dp and ev = ev, OF _ _ refl refl] passed(1) False loop by simp
    have "solo dp ev t (set_task t (next_attempt j route u ?h (attempt_limit u ?rep) 0 NoHealthyUpstream ?src) ?s)
        (set_task t (Closing j (finish dp (live s) route ?req r)) (settled t j route (as_up st) (as_metrics st) (as_sent st) ?s))"
      using solo_attempts[OF passed(3,4) refl passed(5) loop, of t] by (auto simp: snap)
    then show ?thesis
      using plain False by (intro agreesI[OF fwd _ closes_with_settled[OF live(1,2)]]) (simp add: passed(2) admitted_task_def Let_def)
  qed
qed

lemma solo_upgrade:
  assumes "job_upstream j route s = Some u" "jb_version j < length (fl_versions s)" "pick_target u = (p, v)"
  shows "solo dp ev t (set_task t (Picking j route Upgrading (length (up_schedule u))) s)
    (set_task t (picked_task dp j route Upgrading (p, v)) (settled t j route v (fl_metrics s) [] s))"
  using solo_pick[OF assms(1,2), of dp ev t Upgrading "length (up_schedule u)"] assms(3)
  by (simp add: pick_target_loop settled_none)

text \<open>How an upgrade ends once its request is ready: result, upstream, metrics and what went out.\<close>

definition upgrade_end ::
  "'h env \<Rightarrow> 'n CompiledRoute \<Rightarrow> UpstreamRuntime \<Rightarrow> nat \<Rightarrow> ('h, 'u) upstream_request \<Rightarrow> Metrics \<Rightarrow>
   ('h forwarded, GatewayError) result \<times> UpstreamRuntime \<times> Metrics \<times> (nat \<times> ('h, 'u) upstream_request) list" where
  "upgrade_end ev route v i rq m =
     (let ug = ev_upgrade ev; seen = (\<lambda>ok. observe_target (ug_now_ms ug) i ok v)
      in if \<not> ug_connects ug \<or> \<not> ug_handshakes ug then (Err UpstreamConnect, seen False, m, [])
         else case ug_answer ug of
                None \<Rightarrow> (Err UpstreamConnect, seen False, m, [(i, rq)])
              | Some r \<Rightarrow>
                  if res_status r = 101
                  then (Ok (Forwarded \<lparr>res_status = 101, res_headers = res_headers r, res_body = []\<rparr> (cr_name route) (cr_upstream route)),
                        seen True, inc_websocket m, [(i, rq)])
                  else (Ok (Forwarded r (cr_name route) (cr_upstream route)), seen (res_status r < 500), m, [(i, rq)]))"

lemma upgrade_task_settled:
  assumes "jb_version j < length (fl_versions s)" "upgrade_end ev route v i rq (fl_metrics s) = (r, u', m, sent)"
  shows "upgrade_task ev t j route v i rq (set_task t k (settled t j route v (fl_metrics s) [] s)) =
    set_task t (Closing j r) (settled t j route u' m sent s)"
  using assms
  by (auto simp: upgrade_end_def upgrade_task_def logged_def settled_def Let_def put_version_def put_upstream_def update_twice
      set_task_def split: option.splits if_splits)

text \<open>\<^const>\<open>handle_upgrade\<close> with an admitted request, in the same terms.\<close>

lemma handle_upgrade_admitted:
  assumes adm: "admit dp (gw_snapshot gw) (gw_limiter gw) (ev_now ev) lname req host ip = (Ok (route, u), rl)"
    and pick: "pick_target u = (p, v)"
    and res: "res = (\<lambda>r u' m sent. (Returned r, gw\<lparr>gw_limiter := rl, gw_snapshot := put_upstream (cr_upstream route) u' (gw_snapshot gw),
                gw_metrics := m\<rparr>, sent))"
    and pq: "pq = rewritten_path_and_query route (rq_path_and_query req)"
  shows "p = NoneHealthy \<Longrightarrow> handle_upgrade dp ev gw lname req host scheme remote ip rid = res (Err NoHealthyUpstream) v (gw_metrics gw) []"
    and "p = Picked i \<Longrightarrow> handle_upgrade dp ev gw lname req host scheme remote ip rid =
      (case parse_authority (dp_uri dp) (tr_url (up_targets v ! i)) of
         None \<Rightarrow> res (Err BadGateway) v (gw_metrics gw) []
       | Some (h, pt) \<Rightarrow>
           (case build_upgrade_request dp req pq (h @ '':'' @ dec_of_nat (unat pt)) host scheme remote rid of
              None \<Rightarrow> res (Err BadGateway) v (gw_metrics gw) []
            | Some rq \<Rightarrow> (case upgrade_end ev route v i rq (gw_metrics gw) of (r, u', m, sent) \<Rightarrow> res r u' m sent)))"
  using assms by (simp_all add: handle_upgrade_def upgrade_end_def Let_def split: option.split)

lemma upgrade_agrees:
  assumes live: "jb_version j = live_version s" "fl_versions s \<noteq> []" "snapshot_wf (live s)"
    and up: "is_upgrade (dp_headers dp) (jb_req j)"
  shows "agrees dp ev t j s
    (handle_upgrade dp ev (gateway_of s) (jb_listener j) (jb_req j) (jb_host j) (jb_scheme j) (jb_remote j) (jb_ip j) (jb_id j))"
    (is "agrees _ _ _ _ _ ?res")
  using live
proof (cases rule: admission_cases[where dp = dp and ev = ev and t = t])
  case (refused e rl)
  then show ?thesis by (intro agrees_refused) (simp_all add: handle_upgrade_def)
next
  case (passed route u rl)
  obtain p v where pick: "pick_target u = (p, v)" by (cases "pick_target u")
  let ?task = "set_task t (picked_task dp j route Upgrading (p, v)) (settled t j route v (fl_metrics s) [] (s\<lparr>fl_limiter := rl\<rparr>))"
  have to: "solo dp ev t (task_step dp ev t (set_task t (Admitting j) s)) ?task"
    using solo_upgrade[OF passed(3,4) pick, of dp ev t] up by (simp add: passed(2) admitted_task_def)
  note ends = agreesI[OF _ solo_trans[OF to] closes_with_settled[OF live(1,2), where rl = rl and route = route]]
  note upgrade = handle_upgrade_admitted[where gw = "gateway_of s", unfolded gateway_of_simps, OF passed(1) pick refl refl]
  show ?thesis
  proof (cases p)
    case IndexPanic
    then show ?thesis using pick_target_not_panic[OF passed(5)] pick by simp
  next
    case NoneHealthy
    then show ?thesis by - (rule ends[OF upgrade(1)], assumption, simp add: picked_task_def solo_refl)
  next
    case (Picked i)
    let ?url = "tr_url (up_targets v ! i)"
    let ?rq = "\<lambda>(h, pt). build_upgrade_request dp (jb_req j) (rewritten_path_and_query route (rq_path_and_query (jb_req j)))
      (h @ '':'' @ dec_of_nat (unat pt)) (jb_host j) (jb_scheme j) (jb_remote j) (jb_id j)"
    let ?gw = "\<lambda>u m. (gateway_of s)\<lparr>gw_limiter := rl, gw_snapshot := put_upstream (cr_upstream route) u (live s), gw_metrics := m\<rparr>"
    note task = picked_task_def prepare_send_def Let_def
    show ?thesis
    proof (cases "Option.bind (parse_authority (dp_uri dp) ?url) ?rq")
      case None
      then have bad: "picked_task dp j route Upgrading (p, v) = Closing j (Err BadGateway)" "?res = (Returned (Err BadGateway), ?gw v (fl_metrics s), [])"
        using Picked by (cases "parse_authority (dp_uri dp) ?url"; auto simp: task upgrade(2)[OF Picked])+
      from bad(2) show ?thesis by (rule ends) (simp add: bad(1) solo_refl)
    next
      case (Some rq)
      then obtain h pt where au: "parse_authority (dp_uri dp) ?url = Some (h, pt)" and rq: "?rq (h, pt) = Some rq"
        by (auto simp: bind_eq_Some_conv)
      obtain r u' m sent where e: "upgrade_end ev route v i rq (fl_metrics s) = (r, u', m, sent)"
        by (cases "upgrade_end ev route v i rq (fl_metrics s)")
      have "task_step dp ev t ?task = set_task t (Closing j r) (settled t j route u' m sent (s\<lparr>fl_limiter := rl\<rparr>))"
        using Picked au rq e settled_job(1)[OF passed(3,4), of t v "fl_metrics s" "[]"]
          upgrade_task_settled[OF passed(4), of ev route v i rq r u' m sent t]
        by (simp add: task task_step_def send_task_def)
      moreover have "?res = (Returned r, ?gw u' m, sent)" using au rq e by (simp add: upgrade(2)[OF Picked])
      ultimately show ?thesis using solo_step[of dp ev t ?task] by (intro ends) simp_all
    qed
  qed
qed


section \<open>The whole request\<close>

lemma undisturbed:
  assumes "fl_versions s \<noteq> []" "snapshot_wf (live s)" "t = fl_next s"
  shows "\<exists>resp s' new. solo dp ev t (start_request dp ev req lname is_tls remote s) s' \<and>
    handle dp ev (gateway_of s) req lname is_tls remote = (Some resp, gateway_of s', map (\<lambda>d. (ds_target d, ds_request d)) new) \<and>
    fl_tasks s' t = Finished resp \<and> fl_sent s' = fl_sent s @ new \<and> (\<forall>d \<in> set new. ds_task d = t)"
proof -
  obtain rid ids where ids: "ensure_request_id (dp_headers dp) req (ev_wall_nanos ev) (fl_ids s) = (rid, ids)"
    by (cases "ensure_request_id (dp_headers dp) req (ev_wall_nanos ev) (fl_ids s)")
  define s0 where "s0 = s\<lparr>fl_ids := ids, fl_metrics := inc_requests (fl_metrics s), fl_next := Suc (fl_next s)\<rparr>"
  define j where "j = \<lparr>jb_req = req, jb_listener = lname, jb_scheme = (if is_tls then ''https'' else ''http''),
    jb_remote = remote, jb_version = live_version s, jb_host = request_host (dp_headers dp) req,
    jb_ip = client_of dp (live s) req remote, jb_id = rid\<rparr>"
  have start: "start_request dp ev req lname is_tls remote s = set_task t (Admitting j) s0"
    using ids assms(3) by (simp add: start_request_def s0_def j_def)
  have live: "live_version s0 = live_version s" "live s0 = live s" "fl_versions s0 \<noteq> []"
    using assms(1) by (simp_all add: s0_def live_version_def live_def)
  have "agrees dp ev t j s0 (dispatch dp ev (gateway_of s) req lname is_tls remote)"
    using forward_agrees[of j s0 dp ev t] upgrade_agrees[of j s0 dp ev t] live assms(2) ids
    by (cases is_tls; cases "is_upgrade (dp_headers dp) req") (simp_all add: dispatch_def gateway_of_def j_def s0_def)
  then obtain r gw sent s1 where s1: "dispatch dp ev (gateway_of s) req lname is_tls remote = (Returned r, gw, sent)"
    "solo dp ev t (set_task t (Admitting j) s0) s1" "closes_with t j s0 r gw sent s1"
    unfolding agrees_def by blast
  then obtain new where new: "fl_tasks s1 t = Closing j r" "gateway_of s1 = gw" "fl_sent s1 = fl_sent s @ new"
    "map (\<lambda>d. (ds_target d, ds_request d)) new = sent" "\<forall>d \<in> set new. ds_task d = t"
    by (auto simp: closes_with_def s0_def)
  have close: "task_step dp ev t s1 = close_task dp ev t j r s1" using new(1) by (simp add: task_step_def)
  have "solo dp ev t (start_request dp ev req lname is_tls remote s) (close_task dp ev t j r s1)"
    using solo_trans[OF s1(2) solo_step] by (simp add: start close)
  moreover have "handle dp ev (gateway_of s) req lname is_tls remote =
      (Some (reply (dp_headers dp) rid r), gateway_of (close_task dp ev t j r s1), map (\<lambda>d. (ds_target d, ds_request d)) new)"
    using handle_dispatch[OF s1(1)] ids new(2,4)
    by (auto simp: gateway_of_def close_task_def live_def live_version_def)
  ultimately show ?thesis using new(3,5)
    by (intro exI[of _ "reply (dp_headers dp) rid r"] exI[of _ "close_task dp ev t j r s1"] exI[of _ new])
      (simp add: close_task_def j_def)
qed


lemma task_step_finished:
  assumes "(task_step dp ev t ^^ m) s = s'" "fl_tasks s' t = Finished resp" "m \<le> n"
  shows "(task_step dp ev t ^^ n) s = s'"
  using assms(3)
proof (induction n rule: dec_induct)
  case base
  show ?case by (rule assms(1))
next
  case (step k)
  then show ?case using assms(2) by (simp add: task_step_def)
qed

text \<open>C3. The sequential handler is the specification of the interleaved one. Take any state that an
  interleaving of requests, observations, admin requests and reloads reaches, let a request
  arrive there and run its pieces with nothing in between: the task is done after finitely
  many pieces, with the response that \<^const>\<open>handle\<close> returns for the same request, listener,
  kind of connection, peer and environment; it has sent the requests \<^const>\<open>handle\<close> sends to
  the same targets, and snapshot, limiter, metrics and identifier counter are as
  \<^const>\<open>handle\<close> leaves them.\<close>

theorem undisturbed_request_is_handle:
  assumes "serve pf cfg = Ok sv" "validate (dp_net (pf_deps pf)) (pf_url_parse pf) cfg = Ok ()"
    and "fleet_run pf cli_path before (fleet_of sv) s"
  shows "\<exists>m s' resp new.
    (\<forall>n \<ge> m. (task_step (pf_deps pf) ev (fl_next s) ^^ n) (start_request (pf_deps pf) ev req lname is_tls remote s) = s') \<and>
    fleet_run pf cli_path (None # replicate m (Some (fl_next s))) s s' \<and>
    handle (pf_deps pf) ev (gateway_of s) req lname is_tls remote =
      (Some resp, gateway_of s', map (\<lambda>d. (ds_target d, ds_request d)) new) \<and>
    fl_tasks s' (fl_next s) = Finished resp \<and> fl_sent s' = fl_sent s @ new"
proof -
  let ?start = "start_request (pf_deps pf) ev req lname is_tls remote s"
  have inv: "fleet_inv (pf_deps pf) s" using fleet_run_books[OF assms] by (simp add: fleet_books_def)
  then have "fl_versions s \<noteq> []" "snapshot_wf (live s)"
    by (simp_all add: fleet_inv_def live_def live_version_def)
  from undisturbed[OF this refl, of "pf_deps pf" ev req lname is_tls remote]
  obtain resp s' new m where u: "(task_step (pf_deps pf) ev (fl_next s) ^^ m) ?start = s'"
    "handle (pf_deps pf) ev (gateway_of s) req lname is_tls remote =
      (Some resp, gateway_of s', map (\<lambda>d. (ds_target d, ds_request d)) new)"
    "fl_tasks s' (fl_next s) = Finished resp" "fl_sent s' = fl_sent s @ new"
    unfolding solo_def by blast
  have "fl_next s < fl_next ?start"
    by (simp add: start_request_def Let_def case_prod_unfold)
  then have "fleet_run pf cli_path (replicate m (Some (fl_next s))) ?start s'"
    using fleet_run_alone[where t = "fl_next s" and s = ?start] u(1) by blast
  then have "fleet_run pf cli_path (None # replicate m (Some (fl_next s))) s s'"
    using fleet_run.more[OF fleet_step.arrive] by blast
  then show ?thesis using u(2-4) task_step_finished[OF u(1,3)] by blast
qed

theorem undisturbed_request_is_handle_witness:
  "\<exists>m s resp.
     (\<forall>n \<ge> m. (task_step example_deps (example_env [Answered example_answer]) 1 ^^ n)
        (start_request example_deps (example_env [Answered example_answer]) (example_request []) ''web'' True example_client
           example_fleet) = s) \<and>
     fl_tasks s 1 = Finished resp \<and>
     fst (handle example_deps (example_env [Answered example_answer]) (gateway_of example_fleet) (example_request []) ''web'' True
       example_client) = Some resp"
proof -
  have n: "fl_next example_fleet = 1"
    by (simp add: example_fleet_def start_request_def fleet_of_def Let_def case_prod_unfold)
  have pf: "pf_deps example_platform = example_deps" by (simp add: example_platform_def)
  show ?thesis
    using undisturbed_request_is_handle[OF example_service_serves example_platform_valid example_fleet_run,
        of "example_env [Answered example_answer]" "example_request []" "''web''" True example_client]
    unfolding n pf by fastforce
qed

end
