(* ===== verification/Server.thy ===== *)
theory Server
  imports Snapshot
begin

text \<open>
  The servers (\<open>gatepup-proxy/src/server.rs\<close>, \<open>serve\<close> of \<open>gatepup-admin/src/lib.rs\<close>): binding the
  listeners, and the life of one accept loop with its connections as a timed state machine.
  Sockets, TLS handshakes and \<open>hyper\<close> connections are the environment: a handshake may succeed
  or fail, a connection may finish at any time. What the code adds are the deadlines, the
  graceful shutdown and the drain.
\<close>

section \<open>Startup\<close>

definition DRAIN_TIMEOUT :: duration where
  "DRAIN_TIMEOUT = from_secs 15"

definition HANDSHAKE_TIMEOUT :: duration where
  "HANDSHAKE_TIMEOUT = from_secs 10"

definition ADMIN_DRAIN_TIMEOUT :: duration where
  "ADMIN_DRAIN_TIMEOUT = from_secs 10"

record ConnLimits =
  cl_header_read_timeout :: "duration option"
  cl_max_header_bytes :: "usize option"

definition conn_limits :: "('n, 't) RuntimeConfig \<Rightarrow> ConnLimits" where
  "conn_limits snap = \<lparr>cl_header_read_timeout = sn_header_read_timeout snap, cl_max_header_bytes = sn_max_header_bytes snap\<rparr>"

record 't bound_listener =
  bl_name :: string
  bl_bind :: socket_addr
  bl_tls :: "'t option"
  bl_limits :: ConnLimits

text \<open>
  Listeners are bound one by one, and the accept loop of each is spawned before the next is
  bound: the loops spawned so far are returned beside the result. Binding is the operating
  system's, which knows the addresses bound before.
\<close>

definition spawn_listener :: "ConnLimits \<Rightarrow> ('n, 't) ListenerRuntime \<Rightarrow> 't bound_listener" where
  "spawn_listener limits l = \<lparr>bl_name = lr_name l, bl_bind = lr_bind l, bl_tls = lr_tls l, bl_limits = limits\<rparr>"

fun bind_listeners ::
  "(socket_addr list \<Rightarrow> socket_addr \<Rightarrow> (unit, string) result) \<Rightarrow> ConnLimits \<Rightarrow> socket_addr list \<Rightarrow>
   ('n, 't) ListenerRuntime list \<Rightarrow> 't bound_listener list \<times> (unit, ProxyError) result" where
  "bind_listeners bind_tcp limits bound [] = ([], Ok ())"
| "bind_listeners bind_tcp limits bound (l # ls) =
     (case bind_tcp bound (lr_bind l) of
        Err source \<Rightarrow> ([], Err (ProxyBind (lr_name l) (lr_bind l) source))
      | Ok _ \<Rightarrow>
          (let (bs, r) = bind_listeners bind_tcp limits (bound @ [lr_bind l]) ls in (spawn_listener limits l # bs, r)))"

definition serve_shared ::
  "(duration \<Rightarrow> ('c, ProxyError) result) \<Rightarrow> (socket_addr list \<Rightarrow> socket_addr \<Rightarrow> (unit, string) result) \<Rightarrow>
   ('n, 't) RuntimeConfig \<Rightarrow> 't bound_listener list \<times> (unit, ProxyError) result" where
  "serve_shared build_client bind_tcp snap =
     (case build_client (sn_connect_timeout snap) of
        Err e \<Rightarrow> ([], Err e)
      | Ok _ \<Rightarrow> bind_listeners bind_tcp (conn_limits snap) [] (sn_listeners snap))"

text \<open>\<open>serve\<close> wraps a snapshot nothing will replace; \<open>run\<close> builds the metrics first.\<close>

definition serve_fixed where
  "serve_fixed build_client bind_tcp snap = serve_shared build_client bind_tcp snap"

definition run_proxy ::
  "('m, string) result \<Rightarrow> (duration \<Rightarrow> ('c, ProxyError) result) \<Rightarrow>
   (socket_addr list \<Rightarrow> socket_addr \<Rightarrow> (unit, string) result) \<Rightarrow> ('n, 't) RuntimeConfig \<Rightarrow>
   't bound_listener list \<times> (unit, ProxyError) result" where
  "run_proxy metrics_new build_client bind_tcp snap =
     (case metrics_new of
        Err e \<Rightarrow> ([], Err (ProxyMetrics e))
      | Ok _ \<Rightarrow> serve_fixed build_client bind_tcp snap)"


section \<open>Connection setup\<close>

text \<open>The calls \<open>serve_connection\<close> makes on \<open>http1::Builder\<close>.\<close>

datatype builder_call = SetTimer | SetHeaderReadTimeout duration | SetMaxBufSize usize

definition conn_setup :: "ConnLimits \<Rightarrow> builder_call list" where
  "conn_setup limits =
     (case cl_header_read_timeout limits of Some timeout \<Rightarrow> [SetTimer, SetHeaderReadTimeout timeout] | None \<Rightarrow> []) @
     (case cl_max_header_bytes limits of Some mx \<Rightarrow> [SetMaxBufSize mx] | None \<Rightarrow> [])"

text \<open>
  What \<open>hyper\<close> documents of these calls: it panics on a header timeout without a timer and on a
  buffer under 8192 bytes.
\<close>

definition builder_accepts :: "builder_call list \<Rightarrow> bool" where
  "builder_accepts calls \<longleftrightarrow>
     list_all (\<lambda>c. case c of
         SetTimer \<Rightarrow> True
       | SetHeaderReadTimeout _ \<Rightarrow> SetTimer \<in> set calls
       | SetMaxBufSize n \<Rightarrow> 8192 \<le> unat n) calls"


section \<open>One accept loop\<close>

datatype conn_phase =
    Handshaking duration   \<comment> \<open>since\<close>
  | Serving
  | Closing                \<comment> \<open>\<open>graceful_shutdown\<close> was called\<close>

datatype loop_phase = Accepting | Draining duration | Closed

record accept_state =
  ac_now :: duration
  ac_phase :: loop_phase
  ac_shutdown :: bool
  ac_conns :: "(nat \<times> conn_phase) list"
  ac_next :: nat

definition accept_start :: "duration \<Rightarrow> accept_state" where
  "accept_start now = \<lparr>ac_now = now, ac_phase = Accepting, ac_shutdown = False, ac_conns = [], ac_next = 0\<rparr>"

text \<open>
  The loops differ in their drain timeout, in whether connections start with a TLS handshake,
  and in who drains them: a proxy connection watches the shutdown signal itself and is aborted
  when the drain times out; an admin connection is told by \<open>GracefulShutdown\<close> once the loop has
  stopped, and is left alone when the drain times out.
\<close>

record loop_kind =
  lk_drain :: duration
  lk_tls :: bool
  lk_own_drain :: bool

definition proxy_loop :: "bool \<Rightarrow> loop_kind" where
  "proxy_loop is_tls = \<lparr>lk_drain = DRAIN_TIMEOUT, lk_tls = is_tls, lk_own_drain = True\<rparr>"

definition admin_loop :: loop_kind where
  "admin_loop = \<lparr>lk_drain = ADMIN_DRAIN_TIMEOUT, lk_tls = False, lk_own_drain = False\<rparr>"

text \<open>A connection is spawned, in its handshake where there is one.\<close>

definition accept_conn :: "bool \<Rightarrow> accept_state \<Rightarrow> accept_state" where
  "accept_conn is_tls s =
     s\<lparr>ac_conns := ac_conns s @ [(ac_next s, if is_tls then Handshaking (ac_now s) else Serving)],
       ac_next := Suc (ac_next s)\<rparr>"

definition conn_gone :: "nat \<Rightarrow> accept_state \<Rightarrow> accept_state" where
  "conn_gone c s = s\<lparr>ac_conns := filter (\<lambda>(c', _). c' \<noteq> c) (ac_conns s)\<rparr>"

definition conn_becomes :: "nat \<Rightarrow> conn_phase \<Rightarrow> accept_state \<Rightarrow> accept_state" where
  "conn_becomes c ph s = s\<lparr>ac_conns := map (\<lambda>(c', ph'). (c', if c' = c then ph else ph')) (ac_conns s)\<rparr>"

text \<open>The timers that bound how far time may run before something has to happen.\<close>

definition may_wait :: "loop_kind \<Rightarrow> duration \<Rightarrow> accept_state \<Rightarrow> bool" where
  "may_wait k d s \<longleftrightarrow>
     (case ac_phase s of Draining since \<Rightarrow> ac_now s + d \<le> since + lk_drain k | _ \<Rightarrow> True) \<and>
     list_all (\<lambda>(_, ph). case ph of Handshaking since \<Rightarrow> ac_now s + d \<le> since + HANDSHAKE_TIMEOUT | _ \<Rightarrow> True) (ac_conns s)"

text \<open>The steps of a loop and its connections, which take no time.\<close>

inductive loop_step :: "loop_kind \<Rightarrow> accept_state \<Rightarrow> accept_state \<Rightarrow> bool" for k :: loop_kind where
  accept: "ac_phase s = Accepting \<Longrightarrow> loop_step k s (accept_conn (lk_tls k) s)"
| accept_fails: "ac_phase s = Accepting \<Longrightarrow> loop_step k s s"
| stop: "ac_phase s = Accepting \<Longrightarrow> ac_shutdown s \<Longrightarrow> loop_step k s (s\<lparr>ac_phase := Draining (ac_now s)\<rparr>)"
| handshake_done: "(c, Handshaking since) \<in> set (ac_conns s) \<Longrightarrow> loop_step k s (conn_becomes c Serving s)"
| handshake_dropped: "(c, Handshaking since) \<in> set (ac_conns s) \<Longrightarrow> loop_step k s (conn_gone c s)"
| graceful: "(c, Serving) \<in> set (ac_conns s) \<Longrightarrow>
    (if lk_own_drain k then ac_shutdown s else (\<exists>since. ac_phase s = Draining since)) \<Longrightarrow>
    loop_step k s (conn_becomes c Closing s)"
| finished: "(c, ph) \<in> set (ac_conns s) \<Longrightarrow> ph = Serving \<or> ph = Closing \<Longrightarrow> loop_step k s (conn_gone c s)"
| drained: "ac_phase s = Draining since \<Longrightarrow> ac_conns s = [] \<Longrightarrow> loop_step k s (s\<lparr>ac_phase := Closed\<rparr>)"
| drain_timeout: "ac_phase s = Draining since \<Longrightarrow> ac_now s = since + lk_drain k \<Longrightarrow>
    loop_step k s (s\<lparr>ac_phase := Closed, ac_conns := (if lk_own_drain k then [] else ac_conns s)\<rparr>)"

inductive accept_step :: "loop_kind \<Rightarrow> accept_state \<Rightarrow> accept_state \<Rightarrow> bool" for k :: loop_kind where
  own: "loop_step k s s' \<Longrightarrow> accept_step k s s'"
| shutdown: "accept_step k s (s\<lparr>ac_shutdown := True\<rparr>)"
| wait: "may_wait k d s \<Longrightarrow> accept_step k s (s\<lparr>ac_now := ac_now s + d\<rparr>)"


section \<open>Deadlines\<close>

definition accept_inv :: "loop_kind \<Rightarrow> accept_state \<Rightarrow> bool" where
  "accept_inv k s \<longleftrightarrow>
     (ac_phase s = Accepting \<or> ac_shutdown s) \<and>
     (\<forall>since. ac_phase s = Draining since \<longrightarrow> since \<le> ac_now s \<and> ac_now s \<le> since + lk_drain k) \<and>
     (ac_phase s = Closed \<and> lk_own_drain k \<longrightarrow> ac_conns s = []) \<and>
     (\<forall>c since. (c, Handshaking since) \<in> set (ac_conns s) \<longrightarrow> since \<le> ac_now s \<and> ac_now s \<le> since + HANDSHAKE_TIMEOUT) \<and>
     (\<forall>c \<in> fst ` set (ac_conns s). c < ac_next s) \<and> distinct (map fst (ac_conns s))"

lemma accept_inv_start: "accept_inv k (accept_start now)"
  by (simp add: accept_inv_def accept_start_def)

lemma conn_becomes_conns:
  "map fst (ac_conns (conn_becomes c ph s)) = map fst (ac_conns s)"
  "fst ` set (ac_conns (conn_becomes c ph s)) = fst ` set (ac_conns s)"
  by (simp_all add: conn_becomes_def comp_def case_prod_unfold image_image)

lemma conn_becomes_handshaking:
  "(c', Handshaking t) \<in> set (ac_conns (conn_becomes c ph s)) \<Longrightarrow> (\<forall>t. ph \<noteq> Handshaking t) \<Longrightarrow> (c', Handshaking t) \<in> set (ac_conns s)"
  by (auto simp: conn_becomes_def split: if_splits)

lemma conn_gone_conns: "set (ac_conns (conn_gone c s)) \<subseteq> set (ac_conns s)"
  by (auto simp: conn_gone_def)

lemma conn_frame [simp]:
  "ac_phase (conn_becomes c ph s) = ac_phase s" "ac_now (conn_becomes c ph s) = ac_now s"
  "ac_shutdown (conn_becomes c ph s) = ac_shutdown s" "ac_next (conn_becomes c ph s) = ac_next s"
  "ac_phase (conn_gone c s) = ac_phase s" "ac_now (conn_gone c s) = ac_now s"
  "ac_shutdown (conn_gone c s) = ac_shutdown s" "ac_next (conn_gone c s) = ac_next s"
  by (simp_all add: conn_becomes_def conn_gone_def)

lemma accept_inv_gone [inv_intros]: "accept_inv k s \<Longrightarrow> accept_inv k (conn_gone c s)"
  using conn_gone_conns[of c s] by (fastforce simp: accept_inv_def conn_gone_def distinct_map_filter)

lemma accept_inv_becomes [inv_intros]:
  assumes "accept_inv k s" "\<forall>t. ph \<noteq> Handshaking t"
  shows "accept_inv k (conn_becomes c ph s)"
proof -
  have "ac_conns (conn_becomes c ph s) = [] \<longleftrightarrow> ac_conns s = []" by (simp add: conn_becomes_def)
  then show ?thesis
    using assms conn_becomes_handshaking[of _ _ c ph s] unfolding accept_inv_def conn_becomes_conns conn_frame by blast
qed

lemma accept_inv_accept [inv_intros]:
  assumes "accept_inv k s" "ac_phase s = Accepting"
  shows "accept_inv k (accept_conn is_tls s)"
  using assms by (auto simp: accept_inv_def accept_conn_def)

lemma accept_inv_wait [inv_intros]:
  assumes "accept_inv k s" "may_wait k d s"
  shows "accept_inv k (s\<lparr>ac_now := ac_now s + d\<rparr>)"
  using assms by (fastforce simp: accept_inv_def may_wait_def list_all_iff split: loop_phase.splits conn_phase.splits)

lemma accept_inv_shutdown [inv_intros]: "accept_inv k s \<Longrightarrow> accept_inv k (s\<lparr>ac_shutdown := True\<rparr>)"
  by (simp add: accept_inv_def)

lemma accept_inv_loop:
  assumes "loop_step k s t" "accept_inv k s"
  shows "accept_inv k t"
  using assms
proof (induction rule: loop_step.induct)
  case (drain_timeout s since)
  then show ?case by (auto simp: accept_inv_def)
qed (auto simp: inv_intros, auto simp: accept_inv_def)

lemma accept_inv_step: "accept_step k s t \<Longrightarrow> accept_inv k s \<Longrightarrow> accept_inv k t"
  by (induction rule: accept_step.induct) (auto simp: accept_inv_loop inv_intros)

interpretation accepting: invariant_system "\<lambda>s. \<exists>now. s = accept_start now" "accept_step k" "accept_inv k"
  for k
  by unfold_locales (auto simp: accept_inv_start intro: accept_inv_step)

text \<open>What a loop's own steps leave alone.\<close>

lemma loop_frame: "loop_step k s t \<Longrightarrow> ac_now t = ac_now s \<and> ac_shutdown t = ac_shutdown s"
  by (induction rule: loop_step.induct) (simp_all add: accept_conn_def)

text \<open>Once the loop has stopped accepting, connections only go away.\<close>

lemma stopped_loop:
  assumes "loop_step k s t" "ac_phase s \<noteq> Accepting"
  shows "ac_phase t \<noteq> Accepting \<and> ac_next t = ac_next s \<and> fst ` set (ac_conns t) \<subseteq> fst ` set (ac_conns s)"
  using assms
  by (induction rule: loop_step.induct) (simp_all add: image_mono[OF conn_gone_conns] conn_becomes_conns(2))

lemma stopped_step:
  assumes "accept_step k s t" "ac_phase s \<noteq> Accepting"
  shows "ac_phase t \<noteq> Accepting \<and> ac_next t = ac_next s \<and> fst ` set (ac_conns t) \<subseteq> fst ` set (ac_conns s)"
  using assms by (induction rule: accept_step.induct) (use stopped_loop in auto)

lemma stopped_steps:
  assumes "(accept_step k)\<^sup>*\<^sup>* s t" "ac_phase s \<noteq> Accepting"
  shows "ac_phase t \<noteq> Accepting \<and> ac_next t = ac_next s \<and> fst ` set (ac_conns t) \<subseteq> fst ` set (ac_conns s)"
  using assms
proof (induction rule: rtranclp_induct)
  case (step y z)
  note y = step.IH[OF step.prems]
  note z = stopped_step[OF step.hyps(2) conjunct1[OF y]]
  have "fst ` set (ac_conns z) \<subseteq> fst ` set (ac_conns s)"
    using conjunct2[OF conjunct2[OF z]] conjunct2[OF conjunct2[OF y]] by (rule order_trans)
  then show ?case using z y by metis
qed simp

text \<open>Every connection can go away at once, so a draining loop can close without waiting.\<close>

lemma drain_progress:
  assumes "ac_phase s = Draining since"
  shows "\<exists>t. (loop_step k)\<^sup>*\<^sup>* s t \<and> ac_phase t = Closed \<and> ac_conns t = []"
  using assms
proof (induction "length (ac_conns s)" arbitrary: s rule: less_induct)
  case less
  show ?case
  proof (cases "ac_conns s")
    case Nil
    then have "loop_step k s (s\<lparr>ac_phase := Closed\<rparr>)" using less.prems by (intro loop_step.drained)
    then show ?thesis using Nil by (intro exI[of _ "s\<lparr>ac_phase := Closed\<rparr>"]) (simp add: r_into_rtranclp)
  next
    case (Cons conn conns)
    obtain c ph where conn: "conn = (c, ph)" by (cases conn)
    have step: "loop_step k s (conn_gone c s)"
      using Cons conn by (cases ph) (auto intro: loop_step.handshake_dropped loop_step.finished)
    have "length (ac_conns (conn_gone c s)) < length (ac_conns s)"
      using Cons conn by (simp add: conn_gone_def le_imp_less_Suc)
    from less.hyps[OF this] less.prems obtain t where
      "(loop_step k)\<^sup>*\<^sup>* (conn_gone c s) t" "ac_phase t = Closed" "ac_conns t = []" by auto
    with step show ?thesis by (meson converse_rtranclp_into_rtranclp)
  qed
qed

lemma loop_steps_frame: "(loop_step k)\<^sup>*\<^sup>* s t \<Longrightarrow> ac_now t = ac_now s \<and> ac_shutdown t = ac_shutdown s"
  by (induction rule: rtranclp_induct) (auto dest: loop_frame)

lemma loop_steps_accept: "(loop_step k)\<^sup>*\<^sup>* s t \<Longrightarrow> (accept_step k)\<^sup>*\<^sup>* s t"
  by (induction rule: rtranclp_induct) (auto intro: accept_step.own rtranclp.rtrancl_into_rtrancl)

text \<open>Any loop that has been told to shut down can do so at once.\<close>

lemma loop_closes:
  assumes "ac_shutdown s"
  shows "\<exists>t. (loop_step k)\<^sup>*\<^sup>* s t \<and> ac_phase t = Closed"
proof (cases "ac_phase s")
  case Accepting
  let ?s = "s\<lparr>ac_phase := Draining (ac_now s)\<rparr>"
  have "loop_step k s ?s" using Accepting assms by (rule loop_step.stop)
  moreover obtain t where "(loop_step k)\<^sup>*\<^sup>* ?s t" "ac_phase t = Closed" using drain_progress[of ?s] by fastforce
  ultimately show ?thesis by (meson converse_rtranclp_into_rtranclp)
qed (use drain_progress in blast)+


section \<open>Startup in order\<close>

lemma bind_listeners_Ok:
  "snd (bind_listeners bind_tcp limits bound ls) = Ok () \<Longrightarrow>
     fst (bind_listeners bind_tcp limits bound ls) = map (spawn_listener limits) ls \<and>
     (\<forall>i < length ls. \<exists>u. bind_tcp (bound @ map lr_bind (take i ls)) (lr_bind (ls ! i)) = Ok u)"
proof (induction ls arbitrary: bound)
  case (Cons l ls)
  then obtain u where u: "bind_tcp bound (lr_bind l) = Ok u"
    "snd (bind_listeners bind_tcp limits (bound @ [lr_bind l]) ls) = Ok ()"
    by (auto simp: case_prod_unfold Let_def split: sum.splits)
  show ?case using u(1) Cons.IH[OF u(2)] by (auto simp: case_prod_unfold Let_def less_Suc_eq_0_disj)
qed simp

lemma bind_listeners_Err:
  "snd (bind_listeners bind_tcp limits bound ls) = Err e \<Longrightarrow>
     (\<exists>i source. i < length ls \<and> bind_tcp (bound @ map lr_bind (take i ls)) (lr_bind (ls ! i)) = Err source \<and>
        e = ProxyBind (lr_name (ls ! i)) (lr_bind (ls ! i)) source \<and>
        fst (bind_listeners bind_tcp limits bound ls) = map (spawn_listener limits) (take i ls))"
proof (induction ls arbitrary: bound)
  case (Cons l ls)
  show ?case
  proof (cases "bind_tcp bound (lr_bind l)")
    case (Inl source)
    then show ?thesis using Cons.prems by (intro exI[of _ 0] exI[of _ source]) simp
  next
    case (Inr u)
    then have "snd (bind_listeners bind_tcp limits (bound @ [lr_bind l]) ls) = Err e"
      using Cons.prems by (auto simp: case_prod_unfold Let_def)
    from Cons.IH[OF this] obtain i source where i: "i < length ls"
      "bind_tcp (bound @ lr_bind l # map lr_bind (take i ls)) (lr_bind (ls ! i)) = Err source"
      "e = ProxyBind (lr_name (ls ! i)) (lr_bind (ls ! i)) source"
      "fst (bind_listeners bind_tcp limits (bound @ [lr_bind l]) ls) = map (spawn_listener limits) (take i ls)"
      by auto
    then show ?thesis using Inr by (intro exI[of _ "Suc i"] exI[of _ source]) (simp add: case_prod_unfold Let_def)
  qed
qed simp


section \<open>Properties\<close>

text \<open>Shutdown is bounded: in every reachable state of an accept loop, a loop that drains has
  done so for at most the drain timeout, accepts no connection any more, and can close
  within that time; a closed loop of the proxy has no connection left; and no connection has
  been in its handshake for longer than the handshake timeout.\<close>

theorem shutdown_drains_in_time:
  assumes "(accept_step k)\<^sup>*\<^sup>* (accept_start start) s"
  shows "(\<forall>since. ac_phase s = Draining since \<longrightarrow>
      ac_now s \<le> since + lk_drain k \<and>
      (\<exists>t. (accept_step k)\<^sup>*\<^sup>* s t \<and> ac_phase t = Closed \<and> ac_now t \<le> since + lk_drain k) \<and>
      (\<forall>t. (accept_step k)\<^sup>*\<^sup>* s t \<longrightarrow> fst ` set (ac_conns t) \<subseteq> fst ` set (ac_conns s))) \<and>
    (ac_phase s = Closed \<and> lk_own_drain k \<longrightarrow> ac_conns s = []) \<and>
    (\<forall>c since. (c, Handshaking since) \<in> set (ac_conns s) \<longrightarrow> ac_now s \<le> since + HANDSHAKE_TIMEOUT)"
proof -
  have inv: "accept_inv k s" using accepting.inv_reachable assms by blast
  have "\<exists>t. (accept_step k)\<^sup>*\<^sup>* s t \<and> ac_phase t = Closed \<and> ac_now t \<le> since + lk_drain k"
    if draining: "ac_phase s = Draining since" for since
  proof -
    obtain t where t: "(loop_step k)\<^sup>*\<^sup>* s t" "ac_phase t = Closed" using drain_progress[OF draining] by blast
    have "ac_now t \<le> since + lk_drain k" using loop_steps_frame[OF t(1)] inv draining by (simp add: accept_inv_def)
    then show ?thesis using t loop_steps_accept by blast
  qed
  moreover have "fst ` set (ac_conns t) \<subseteq> fst ` set (ac_conns s)"
    if "ac_phase s = Draining since" "(accept_step k)\<^sup>*\<^sup>* s t" for since t
    using stopped_steps[OF that(2)] that(1) by simp
  moreover have "ac_now s \<le> since + lk_drain k" if "ac_phase s = Draining since" for since
    using inv that by (simp add: accept_inv_def)
  moreover have "ac_phase s = Closed \<and> lk_own_drain k \<Longrightarrow> ac_conns s = []"
    "\<And>c since. (c, Handshaking since) \<in> set (ac_conns s) \<Longrightarrow> ac_now s \<le> since + HANDSHAKE_TIMEOUT"
    using inv by (simp_all add: accept_inv_def)
  ultimately show ?thesis by (intro conjI allI impI) simp_all
qed

text \<open>C39. The connections of a validated configuration are set up without a panic: whatever limits it
  sets, the calls made on the connection builder avoid the conditions under which \<open>hyper\<close>
  documents a panic.\<close>

theorem validated_limits_never_panic:
  assumes "validate net url_parse c = Ok ()" "build_snapshot_inner api net mfb ba c wt = Ok snap"
  shows "builder_accepts (conn_setup (conn_limits snap))"
proof -
  have "lim_max_header_bytes (cf_limits c) = 0 \<or> 8192 \<le> lim_max_header_bytes (cf_limits c)"
    using assms(1) by (simp add: validate_Ok_iff config_wf_def)
  then have "lim_max_header_bytes (cf_limits c) = 0 \<or> 8192 \<le> unat (lim_max_header_bytes (cf_limits c))"
    by (simp add: word_le_nat_alt)
  then show ?thesis using assms(2)
    by (auto simp: build_snapshot_inner_def Let_def conn_limits_def conn_setup_def builder_accepts_def split: sum.splits)
qed

text \<open>C40. Startup is in order and its error is exact: when all addresses can be bound there is one
  accept loop per listener, with that listener's name, address and acceptor; otherwise the
  error names the first listener that cannot be bound, and only the loops of those before it
  were started.\<close>

theorem listeners_start_in_order:
  assumes "build_client (sn_connect_timeout snap) = Ok client"
    and "serve_shared build_client bind_tcp snap = (loops, r)"
  shows "(r = Ok () \<longrightarrow> loops = map (spawn_listener (conn_limits snap)) (sn_listeners snap)) \<and>
    (\<forall>e. r = Err e \<longrightarrow> (\<exists>before l after source. sn_listeners snap = before @ l # after \<and>
        bind_tcp (map lr_bind before) (lr_bind l) = Err source \<and> e = ProxyBind (lr_name l) (lr_bind l) source \<and>
        loops = map (spawn_listener (conn_limits snap)) before))"
proof -
  let ?b = "bind_listeners bind_tcp (conn_limits snap) [] (sn_listeners snap)"
  have b: "?b = (loops, r)" using assms by (simp add: serve_shared_def)
  have "\<exists>before l after source. sn_listeners snap = before @ l # after \<and>
        bind_tcp (map lr_bind before) (lr_bind l) = Err source \<and> e = ProxyBind (lr_name l) (lr_bind l) source \<and>
        loops = map (spawn_listener (conn_limits snap)) before" if err: "r = Err e" for e
  proof -
    obtain i source where i: "i < length (sn_listeners snap)"
      "bind_tcp (map lr_bind (take i (sn_listeners snap))) (lr_bind (sn_listeners snap ! i)) = Err source"
      "e = ProxyBind (lr_name (sn_listeners snap ! i)) (lr_bind (sn_listeners snap ! i)) source"
      "loops = map (spawn_listener (conn_limits snap)) (take i (sn_listeners snap))"
      using bind_listeners_Err[of bind_tcp "conn_limits snap" "[]" "sn_listeners snap" e] b err by fastforce
    then show ?thesis using id_take_nth_drop[OF i(1)] by metis
  qed
  moreover have "loops = map (spawn_listener (conn_limits snap)) (sn_listeners snap)" if "r = Ok ()"
    using bind_listeners_Ok[of bind_tcp "conn_limits snap" "[]" "sn_listeners snap"] b that by simp
  ultimately show ?thesis by blast
qed


section \<open>Witnesses\<close>

text \<open>A connection is accepted, shutdown is signalled and the loop starts to drain.\<close>

theorem shutdown_drains_in_time_witness:
  "\<exists>s t. (accept_step (proxy_loop True))\<^sup>*\<^sup>* (accept_start 0) s \<and> ac_phase s = Draining 0 \<and>
     (accept_step (proxy_loop True))\<^sup>*\<^sup>* s t \<and> ac_phase t = Closed \<and> ac_now t \<le> DRAIN_TIMEOUT"
proof -
  let ?k = "proxy_loop True" and ?a = "accept_conn True (accept_start 0)"
  let ?s = "?a\<lparr>ac_shutdown := True, ac_phase := Draining 0\<rparr>"
  have "loop_step ?k (accept_start 0) ?a"
    using loop_step.accept[of "accept_start 0" ?k] by (simp add: accept_start_def proxy_loop_def)
  moreover have "accept_step ?k ?a (?a\<lparr>ac_shutdown := True\<rparr>)" by (rule accept_step.shutdown)
  moreover have "loop_step ?k (?a\<lparr>ac_shutdown := True\<rparr>) ?s"
    using loop_step.stop[of "?a\<lparr>ac_shutdown := True\<rparr>" ?k] by (simp add: accept_conn_def accept_start_def)
  ultimately have run: "(accept_step ?k)\<^sup>*\<^sup>* (accept_start 0) ?s"
    by (meson accept_step.own converse_rtranclp_into_rtranclp rtranclp.rtrancl_refl)
  have "ac_phase ?s = Draining 0" by simp
  then obtain t where "(accept_step ?k)\<^sup>*\<^sup>* ?s t" "ac_phase t = Closed" "ac_now t \<le> 0 + lk_drain ?k"
    using conjunct1[OF shutdown_drains_in_time[OF run]] by blast
  then show ?thesis using run \<open>ac_phase ?s = Draining 0\<close> by (intro exI[of _ ?s] exI[of _ t]) (simp add: proxy_loop_def)
qed

text \<open>The example configuration with both connection limits set, at the smallest buffer.\<close>

definition limited_config :: GatePupConfig where
  "limited_config = example_config\<lparr>cf_limits := (cf_limits example_config)\<lparr>lim_header_read_timeout_ms := 5000, lim_max_header_bytes := 8192\<rparr>\<rparr>"

definition limited_snapshot :: "(ip_addr \<times> nat, unit) RuntimeConfig" where
  "limited_snapshot = projr (build_snapshot_inner list_headers prefix_nets Some (\<lambda>_. Ok ()) limited_config True)"

lemma limited_snapshot_built:
  "build_snapshot_inner list_headers prefix_nets Some (\<lambda>_. Ok ()) limited_config True = Ok limited_snapshot"
proof -
  have "\<not> isl (build_snapshot_inner list_headers prefix_nets Some (\<lambda>_. Ok () :: (unit, string) result) limited_config True)"
    by code_simp
  then show ?thesis by (simp add: limited_snapshot_def)
qed

theorem validated_limits_never_panic_witness:
  "builder_accepts (conn_setup (conn_limits limited_snapshot)) \<and>
   conn_setup (conn_limits limited_snapshot) = [SetTimer, SetHeaderReadTimeout (from_millis 5000), SetMaxBufSize 8192]"
proof
  have "validate prefix_nets example_url_parse limited_config = Ok ()" by code_simp
  then show "builder_accepts (conn_setup (conn_limits limited_snapshot))"
    by (rule validated_limits_never_panic[OF _ limited_snapshot_built])
qed code_simp

theorem listeners_start_in_order_witness:
  "\<exists>before l after. sn_listeners limited_snapshot = before @ l # after \<and>
     serve_shared (\<lambda>_. Ok ()) (\<lambda>_ _. Err ''in use'') limited_snapshot =
       (map (spawn_listener (conn_limits limited_snapshot)) before, Err (ProxyBind (lr_name l) (lr_bind l) ''in use''))"
proof -
  obtain loops r where lr: "serve_shared (\<lambda>_. Ok ()) (\<lambda>_ _. Err ''in use'') limited_snapshot = (loops, r)"
    by (cases "serve_shared (\<lambda>_. Ok ()) (\<lambda>_ _. Err ''in use'') limited_snapshot")
  have "isl (snd (serve_shared (\<lambda>_. Ok ()) (\<lambda>_ _. Err ''in use'') limited_snapshot))" by code_simp
  then obtain e where "r = Err e" using lr by (cases r) simp_all
  then show ?thesis using listeners_start_in_order[OF refl lr] lr by auto
qed

end
