(* ===== verification/Supervisor.thy ===== *)
theory Supervisor
  imports Prober
begin

text \<open>
  The supervisor of the health checks (\<open>run_health_supervisor\<close> and the loop of
  \<open>run_health_checks\<close> in \<open>gatepup-proxy/src/health.rs\<close>): it keeps one probe loop per opted-in
  upstream across reloads. A reload stores the new snapshot first and bumps the reload channel
  afterwards, and the supervisor wakes up first and reads the snapshot afterwards; every such
  access is a step of its own, so all their interleavings are covered.
\<close>

section \<open>State\<close>

text \<open>A running loop holds the upstream of the snapshot it was spawned from.\<close>

record probe_loop =
  pl_gen :: nat          \<comment> \<open>whose \<open>stop_rx\<close> it listens on\<close>
  pl_version :: nat      \<comment> \<open>the snapshot its upstream belongs to\<close>
  pl_upstream :: string

text \<open>
  The upstreams and the version of the stored snapshot, the value of the reload channel and
  the one the supervisor has seen, the shutdown channel, whether the supervisor is at the top
  of its loop, its generation of loops and the version that generation was spawned from, the
  generations told to stop, and the running loops.
\<close>

record supervisor =
  su_upstreams :: "(string \<times> UpstreamRuntime) list"
  su_stored :: nat
  su_reloads :: nat
  su_seen :: nat
  su_shutdown :: bool
  su_awake :: bool
  su_gen :: nat
  su_loaded :: nat
  su_stopped :: "nat set"
  su_loops :: "probe_loop list"
  su_exited :: bool

definition opted_in :: "(string \<times> UpstreamRuntime) list \<Rightarrow> string list" where
  "opted_in us = map fst (filter (\<lambda>(_, u). up_health u \<noteq> None) us)"

definition supervisor_start :: "bool \<Rightarrow> (string \<times> UpstreamRuntime) list \<Rightarrow> supervisor" where
  "supervisor_start clients_ok us =
     \<lparr>su_upstreams = us, su_stored = 0, su_reloads = 0, su_seen = 0, su_shutdown = False, su_awake = clients_ok,
      su_gen = 0, su_loaded = 0, su_stopped = {}, su_loops = [], su_exited = \<not> clients_ok\<rparr>"

text \<open>
  The top of the supervisor's loop: stop the previous generation, load the snapshot and spawn
  a loop for each of its opted-in upstreams.
\<close>

definition spawn_loops :: "nat \<Rightarrow> nat \<Rightarrow> (string \<times> UpstreamRuntime) list \<Rightarrow> probe_loop list" where
  "spawn_loops g v us = map (\<lambda>n. \<lparr>pl_gen = g, pl_version = v, pl_upstream = n\<rparr>) (opted_in us)"

definition respawn :: "supervisor \<Rightarrow> supervisor" where
  "respawn s =
     s\<lparr>su_awake := False, su_gen := Suc (su_gen s), su_loaded := su_stored s,
       su_stopped := insert (su_gen s) (su_stopped s),
       su_loops := su_loops s @ spawn_loops (Suc (su_gen s)) (su_stored s) (su_upstreams s)\<rparr>"

definition supervisor_exit :: "supervisor \<Rightarrow> supervisor" where
  "supervisor_exit s = s\<lparr>su_stopped := insert (su_gen s) (su_stopped s), su_exited := True\<rparr>"

text \<open>
  The steps of a reload (one at a time, in the signal loop): store, then bump. The steps of the
  supervisor: wake up on the channel, respawn, exit. The steps of a loop: end when told to or
  on shutdown, or tick and probe. A tick on an upstream of an older snapshot does not touch
  the stored one.
\<close>

inductive supervisor_step :: "'u uri_api \<Rightarrow> supervisor \<Rightarrow> supervisor \<Rightarrow> bool" for uri :: "'u uri_api" where
  store: "su_stored s = su_reloads s \<Longrightarrow>
    supervisor_step uri s (s\<lparr>su_upstreams := us, su_stored := Suc (su_stored s)\<rparr>)"
| bump: "su_reloads s < su_stored s \<Longrightarrow> supervisor_step uri s (s\<lparr>su_reloads := Suc (su_reloads s)\<rparr>)"
| shutdown: "supervisor_step uri s (s\<lparr>su_shutdown := True\<rparr>)"
| wake: "\<not> su_exited s \<Longrightarrow> \<not> su_awake s \<Longrightarrow> su_seen s < su_reloads s \<Longrightarrow>
    supervisor_step uri s (s\<lparr>su_awake := True, su_seen := su_reloads s\<rparr>)"
| respawn: "\<not> su_exited s \<Longrightarrow> su_awake s \<Longrightarrow> supervisor_step uri s (respawn s)"
| exit: "\<not> su_exited s \<Longrightarrow> \<not> su_awake s \<Longrightarrow> su_shutdown s \<Longrightarrow> supervisor_step uri s (supervisor_exit s)"
| loop_ends: "l \<in> set (su_loops s) \<Longrightarrow> pl_gen l \<in> su_stopped s \<or> su_shutdown s \<Longrightarrow>
    supervisor_step uri s (s\<lparr>su_loops := remove1 l (su_loops s)\<rparr>)"
| tick: "l \<in> set (su_loops s) \<Longrightarrow> pl_version l = su_stored s \<Longrightarrow>
    map_of (su_upstreams s) (pl_upstream l) = Some u \<Longrightarrow> up_health u = Some settings \<Longrightarrow>
    supervisor_step uri s
      (s\<lparr>su_upstreams := AList.update (pl_upstream l) (probe_round uri settings env u) (su_upstreams s)\<rparr>)"
| stale_tick: "l \<in> set (su_loops s) \<Longrightarrow> pl_version l \<noteq> su_stored s \<Longrightarrow> supervisor_step uri s s"


section \<open>Invariant\<close>

text \<open>The loops of the current generation.\<close>

definition current_loops :: "supervisor \<Rightarrow> probe_loop list" where
  "current_loops s = filter (\<lambda>l. pl_gen l = su_gen s) (su_loops s)"

definition supervised :: "supervisor \<Rightarrow> bool" where
  "supervised s \<longleftrightarrow>
     (\<forall>l \<in> set (su_loops s). pl_gen l \<le> su_gen s) \<and>
     (\<forall>g < su_gen s. g \<in> su_stopped s) \<and> (\<forall>g \<in> su_stopped s. g \<le> su_gen s) \<and>
     su_seen s \<le> su_reloads s \<and> su_reloads s \<le> su_stored s \<and> su_loaded s \<le> su_stored s \<and>
     (\<not> su_exited s \<longrightarrow> su_gen s \<notin> su_stopped s) \<and>
     (\<not> su_awake s \<and> \<not> su_exited s \<longrightarrow> su_seen s \<le> su_loaded s) \<and>
     (\<not> su_exited s \<and> \<not> su_awake s \<and> \<not> su_shutdown s \<and> su_loaded s = su_stored s \<longrightarrow>
        current_loops s = spawn_loops (su_gen s) (su_stored s) (su_upstreams s))"

lemma opted_in_update:
  assumes "map_of us n = Some u" "up_health v = up_health u"
  shows "opted_in (AList.update n v us) = opted_in us"
  using assms by (induction us) (auto simp: opted_in_def)

lemma supervised_start: "supervised (supervisor_start ok us)"
  by (simp add: supervised_def supervisor_start_def)

lemma filter_remove1_other: "\<not> P x \<Longrightarrow> filter P (remove1 x xs) = filter P xs"
  by (induction xs) auto

lemma filter_spawn_loops: "filter (\<lambda>l. pl_gen l = g) (spawn_loops g v us) = spawn_loops g v us"
  by (simp add: spawn_loops_def)

lemma supervised_respawn:
  assumes "supervised s" "\<not> su_exited s"
  shows "supervised (respawn s)"
proof -
  have new: "filter (\<lambda>l. pl_gen l = Suc (su_gen s)) (su_loops s) = []"
    using assms(1) by (fastforce simp: supervised_def filter_empty_conv)
  then have "current_loops (respawn s) = spawn_loops (Suc (su_gen s)) (su_stored s) (su_upstreams s)"
    by (simp add: current_loops_def respawn_def filter_spawn_loops)
  moreover have "\<forall>l \<in> set (spawn_loops (Suc (su_gen s)) (su_stored s) (su_upstreams s)). pl_gen l = Suc (su_gen s)"
    by (simp add: spawn_loops_def)
  ultimately show ?thesis
    using assms unfolding supervised_def by (auto simp: respawn_def less_Suc_eq le_Suc_eq)
qed

lemma supervised_loop_ends:
  assumes "supervised s" "pl_gen l \<in> su_stopped s \<or> su_shutdown s"
  shows "supervised (s\<lparr>su_loops := remove1 l (su_loops s)\<rparr>)"
proof -
  have "current_loops (s\<lparr>su_loops := remove1 l (su_loops s)\<rparr>) = current_loops s"
    if "\<not> su_exited s" "\<not> su_shutdown s"
    using that assms by (auto simp: supervised_def current_loops_def intro!: filter_remove1_other)
  then show ?thesis
    using assms(1) set_remove1_subset[of l "su_loops s"] unfolding supervised_def by auto
qed

lemma supervised_tick:
  assumes "supervised s" "map_of (su_upstreams s) n = Some u"
  shows "supervised (s\<lparr>su_upstreams := AList.update n (probe_round uri settings env u) (su_upstreams s)\<rparr>)"
proof -
  have "up_health (probe_round uri settings env u) = up_health u"
    using probe_round_targets(1)[of u uri settings env] by (simp add: same_group_def)
  with assms show ?thesis by (simp add: supervised_def opted_in_update current_loops_def spawn_loops_def)
qed

lemma supervised_step:
  assumes "supervised s" "supervisor_step uri s t"
  shows "supervised t"
  using assms(2,1)
proof (induction rule: supervisor_step.induct)
  case (respawn s)
  then show ?case by (intro supervised_respawn)
next
  case (loop_ends l s)
  then show ?case by (intro supervised_loop_ends)
next
  case (tick l s u settings env)
  then show ?case by (intro supervised_tick)
qed (auto simp: supervised_def current_loops_def supervisor_exit_def)

interpretation supervision: invariant_system "\<lambda>s. \<exists>ok us. s = supervisor_start ok us" "supervisor_step uri" supervised for uri
  by unfold_locales (auto simp: supervised_start intro: supervised_step)


section \<open>Progress\<close>

text \<open>The supervisor can always catch up with the stored snapshot.\<close>

lemma supervisor_catches_up:
  assumes "supervised s" "\<not> su_exited s"
  shows "\<exists>t. (supervisor_step uri)\<^sup>*\<^sup>* s t \<and> \<not> su_exited t \<and> \<not> su_awake t \<and> su_seen t \<le> su_reloads t \<and>
    su_loaded t = su_stored t \<and> su_upstreams t = su_upstreams s \<and> su_shutdown t = su_shutdown s"
proof -
  have settle: "\<exists>t. (supervisor_step uri)\<^sup>*\<^sup>* s t \<and> \<not> su_exited t \<and> \<not> su_awake t \<and> su_seen t \<le> su_reloads t \<and>
      su_loaded t = su_stored t \<and> su_upstreams t = su_upstreams s \<and> su_shutdown t = su_shutdown s"
    if "supervised s" "\<not> su_exited s" "su_awake s" for s
    using supervisor_step.respawn[OF that(2,3), of uri] that
    by (intro exI[of _ "respawn s"]) (auto simp: respawn_def supervised_def)
  show ?thesis
  proof (cases "su_awake s \<or> su_loaded s = su_stored s")
    case True
    then show ?thesis using settle[OF assms] assms by (cases "su_awake s") (auto simp: supervised_def)
  next
    case False
    define b where "b = (if su_reloads s < su_stored s then s\<lparr>su_reloads := Suc (su_reloads s)\<rparr> else s)"
    have sb: "(supervisor_step uri)\<^sup>*\<^sup>* s b" by (simp add: b_def supervisor_step.bump r_into_rtranclp)
    have inv: "supervised b" using supervision.inv_steps[OF sb assms(1)] .
    have b: "\<not> su_exited b" "\<not> su_awake b" "su_seen b < su_reloads b" "su_upstreams b = su_upstreams s"
      "su_shutdown b = su_shutdown s"
      using assms False by (auto simp: b_def supervised_def)
    let ?w = "b\<lparr>su_awake := True, su_seen := su_reloads b\<rparr>"
    have w: "supervisor_step uri b ?w" by (rule supervisor_step.wake[OF b(1-3)])
    have "supervised ?w" using supervision.inv_step[OF inv w] .
    from settle[OF this] b obtain t where "(supervisor_step uri)\<^sup>*\<^sup>* ?w t" "\<not> su_exited t" "\<not> su_awake t"
      "su_seen t \<le> su_reloads t" "su_loaded t = su_stored t" "su_upstreams t = su_upstreams s" "su_shutdown t = su_shutdown s"
      by auto
    then show ?thesis using sb w by (meson converse_rtranclp_into_rtranclp rtranclp_trans)
  qed
qed

text \<open>After a shutdown, ending loops empties the list.\<close>

lemma loops_drain:
  assumes "su_shutdown s"
  shows "(supervisor_step uri)\<^sup>*\<^sup>* s (s\<lparr>su_loops := []\<rparr>)"
  using assms
proof (induction "su_loops s" arbitrary: s)
  case Nil
  then show ?case by (metis rtranclp.rtrancl_refl supervisor.surjective supervisor.update_convs(10))
next
  case (Cons l ls)
  have "l \<in> set (su_loops s)" by (simp flip: Cons.hyps(2))
  then have step: "supervisor_step uri s (s\<lparr>su_loops := remove1 l (su_loops s)\<rparr>)"
    using Cons.prems by (intro supervisor_step.loop_ends) auto
  have "remove1 l (su_loops s) = ls" by (simp flip: Cons.hyps(2))
  then have "(supervisor_step uri)\<^sup>*\<^sup>* (s\<lparr>su_loops := ls\<rparr>) (s\<lparr>su_loops := ls, su_loops := []\<rparr>)"
    using Cons.prems by (intro Cons.hyps(1)) simp_all
  then show ?case using step \<open>remove1 l (su_loops s) = ls\<close> by (simp add: converse_rtranclp_into_rtranclp)
qed


section \<open>Properties\<close>

text \<open>C23. The supervisor, in every interleaving with reloads: a probe loop that has not been told to
  stop belongs to the current generation; whenever the supervisor has settled on the stored
  snapshot the current generation has exactly one loop for each upstream of that snapshot
  that asks for health checks, probing that snapshot's own targets; a running supervisor can
  always settle; and after a shutdown all loops can end.\<close>

theorem supervisor_keeps_one_generation:
  assumes "(supervisor_step uri)\<^sup>*\<^sup>* (supervisor_start ok us) s"
  shows "(\<forall>l \<in> set (su_loops s). pl_gen l \<notin> su_stopped s \<longrightarrow> pl_gen l = su_gen s) \<and>
    (\<not> su_exited s \<and> \<not> su_shutdown s \<and> \<not> su_awake s \<and> su_seen s = su_stored s \<longrightarrow>
       current_loops s = spawn_loops (su_gen s) (su_stored s) (su_upstreams s)) \<and>
    (\<not> su_exited s \<and> \<not> su_shutdown s \<longrightarrow>
       (\<exists>t. (supervisor_step uri)\<^sup>*\<^sup>* s t \<and> su_upstreams t = su_upstreams s \<and>
          current_loops t = spawn_loops (su_gen t) (su_stored t) (su_upstreams t))) \<and>
    (su_shutdown s \<longrightarrow> (supervisor_step uri)\<^sup>*\<^sup>* s (s\<lparr>su_loops := []\<rparr>))"
proof -
  have inv: "supervised s" using supervision.inv_reachable assms by blast
  then have "\<forall>l \<in> set (su_loops s). pl_gen l \<notin> su_stopped s \<longrightarrow> pl_gen l = su_gen s"
    by (auto simp: supervised_def le_less)
  moreover have "\<exists>t. (supervisor_step uri)\<^sup>*\<^sup>* s t \<and> su_upstreams t = su_upstreams s \<and>
      current_loops t = spawn_loops (su_gen t) (su_stored t) (su_upstreams t)"
    if run: "\<not> su_exited s" "\<not> su_shutdown s"
  proof -
    obtain t where t: "(supervisor_step uri)\<^sup>*\<^sup>* s t" "\<not> su_exited t" "\<not> su_awake t" "su_loaded t = su_stored t"
      "su_upstreams t = su_upstreams s" "su_shutdown t = su_shutdown s"
      using supervisor_catches_up[OF inv run(1), of uri] by blast
    then have "supervised t" using supervision.inv_steps inv by blast
    with t run show ?thesis by (auto simp: supervised_def)
  qed
  ultimately show ?thesis using inv loops_drain by (auto simp: supervised_def)
qed


section \<open>Witness\<close>

text \<open>The supervisor has spawned its first generation.\<close>

theorem supervisor_keeps_one_generation_witness:
  "current_loops (respawn (supervisor_start True [(''up'', example_upstream)])) =
     spawn_loops 1 0 [(''up'', example_upstream)]"
proof -
  let ?s = "supervisor_start True [(''up'', example_upstream)]"
  have "(supervisor_step string_uri)\<^sup>*\<^sup>* ?s (respawn ?s)"
    by (intro r_into_rtranclp supervisor_step.respawn) (simp_all add: supervisor_start_def)
  from supervisor_keeps_one_generation[OF this] show ?thesis
    by (simp add: respawn_def supervisor_start_def)
qed

end
