(* ===== verification/Upstream_Tls.thy ===== *)
theory Upstream_Tls
  imports Gateway Supervisor
begin

text \<open>
  TLS towards the upstreams (\<open>gatepup-proxy/src/upstream_tls.rs\<close>, \<open>ProxyClient\<close> and \<open>build_client\<close> of
  \<open>proxy.rs\<close>, \<open>build_health_client\<close> and the clients of \<open>run_health_supervisor\<close> in \<open>health.rs\<close>): which
  connector a forwarded request and a probe go through and what its certificate verifier checks;
  an upgrade request goes through none.
  \<open>rustls\<close> and the trust store of the system are parameters.
\<close>

section \<open>Connectors\<close>

text \<open>
  \<open>ServerCertVerifier\<close>: the certificate check (end entity, intermediates, server name, OCSP
  response, time), the two signature checks (message, certificate, signature) and the schemes.
\<close>

record ('c, 's) verifier =
  verify_server_cert :: "'c \<Rightarrow> 'c list \<Rightarrow> string \<Rightarrow> string \<Rightarrow> nat \<Rightarrow> (unit, string) result"
  verify_tls12 :: "string \<Rightarrow> 'c \<Rightarrow> 's \<Rightarrow> (unit, string) result"
  verify_tls13 :: "string \<Rightarrow> 'c \<Rightarrow> 's \<Rightarrow> (unit, string) result"
  supported_verify_schemes :: "nat list"

text \<open>What the code calls of \<open>rustls\<close> and \<open>hyper_rustls\<close>, with the \<open>ring\<close> provider.\<close>

record ('c, 's) rustls_api =
  safe_default_protocols :: "(unit, string) result"               \<comment> \<open>\<open>with_safe_default_protocol_versions\<close>\<close>
  native_roots :: "(('c, 's) verifier, string) result"            \<comment> \<open>\<open>with_provider_and_native_roots\<close>\<close>
  ring_verify_tls12 :: "string \<Rightarrow> 'c \<Rightarrow> 's \<Rightarrow> (unit, string) result"
  ring_verify_tls13 :: "string \<Rightarrow> 'c \<Rightarrow> 's \<Rightarrow> (unit, string) result"
  ring_schemes :: "nat list"

definition NoVerify :: "('c, 's) rustls_api \<Rightarrow> ('c, 's) verifier" where
  "NoVerify ru =
     \<lparr>verify_server_cert = (\<lambda>end_entity intermediates server_name ocsp_response now. Ok ()),
      verify_tls12 = ring_verify_tls12 ru,
      verify_tls13 = ring_verify_tls13 ru,
      supported_verify_schemes = ring_schemes ru\<rparr>"

record ('c, 's) HttpsConnector =
  hc_connect_timeout :: "duration option"
  hc_enforce_http :: bool
  hc_verifier :: "('c, 's) verifier"
  hc_https_or_http :: bool
  hc_http1 :: bool

definition https_connector ::
  "('c, 's) rustls_api \<Rightarrow> duration \<Rightarrow> bool \<Rightarrow> (('c, 's) HttpsConnector, ProxyError) result" where
  "https_connector ru connect_timeout insecure =
     (let wrap = (\<lambda>v. \<lparr>hc_connect_timeout = Some connect_timeout, hc_enforce_http = False, hc_verifier = v,
                       hc_https_or_http = True, hc_http1 = True\<rparr>)
      in if insecure then
           (case safe_default_protocols ru of
              Err e \<Rightarrow> Err (ProxyUpstreamTls e)
            | Ok _ \<Rightarrow> Ok (wrap (NoVerify ru)))
         else
           (case native_roots ru of
              Err e \<Rightarrow> Err (ProxyUpstreamTls e)
            | Ok v \<Rightarrow> Ok (wrap v)))"


section \<open>Clients\<close>

record ('c, 's) ProxyClient =
  pc_verify :: "('c, 's) HttpsConnector"
  pc_insecure :: "('c, 's) HttpsConnector"

definition for_upstream :: "('c, 's) ProxyClient \<Rightarrow> bool \<Rightarrow> ('c, 's) HttpsConnector" where
  "for_upstream client insecure = (if insecure then pc_insecure client else pc_verify client)"

definition build_client :: "('c, 's) rustls_api \<Rightarrow> duration \<Rightarrow> (('c, 's) ProxyClient, ProxyError) result" where
  "build_client ru connect_timeout =
     (case https_connector ru connect_timeout False of
        Err e \<Rightarrow> Err e
      | Ok v \<Rightarrow>
          (case https_connector ru connect_timeout True of
             Err e \<Rightarrow> Err e
           | Ok i \<Rightarrow> Ok \<lparr>pc_verify = v, pc_insecure = i\<rparr>))"

definition build_health_client ::
  "('c, 's) rustls_api \<Rightarrow> duration \<Rightarrow> bool \<Rightarrow> (('c, 's) HttpsConnector, ProxyError) result" where
  "build_health_client ru connect_timeout insecure = https_connector ru connect_timeout insecure"

text \<open>The pair of clients the supervisor starts with; without them it runs no health checks.\<close>

definition health_clients ::
  "('c, 's) rustls_api \<Rightarrow> duration \<Rightarrow> (('c, 's) HttpsConnector \<times> ('c, 's) HttpsConnector) option" where
  "health_clients ru connect_timeout =
     (case (build_health_client ru connect_timeout False, build_health_client ru connect_timeout True) of
        (Ok v, Ok i) \<Rightarrow> Some (v, i)
      | _ \<Rightarrow> None)"

definition run_health_supervisor ::
  "('c, 's) rustls_api \<Rightarrow> duration \<Rightarrow> (string \<times> UpstreamRuntime) list \<Rightarrow> supervisor" where
  "run_health_supervisor ru connect_timeout us = supervisor_start (health_clients ru connect_timeout \<noteq> None) us"

text \<open>The client of one attempt, and of the probes of one upstream.\<close>

definition attempt_client :: "('c, 's) ProxyClient \<Rightarrow> UpstreamRuntime \<Rightarrow> ('c, 's) HttpsConnector" where
  "attempt_client client u = for_upstream client (up_tls_insecure u)"

definition probe_client ::
  "('c, 's) HttpsConnector \<times> ('c, 's) HttpsConnector \<Rightarrow> UpstreamRuntime \<Rightarrow> ('c, 's) HttpsConnector" where
  "probe_client clients u = (if up_tls_insecure u then snd clients else fst clients)"


text \<open>
  How a request reaches the target picked for it: \<open>forward\<close> through the client of the attempt,
  \<open>handle_upgrade\<close> over a TCP connection of its own (\<open>TcpStream::connect\<close>), and not at all when the
  target's URL has no host.
\<close>

datatype ('c, 's) transport = Through "('c, 's) HttpsConnector" | PlainTcp string u16

definition upgrade_transport :: "('h, 'n, 'u) deps \<Rightarrow> UpstreamRuntime \<Rightarrow> nat \<Rightarrow> ('c, 's) transport option" where
  "upgrade_transport dp u i =
     (case parse_authority (dp_uri dp) (tr_url (up_targets u ! i)) of
        None \<Rightarrow> None
      | Some (target_host, target_port) \<Rightarrow> Some (PlainTcp target_host target_port))"

definition request_transport ::
  "('h, 'n, 'u) deps \<Rightarrow> ('c, 's) ProxyClient \<Rightarrow> 'h request \<Rightarrow> UpstreamRuntime \<Rightarrow> nat \<Rightarrow> ('c, 's) transport option" where
  "request_transport dp client req u i =
     (if is_upgrade (dp_headers dp) req then upgrade_transport dp u i else Some (Through (attempt_client client u)))"


section \<open>What the connectors check\<close>

lemma https_connector_Ok:
  "https_connector ru t insecure = Ok c \<longleftrightarrow>
     (if insecure then isl (safe_default_protocols ru) = False \<and> hc_verifier c = NoVerify ru else native_roots ru = Ok (hc_verifier c)) \<and>
     hc_connect_timeout c = Some t \<and> \<not> hc_enforce_http c \<and> hc_https_or_http c \<and> hc_http1 c"
  by (cases c) (auto simp: https_connector_def Let_def split: sum.splits)

lemma build_client_Ok:
  "build_client ru t = Ok c \<longleftrightarrow> https_connector ru t False = Ok (pc_verify c) \<and> https_connector ru t True = Ok (pc_insecure c)"
  by (cases c) (auto simp: build_client_def split: sum.splits)

lemma health_clients_Some:
  "health_clients ru t = Some cs \<longleftrightarrow> https_connector ru t False = Ok (fst cs) \<and> https_connector ru t True = Ok (snd cs)"
  by (cases cs) (auto simp: health_clients_def build_health_client_def split: sum.splits)

text \<open>One flag decides for requests and probes alike.\<close>

lemma clients_agree:
  assumes "build_client ru t = Ok client" "health_clients ru t = Some clients"
  shows "probe_client clients u = attempt_client client u"
  using assms by (simp add: build_client_Ok health_clients_Some probe_client_def attempt_client_def for_upstream_def)

lemma built_upstream_in_service:
  assumes "validate net url_parse cfg = Ok ()" "build_snapshot_inner api net mfb ba cfg wt = Ok snap"
    and "same_config snap snap'" "us \<in> set (cf_upstreams cfg)"
  shows "\<exists>u. map_of (sn_upstreams snap') (us_name us) = Some u \<and> up_tls_insecure u = us_tls_insecure_skip_verify us"
proof -
  have "distinct (map us_name (cf_upstreams cfg))" using assms(1) by (simp add: validate_Ok_iff config_wf_def)
  then have "map_of (sn_upstreams snap) (us_name us) = Some (build_upstream mfb us)"
    using assms(4) by (auto simp: snapshot_fields(2)[OF assms(2)] build_upstreams_lookup)
  then obtain u where "map_of (sn_upstreams snap') (us_name us) = Some u" "same_group (build_upstream mfb us) u"
    using assms(3) unfolding same_config_def by (metis option_rel_Some1)
  then show ?thesis by (simp add: same_group_def build_upstream_def Let_def case_prod_unfold)
qed


section \<open>Properties\<close>

text \<open>C19. Certificate checks of forwarded requests and of probes follow the configuration of the
  upstream, and only it: in every state of a snapshot built from a validated configuration,
  the forwarded requests and the probes of an upstream without \<open>tlsInsecureSkipVerify\<close> go
  through a verifier of the system's trust store; those of one with it go through a verifier
  that accepts every certificate but still has each handshake signature checked. Upgrade
  requests are the exception: they go through no connector but over plain TCP to the host and
  port of the target, whatever the upstream asks for, so no certificate is checked for them.\<close>

theorem upstream_tls_follows_config:
  assumes "validate net url_parse cfg = Ok ()" "build_snapshot_inner api net mfb ba cfg wt = Ok snap"
    and "same_config snap snap'" "us \<in> set (cf_upstreams cfg)"
    and "build_client ru t = Ok client" "health_clients ru t = Some clients"
  shows "\<exists>u v. map_of (sn_upstreams snap') (us_name us) = Some u \<and>
    (\<forall>req i. request_transport dp client req u i =
       (if is_upgrade (dp_headers dp) req
        then map_option (\<lambda>(host, port). PlainTcp host port) (parse_authority (dp_uri dp) (tr_url (up_targets u ! i)))
        else Some (Through (probe_client clients u)))) \<and>
    hc_verifier (probe_client clients u) = v \<and>
    (\<not> us_tls_insecure_skip_verify us \<longrightarrow> native_roots ru = Ok v) \<and>
    (us_tls_insecure_skip_verify us \<longrightarrow>
       (\<forall>cert chain name ocsp now. verify_server_cert v cert chain name ocsp now = Ok ()) \<and>
       verify_tls12 v = ring_verify_tls12 ru \<and> verify_tls13 v = ring_verify_tls13 ru)"
proof -
  obtain u where u: "map_of (sn_upstreams snap') (us_name us) = Some u" "up_tls_insecure u = us_tls_insecure_skip_verify us"
    using built_upstream_in_service[OF assms(1-4)] by blast
  have conn: "https_connector ru t (up_tls_insecure u) = Ok (probe_client clients u)"
    using assms(6) by (simp add: health_clients_Some probe_client_def)
  have "request_transport dp client req u i =
       (if is_upgrade (dp_headers dp) req
        then map_option (\<lambda>(host, port). PlainTcp host port) (parse_authority (dp_uri dp) (tr_url (up_targets u ! i)))
        else Some (Through (probe_client clients u)))" for req i
    by (simp add: request_transport_def upgrade_transport_def clients_agree[OF assms(5,6)] split: option.split)
  then show ?thesis
    using u conn by (intro exI[of _ u] exI[of _ "hc_verifier (probe_client clients u)"]) (auto simp: https_connector_Ok NoVerify_def)
qed


section \<open>Witnesses\<close>

text \<open>A trust store with one certificate, and the example configuration.\<close>

definition example_rustls :: "(nat, nat) rustls_api" where
  "example_rustls =
     \<lparr>safe_default_protocols = Ok (),
      native_roots = Ok \<lparr>verify_server_cert = (\<lambda>c _ _ _ _. if c = 7 then Ok () else Err ''unknown issuer''),
        verify_tls12 = (\<lambda>_ c s. if s = c then Ok () else Err ''bad signature''),
        verify_tls13 = (\<lambda>_ c s. if s = c then Ok () else Err ''bad signature''), supported_verify_schemes = [1]\<rparr>,
      ring_verify_tls12 = (\<lambda>_ c s. if s = c then Ok () else Err ''bad signature''),
      ring_verify_tls13 = (\<lambda>_ c s. if s = c then Ok () else Err ''bad signature''), ring_schemes = [1]\<rparr>"

definition example_tls_client :: "(nat, nat) ProxyClient" where
  "example_tls_client = projr (build_client example_rustls 5)"

lemma example_tls_clients:
  "build_client example_rustls 5 = Ok example_tls_client"
  "health_clients example_rustls 5 = Some (pc_verify example_tls_client, pc_insecure example_tls_client)"
  by (simp_all add: example_tls_client_def build_client_def health_clients_def build_health_client_def https_connector_def example_rustls_def)

theorem upstream_tls_follows_config_witness:
  "\<exists>u c. map_of (sn_upstreams example_snapshot) ''up'' = Some u \<and>
     request_transport example_deps example_tls_client (example_request []) u 0 = Some (Through c) \<and>
     native_roots example_rustls = Ok (hc_verifier c)"
proof -
  have built: "build_snapshot_inner list_headers prefix_nets Some (\<lambda>_. Ok ()) example_config False = Ok example_snapshot"
  proof -
    have "\<not> isl (build_snapshot_inner list_headers prefix_nets Some (\<lambda>_. Ok () :: (unit, string) result) example_config False)"
      by code_simp
    then show ?thesis by (simp add: example_snapshot_def build_reload_snapshot_def)
  qed
  let ?us = "hd (cf_upstreams example_config)"
  have us: "?us \<in> set (cf_upstreams example_config)" "us_name ?us = ''up''" "\<not> us_tls_insecure_skip_verify ?us"
    by (simp_all add: example_config_def)
  have "\<not> is_upgrade (dp_headers example_deps) (example_request [])" by code_simp
  then show ?thesis
    using upstream_tls_follows_config[OF example_config_valid built same_config_refl us(1) example_tls_clients, of example_deps] us(2,3)
    by auto
qed

end
