(* ===== verification/Process.thy ===== *)
theory Process
  imports Core_App Server Upstream_Tls
begin

text \<open>
  The process (\<open>serve_connection\<close> and the tasks of \<open>serve_shared\<close> in \<open>gatepup-proxy/src/server.rs\<close>,
  \<open>serve\<close> of \<open>gatepup-admin/src/lib.rs\<close>, the end of \<open>serve\<close> in \<open>gatepup-core/src/app.rs\<close>): the
  requests of one connection, and all accept loops with the health supervisor from startup
  to the moment the process returns.
\<close>

section \<open>One connection\<close>

text \<open>
  What a connection captures; snapshot, limiter, metrics and client are shared. The listener
  is the one that accepted it, whatever a reload has changed since.
\<close>

record ConnCtx =
  cn_listener_name :: string
  cn_is_tls :: bool
  cn_remote :: socket_addr
  cn_limits :: ConnLimits

definition accept_ctx :: "'t bound_listener \<Rightarrow> socket_addr \<Rightarrow> ConnCtx" where
  "accept_ctx l remote =
     \<lparr>cn_listener_name = bl_name l, cn_is_tls = (bl_tls l \<noteq> None), cn_remote = remote, cn_limits = bl_limits l\<rparr>"

definition conn_service ::
  "('h, 'n, 'u) deps \<Rightarrow> ConnCtx \<Rightarrow> 'h env \<Rightarrow> ('n, 't) gateway \<Rightarrow> 'h request \<Rightarrow>
   'h response option \<times> ('n, 't) gateway \<times> (nat \<times> ('h, 'u) upstream_request) list" where
  "conn_service dp ctx ev gw req = handle dp ev gw req (cn_listener_name ctx) (cn_is_tls ctx) (cn_remote ctx)"

text \<open>
  HTTP/1 hands the requests of a connection over one at a time. Between two of them other
  tasks may change the shared state; \<open>others\<close> says how. A panic ends the connection.
\<close>

fun serve_connection ::
  "('h, 'n, 'u) deps \<Rightarrow> ConnCtx \<Rightarrow> ('n, 't) gateway \<Rightarrow>
   ('h env \<times> 'h request \<times> (('n, 't) gateway \<Rightarrow> ('n, 't) gateway)) list \<Rightarrow> 'h response list \<times> ('n, 't) gateway" where
  "serve_connection dp ctx gw [] = ([], gw)"
| "serve_connection dp ctx gw ((ev, req, others) # rs) =
     (case conn_service dp ctx ev gw req of
        (None, gw1, _) \<Rightarrow> ([], gw1)
      | (Some resp, gw1, _) \<Rightarrow>
          (let (resps, gw2) = serve_connection dp ctx (others gw1) rs in (resp # resps, gw2)))"

definition keeps_wf :: "(('n, 't) gateway \<Rightarrow> ('n, 't) gateway) \<Rightarrow> bool" where
  "keeps_wf others \<longleftrightarrow> (\<forall>g. snapshot_wf (gw_snapshot g) \<longrightarrow> snapshot_wf (gw_snapshot (others g)))"

lemma serve_connection_answers:
  assumes "snapshot_wf (gw_snapshot gw)"
    and "list_all (\<lambda>(_, _, others). keeps_wf others) rs"
  shows "length (fst (serve_connection dp ctx gw rs)) = length rs \<and> snapshot_wf (gw_snapshot (snd (serve_connection dp ctx gw rs)))"
  using assms
proof (induction rs arbitrary: gw)
  case (Cons r rs)
  obtain ev req others where r: "r = (ev, req, others)" by (cases r)
  obtain resp gw1 sent where h: "conn_service dp ctx ev gw req = (resp, gw1, sent)"
    by (cases "conn_service dp ctx ev gw req")
  note same = handle_same_config[OF Cons.prems(1) h[unfolded conn_service_def]]
  then obtain x where x: "resp = Some x" by blast
  have "snapshot_wf (gw_snapshot (others gw1))"
    using Cons.prems(2) snapshot_wf_same_config[OF Cons.prems(1) same(1)] r by (simp add: keeps_wf_def)
  then show ?case using Cons.IH[of "others gw1"] Cons.prems(2) by (simp add: r h x case_prod_unfold Let_def)
qed simp


section \<open>All tasks\<close>

text \<open>The accept loops (the admin server's last), and what \<open>try_join!\<close> waits for.\<close>

record process =
  pr_loops :: "(loop_kind \<times> accept_state) list"
  pr_shutdown :: bool
  pr_supervisor :: bool      \<comment> \<open>the health supervisor has not returned\<close>
  pr_returned :: bool

definition process_start :: "duration \<Rightarrow> bool \<Rightarrow> loop_kind list \<Rightarrow> process" where
  "process_start now supervisor kinds =
     \<lparr>pr_loops = map (\<lambda>k. (k, accept_start now)) kinds, pr_shutdown = False, pr_supervisor = supervisor, pr_returned = False\<rparr>"

text \<open>Binding does not suspend, so the proxy is up before the admin server binds.\<close>

definition start_servers ::
  "('c, 's) rustls_api \<Rightarrow> (socket_addr list \<Rightarrow> socket_addr \<Rightarrow> (unit, string) result) \<Rightarrow> duration \<Rightarrow> ('n, 't) service \<Rightarrow>
   (process, CoreError) result" where
  "start_servers ru bind_tcp now sv =
     (let snap = gw_snapshot (sv_gateway sv);
          supervisor = (health_clients ru (sn_connect_timeout snap) \<noteq> None);
          (loops, r) = serve_shared (build_client ru) bind_tcp snap;
          kinds = map (\<lambda>l. proxy_loop (bl_tls l \<noteq> None)) loops
      in case r of
           Err e \<Rightarrow> Err (Core_Proxy e)
         | Ok _ \<Rightarrow>
             (case sv_admin sv of
                None \<Rightarrow> Ok (process_start now supervisor kinds)
              | Some a \<Rightarrow>
                  (case bind_tcp (map bl_bind loops) (as_bind a) of
                     Err e \<Rightarrow> Err (Core_Admin (AdminBind (as_bind a) e))
                   | Ok _ \<Rightarrow> Ok (process_start now supervisor (kinds @ [admin_loop])))))"

definition set_loop :: "nat \<Rightarrow> accept_state \<Rightarrow> process \<Rightarrow> process" where
  "set_loop i s p = p\<lparr>pr_loops := (pr_loops p)[i := (fst (pr_loops p ! i), s)]\<rparr>"

text \<open>
  A termination signal reaches every receiver of the shutdown channel; a loop makes a step of
  its own; the supervisor ends on shutdown; time passes for all; and once every task has
  ended the process returns.
\<close>

inductive process_step :: "process \<Rightarrow> process \<Rightarrow> bool" where
  signal: "\<not> pr_returned p \<Longrightarrow> process_step p
    (p\<lparr>pr_shutdown := True, pr_loops := map (\<lambda>(k, s). (k, s\<lparr>ac_shutdown := True\<rparr>)) (pr_loops p)\<rparr>)"
| loop: "\<not> pr_returned p \<Longrightarrow> i < length (pr_loops p) \<Longrightarrow> pr_loops p ! i = (k, s) \<Longrightarrow> loop_step k s s' \<Longrightarrow>
    process_step p (set_loop i s' p)"
| supervisor: "\<not> pr_returned p \<Longrightarrow> pr_shutdown p \<Longrightarrow> process_step p (p\<lparr>pr_supervisor := False\<rparr>)"
| time: "\<not> pr_returned p \<Longrightarrow> \<forall>(k, s) \<in> set (pr_loops p). may_wait k d s \<Longrightarrow>
    process_step p (p\<lparr>pr_loops := map (\<lambda>(k, s). (k, s\<lparr>ac_now := ac_now s + d\<rparr>)) (pr_loops p)\<rparr>)"
| returns: "\<not> pr_supervisor p \<Longrightarrow> \<forall>(k, s) \<in> set (pr_loops p). ac_phase s = Closed \<Longrightarrow>
    process_step p (p\<lparr>pr_returned := True\<rparr>)"


section \<open>Invariant\<close>

definition process_inv :: "process \<Rightarrow> bool" where
  "process_inv p \<longleftrightarrow>
     (\<forall>(k, s) \<in> set (pr_loops p). accept_inv k s \<and> ac_shutdown s = pr_shutdown p) \<and>
     (\<not> pr_supervisor p \<longrightarrow> pr_shutdown p) \<and>
     (pr_returned p \<longrightarrow> \<not> pr_supervisor p \<and> (\<forall>(k, s) \<in> set (pr_loops p). ac_phase s = Closed))"

lemma process_inv_start: "process_inv (process_start now True kinds)"
  by (auto simp: process_inv_def process_start_def accept_inv_start) (simp add: accept_start_def)

lemma process_inv_loop:
  assumes "process_inv p" "\<not> pr_returned p" "i < length (pr_loops p)" "pr_loops p ! i = (k, s)" "loop_step k s s'"
  shows "process_inv (set_loop i s' p)"
proof -
  have "(k, s) \<in> set (pr_loops p)" using assms(3,4) nth_mem by metis
  then have "accept_inv k s" "ac_shutdown s = pr_shutdown p" using assms(1) by (auto simp: process_inv_def)
  then have "accept_inv k s'" "ac_shutdown s' = pr_shutdown p"
    using accept_inv_loop[OF assms(5)] loop_frame[OF assms(5)] by auto
  then show ?thesis using assms(1,2,4) set_update_subset_insert[of "pr_loops p" i "(k, s')"]
    by (fastforce simp: process_inv_def set_loop_def)
qed

lemma process_inv_step: "process_step p q \<Longrightarrow> process_inv p \<Longrightarrow> process_inv q"
proof (induction rule: process_step.induct)
  case (signal p)
  then show ?case by (auto simp: process_inv_def accept_inv_shutdown)
next
  case (loop p i k s s')
  then show ?case by (intro process_inv_loop)
next
  case (time p d)
  then show ?case by (fastforce simp: process_inv_def accept_inv_wait)
qed (auto simp: process_inv_def)

interpretation running: invariant_system "\<lambda>p. \<exists>now kinds. p = process_start now True kinds" process_step process_inv
  by unfold_locales (auto simp: process_inv_start intro: process_inv_step)


section \<open>Shutting down\<close>

lemma set_loop_simps [simp]:
  "pr_shutdown (set_loop i s p) = pr_shutdown p" "pr_supervisor (set_loop i s p) = pr_supervisor p"
  "pr_returned (set_loop i s p) = pr_returned p" "length (pr_loops (set_loop i s p)) = length (pr_loops p)"
  by (simp_all add: set_loop_def)

lemma set_loop_nth: "i < length (pr_loops p) \<Longrightarrow> pr_loops (set_loop i s p) ! j = (if j = i then (fst (pr_loops p ! i), s) else pr_loops p ! j)"
  by (simp add: set_loop_def nth_list_update)

lemma set_loop_set_loop: "i < length (pr_loops p) \<Longrightarrow> set_loop i s' (set_loop i s p) = set_loop i s' p"
  by (simp add: set_loop_def)

lemma set_loop_triv: "pr_loops p ! i = (k, s) \<Longrightarrow> set_loop i s p = p"
  using list_update_id[of "pr_loops p" i] by (simp add: set_loop_def)

lemma loop_steps_process:
  assumes "(loop_step k)\<^sup>*\<^sup>* s t" "\<not> pr_returned p" "i < length (pr_loops p)" "pr_loops p ! i = (k, s)"
  shows "process_step\<^sup>*\<^sup>* p (set_loop i t p)"
  using assms(1)
proof (induction rule: rtranclp_induct)
  case base
  then show ?case using assms(4) by (simp add: set_loop_triv)
next
  case (step t u)
  have "process_step (set_loop i t p) (set_loop i u (set_loop i t p))"
    using assms(2-4) step.hyps(2) by (intro process_step.loop[where k = k and s = t]) (simp_all add: set_loop_nth)
  then show ?case using step.IH assms(3) by (simp add: set_loop_set_loop)
qed

definition clocks :: "process \<Rightarrow> duration list" where
  "clocks p = map (\<lambda>(k, s). ac_now s) (pr_loops p)"

lemma clocks_length: "clocks q = clocks p \<Longrightarrow> length (pr_loops q) = length (pr_loops p)"
  unfolding clocks_def by (metis length_map)

text \<open>The loops can be closed one after another, without time passing.\<close>

lemma loops_close:
  assumes "process_inv p" "pr_shutdown p" "\<not> pr_returned p" "n \<le> length (pr_loops p)"
  shows "\<exists>q. process_step\<^sup>*\<^sup>* p q \<and> process_inv q \<and> pr_shutdown q \<and> \<not> pr_returned q \<and>
    clocks q = clocks p \<and> (\<forall>i < n. ac_phase (snd (pr_loops q ! i)) = Closed)"
  using assms(4)
proof (induction n)
  case 0
  then show ?case using assms by blast
next
  case (Suc n)
  then obtain q where q: "process_step\<^sup>*\<^sup>* p q" "process_inv q" "pr_shutdown q" "\<not> pr_returned q"
    "clocks q = clocks p" "\<forall>i < n. ac_phase (snd (pr_loops q ! i)) = Closed"
    by auto
  have n: "n < length (pr_loops q)" using Suc.prems clocks_length[OF q(5)] by simp
  obtain k s where ks: "pr_loops q ! n = (k, s)" by (cases "pr_loops q ! n")
  then have "ac_shutdown s" using q(2,3) n nth_mem[OF n] by (auto simp: process_inv_def)
  then obtain t where t: "(loop_step k)\<^sup>*\<^sup>* s t" "ac_phase t = Closed" using loop_closes by blast
  have steps: "process_step\<^sup>*\<^sup>* q (set_loop n t q)" by (rule loop_steps_process[OF t(1) q(4) n ks])
  have "ac_now t = ac_now s" using loop_steps_frame[OF t(1)] by simp
  then have "clocks (set_loop n t q) = clocks q"
    using ks n by (auto simp: clocks_def set_loop_nth intro!: nth_equalityI)
  then show ?case using q t(2) n steps running.inv_steps[OF steps q(2)]
    by (intro exI[of _ "set_loop n t q"]) (auto simp: set_loop_nth less_Suc_eq)
qed

lemma process_returns:
  assumes "process_inv p" "pr_shutdown p" "\<not> pr_returned p"
  shows "\<exists>q. process_step\<^sup>*\<^sup>* p q \<and> pr_returned q \<and> clocks q = clocks p"
proof -
  obtain q where q: "process_step\<^sup>*\<^sup>* p q" "pr_shutdown q" "\<not> pr_returned q"
    "clocks q = clocks p" "\<forall>i < length (pr_loops p). ac_phase (snd (pr_loops q ! i)) = Closed"
    using loops_close[OF assms order_refl] by blast
  let ?q = "q\<lparr>pr_supervisor := False\<rparr>"
  have "\<forall>(k, s) \<in> set (pr_loops q). ac_phase s = Closed"
    using q(5) clocks_length[OF q(4)] by (fastforce simp: in_set_conv_nth)
  then have "process_step ?q (?q\<lparr>pr_returned := True\<rparr>)" by (intro process_step.returns) simp_all
  moreover have "process_step q ?q" using q(2,3) by (intro process_step.supervisor)
  ultimately have "process_step\<^sup>*\<^sup>* p (?q\<lparr>pr_returned := True\<rparr>)"
    using q(1) by (meson rtranclp.rtrancl_into_rtrancl)
  then show ?thesis using q(4) by (intro exI[of _ "?q\<lparr>pr_returned := True\<rparr>"]) (simp add: clocks_def)
qed

text \<open>A process whose servers started runs its supervisor: the same clients were built before.\<close>

lemma start_servers_supervised:
  assumes "start_servers ru bind_tcp now sv = Ok p"
  shows "\<exists>kinds. p = process_start now True kinds"
proof -
  let ?t = "sn_connect_timeout (gw_snapshot (sv_gateway sv))"
  have "\<exists>c. build_client ru ?t = Ok c"
    using assms by (auto simp: start_servers_def serve_shared_def Let_def case_prod_unfold split: sum.splits)
  then obtain c where "build_client ru ?t = Ok c" ..
  then have "health_clients ru ?t = Some (pc_verify c, pc_insecure c)"
    by (simp add: health_clients_Some build_client_Ok)
  then show ?thesis using assms
    by (auto simp: start_servers_def Let_def case_prod_unfold split: sum.splits option.splits)
qed


section \<open>Properties\<close>

text \<open>C18. The process runs until it is told to stop, and then stops in time: once its servers have
  started, no accept loop leaves its accepting state and the process does not return before a
  termination signal; after one, every loop drains for at most its timeout, the process can
  always return, and when it returns every loop is closed and no proxied connection is left.\<close>

theorem process_stops_only_when_told:
  assumes "start_servers ru bind_tcp start sv = Ok p0" "process_step\<^sup>*\<^sup>* p0 p"
  shows "(\<not> pr_shutdown p \<longrightarrow> \<not> pr_returned p \<and> (\<forall>(k, s) \<in> set (pr_loops p). ac_phase s = Accepting)) \<and>
    (\<forall>(k, s) \<in> set (pr_loops p). \<forall>since. ac_phase s = Draining since \<longrightarrow> ac_now s \<le> since + lk_drain k) \<and>
    (pr_shutdown p \<and> \<not> pr_returned p \<longrightarrow> (\<exists>q. process_step\<^sup>*\<^sup>* p q \<and> pr_returned q \<and> clocks q = clocks p)) \<and>
    (pr_returned p \<longrightarrow> (\<forall>(k, s) \<in> set (pr_loops p). ac_phase s = Closed \<and> (lk_own_drain k \<longrightarrow> ac_conns s = [])))"
proof -
  have inv: "process_inv p" using running.inv_reachable[OF _ assms(2)] start_servers_supervised[OF assms(1)] by blast
  then have "accept_inv k s \<and> ac_shutdown s = pr_shutdown p" if "(k, s) \<in> set (pr_loops p)" for k s
    using that by (auto simp: process_inv_def)
  then have "(\<forall>(k, s) \<in> set (pr_loops p). \<not> pr_shutdown p \<longrightarrow> ac_phase s = Accepting) \<and>
      (\<forall>(k, s) \<in> set (pr_loops p). \<forall>since. ac_phase s = Draining since \<longrightarrow> ac_now s \<le> since + lk_drain k) \<and>
      (\<forall>(k, s) \<in> set (pr_loops p). ac_phase s = Closed \<and> lk_own_drain k \<longrightarrow> ac_conns s = [])"
    by (auto simp: accept_inv_def)
  then show ?thesis using inv process_returns[OF inv] by (fastforce simp: process_inv_def)
qed

text \<open>Every request of a connection is answered, in order, whatever other tasks do to the shared
  state in between, as long as they keep it well formed.\<close>

theorem connection_answers_every_request:
  assumes "snapshot_wf (gw_snapshot gw)"
    and "list_all (\<lambda>(_, _, others). keeps_wf others) rs"
  shows "length (fst (serve_connection dp ctx gw rs)) = length rs"
  using serve_connection_answers[OF assms] by blast


section \<open>Witnesses\<close>

lemma example_start: "\<exists>sv p. serve example_platform example_config = Ok sv \<and> start_servers example_rustls (\<lambda>_ _. Ok ()) 0 sv = Ok p"
proof -
  obtain sv where sv: "serve example_platform example_config = Ok sv" using example_serves by blast
  have bind: "snd (bind_listeners (\<lambda>_ _. Ok ()) limits bound ls) = Ok ()" for limits bound and ls :: "('a, 'b) ListenerRuntime list"
    by (induction ls arbitrary: bound) (simp_all add: case_prod_unfold Let_def)
  have "\<exists>c. build_client example_rustls t = Ok c" for t
    by (simp add: build_client_def https_connector_def example_rustls_def)
  then have "\<exists>p. start_servers example_rustls (\<lambda>_ _. Ok ()) 0 sv = Ok p"
  proof -
    obtain c where "build_client example_rustls (sn_connect_timeout (gw_snapshot (sv_gateway sv))) = Ok c"
      using \<open>\<And>t. \<exists>c. build_client example_rustls t = Ok c\<close> by blast
    then show ?thesis by (simp add: start_servers_def serve_shared_def Let_def case_prod_unfold bind split: option.split)
  qed
  then show ?thesis using sv by blast
qed

theorem process_stops_only_when_told_witness:
  "\<exists>sv p0 p q. serve example_platform example_config = Ok sv \<and> start_servers example_rustls (\<lambda>_ _. Ok ()) 0 sv = Ok p0 \<and>
     process_step\<^sup>*\<^sup>* p0 p \<and> pr_shutdown p \<and> process_step\<^sup>*\<^sup>* p q \<and> pr_returned q"
proof -
  obtain sv p0 where p0: "serve example_platform example_config = Ok sv" "start_servers example_rustls (\<lambda>_ _. Ok ()) 0 sv = Ok p0"
    using example_start by blast
  let ?p = "p0\<lparr>pr_shutdown := True, pr_loops := map (\<lambda>(k, s). (k, s\<lparr>ac_shutdown := True\<rparr>)) (pr_loops p0)\<rparr>"
  have run: "\<not> pr_returned p0" using start_servers_supervised[OF p0(2)] by (auto simp: process_start_def)
  then have step: "process_step\<^sup>*\<^sup>* p0 ?p" by (intro r_into_rtranclp process_step.signal)
  have "pr_shutdown ?p" "\<not> pr_returned ?p" using run by simp_all
  then obtain q where "process_step\<^sup>*\<^sup>* ?p q" "pr_returned q"
    using process_stops_only_when_told[OF p0(2) step] by blast
  then show ?thesis using p0 step \<open>pr_shutdown ?p\<close> by blast
qed

theorem connection_answers_every_request_witness:
  "length (fst (serve_connection example_deps \<lparr>cn_listener_name = ''web'', cn_is_tls = True, cn_remote = example_client,
      cn_limits = conn_limits example_snapshot\<rparr> example_gateway
      [(example_env [Answered example_answer], example_request [], \<lambda>g. g\<lparr>gw_limiter := RateLimiter_new\<rparr>),
       (example_env [Answered example_answer], example_request [], id)])) = 2"
proof -
  let ?rs = "[(example_env [Answered example_answer], example_request [], \<lambda>g. g\<lparr>gw_limiter := RateLimiter_new\<rparr>),
    (example_env [Answered example_answer], example_request [], id)]"
  have "list_all (\<lambda>(_, _, others). keeps_wf others) ?rs" by (simp add: keeps_wf_def)
  note connection_answers_every_request[OF example_snapshot_wf this]
  then show ?thesis by (metis (no_types, lifting) length_Cons list.size(3) numeral_2_eq_2)
qed

end
