(* ===== verification/Shared_Buckets.thy ===== *)
theory Shared_Buckets
  imports Gateway
begin

text \<open>
  Two listeners and one rate limit: a bucket belongs to a route name and a client, not to a
  listener, and names have to be unique within a listener only.
\<close>

definition limited_route :: RouteConfig where
  "limited_route = (example_route ''api'' None (Some ''/''))\<lparr>rt_rate_limit := Some \<lparr>rl_requests_per_second = Fin 1, rl_burst = 0\<rparr>\<rparr>"

definition two_listeners :: GatePupConfig where
  "two_listeners = example_config\<lparr>cf_listeners :=
     [\<lparr>ls_name = ''a'', ls_bind = ''0.0.0.0:80'', ls_protocol = Http, ls_tls = None, ls_routes = [limited_route]\<rparr>,
      \<lparr>ls_name = ''b'', ls_bind = ''0.0.0.0:81'', ls_protocol = Http, ls_tls = None, ls_routes = [limited_route]\<rparr>]\<rparr>"

abbreviation compiled_route :: "(ip_addr \<times> nat) CompiledRoute" where
  "compiled_route \<equiv> CompiledRoute_of list_headers prefix_nets limited_route"

lemma compiled_route_fields:
  "cr_name compiled_route = ''api''" "cr_rate_limit compiled_route = Some \<lparr>rlim_rate = Fin 1, rlim_capacity = Fin 1\<rparr>"
  "cr_basic_auth compiled_route = None" "cr_upstream compiled_route = ''up''"
  "IpAccess_allows net (cr_ip_access compiled_route) ip" "match_route [compiled_route] ''a.com'' ''/x'' = Some compiled_route"
  by (simp_all add: CompiledRoute_of_def limited_route_def example_route_def Let_def RateLimit_compile_def f64_ceil_def f64_max_def
      IpAccess_default_def IpAccess_allows_def match_route_def route_matches_def HostMatch_compile_def)

lemma two_listeners_built:
  "\<exists>s addr_a addr_b u. build_reload_snapshot list_headers prefix_nets Some ba two_listeners = Ok s \<and>
     sn_listeners s = [\<lparr>lr_name = ''a'', lr_bind = addr_a, lr_router = [compiled_route], lr_tls = None\<rparr>,
       \<lparr>lr_name = ''b'', lr_bind = addr_b, lr_router = [compiled_route], lr_tls = None\<rparr>] \<and>
     map_of (sn_upstreams s) ''up'' = Some u"
proof -
  have "parse_socket_addr ''0.0.0.0:80'' \<noteq> None" "parse_socket_addr ''0.0.0.0:81'' \<noteq> None" by code_simp+
  then show ?thesis
    by (auto simp: build_reload_snapshot_def build_snapshot_inner_def two_listeners_def build_listener_def Let_def
        Router_build_def example_config_def build_upstreams_def)
qed

lemma second_call_refused:
  assumes "call = check hash ''api'' ip (Fin 1) (Fin 1) 0"
  shows "fst (call RateLimiter_new)" "\<not> fst (call (snd (call RateLimiter_new)))"
proof -
  have "params_ok (1, 1)" using rnd_of_nat[of 1] by (simp add: params_ok_def)
  then have "fst (run_checks hash (replicate 2 (call_at (\<lambda>_. (1, 1)) 0 (''api'', ip))) RateLimiter_new) = [True, False]"
    using burst_checks[where par = "\<lambda>_. (1, 1)" and k = "(''api'', ip)" and c = 1 and n = 2 and now = 0 and hash = hash]
    by (simp add: upt_rec numeral_2_eq_2)
  then show "fst (call RateLimiter_new)" "\<not> fst (call (snd (call RateLimiter_new)))"
    using assms by (simp_all add: numeral_2_eq_2 case_prod_unfold Let_def)
qed

text \<open>
  A configuration that validates, in which a client's first request to one listener is
  refused because of its request to the other.
\<close>

theorem same_named_routes_share_a_bucket:
  "\<exists>s. validate prefix_nets example_url_parse two_listeners = Ok () \<and>
     build_reload_snapshot list_headers prefix_nets Some (\<lambda>_. Ok () :: (unit, string) result) two_listeners = Ok s \<and>
     (\<forall>ip. let first = admit example_deps s RateLimiter_new 0 ''a'' (example_request []) ''a.com'' ip;
               second = admit example_deps s (snd first) 0 ''b'' (example_request []) ''a.com'' ip
           in \<not> isl (fst first) \<and> fst second = Err TooManyRequests)"
proof -
  have valid: "validate prefix_nets example_url_parse two_listeners = Ok ()" by code_simp
  obtain s addr_a addr_b u where s: "build_reload_snapshot list_headers prefix_nets Some (\<lambda>_. Ok () :: (unit, string) result) two_listeners = Ok s"
     "sn_listeners s = [\<lparr>lr_name = ''a'', lr_bind = addr_a, lr_router = [compiled_route], lr_tls = None\<rparr>,
       \<lparr>lr_name = ''b'', lr_bind = addr_b, lr_router = [compiled_route], lr_tls = None\<rparr>]"
     "map_of (sn_upstreams s) ''up'' = Some u"
    using two_listeners_built[of "\<lambda>_. Ok ()"] by blast
  have req: "rq_path (example_request []) = ''/x''" by (simp add: example_request_def)
  have "\<not> isl (fst (admit example_deps s RateLimiter_new 0 ''a'' (example_request []) ''a.com'' ip)) \<and>
    fst (admit example_deps s (snd (admit example_deps s RateLimiter_new 0 ''a'' (example_request []) ''a.com'' ip)) 0 ''b''
      (example_request []) ''a.com'' ip) = Err TooManyRequests" for ip
    using second_call_refused[OF refl, of "dp_hash example_deps" ip]
    by (simp add: admit_def s(2,3) compiled_route_fields req case_prod_unfold Let_def)
  then show ?thesis using valid s(1) by (simp add: Let_def)
qed

end
