(* ===== verification/Validator_Tests.thy ===== *)
theory Validator_Tests
  imports Snapshot
begin

text \<open>
  The unit tests of \<open>gatepup-config/src/validator.rs\<close>, run on the model: one definition per test,
  with the edits the test makes to \<open>valid_config\<close> and the assertions on the result. Networks
  are the executable ones of \<open>Http_Api\<close>; \<open>url::Url::parse\<close> is replaced by a parser that splits
  scheme and host and rejects what has no scheme, as the tests need.
\<close>

section \<open>Fixtures\<close>

definition tests_url_parse :: "string \<Rightarrow> (string \<times> bool) option" where
  "tests_url_parse raw =
     (let scheme = takeWhile (\<lambda>c. c \<noteq> CHR '':'') raw; rest = drop (length scheme) raw
      in if scheme \<noteq> [] \<and> prefix ''://'' rest then Some (scheme, 3 < length rest) else None)"

definition tests_target :: "string \<Rightarrow> TargetConfig" where
  "tests_target url = \<lparr>tg_url = url, tg_weight = 1\<rparr>"

definition tests_upstream :: "string \<Rightarrow> TargetConfig list \<Rightarrow> UpstreamConfig" where
  "tests_upstream name targets =
     \<lparr>us_name = name, us_load_balancing = RoundRobin, us_targets = targets, us_health_check = None, us_retries = None,
      us_tls_insecure_skip_verify = False\<rparr>"

definition tests_route :: "string \<Rightarrow> string \<Rightarrow> string \<Rightarrow> RouteConfig" where
  "tests_route name host upstream =
     \<lparr>rt_name = name, rt_matcher = \<lparr>mt_host = Some host, mt_path_prefix = Some ''/''\<rparr>, rt_upstream = upstream,
      rt_strip_prefix = False, rt_headers = None, rt_ip_access = None, rt_rate_limit = None, rt_basic_auth = None\<rparr>"

definition valid_config :: GatePupConfig where
  "valid_config =
     \<lparr>cf_app = \<lparr>app_name = ''gatepup'', app_log_level = ''info''\<rparr>,
      cf_listeners = [\<lparr>ls_name = ''public'', ls_bind = ''0.0.0.0:80'', ls_protocol = Http, ls_tls = None,
        ls_routes = [tests_route ''api'' ''api.example.com'' ''api'']\<rparr>],
      cf_upstreams = [tests_upstream ''api'' [tests_target ''http://api-1:4000'']],
      cf_timeouts = TimeoutConfig_default, cf_limits = LimitsConfig_default, cf_trusted_proxies = [],
      cf_compression = None, cf_admin = None, cf_metrics = None\<rparr>"

definition enabled_retries :: "u32 \<Rightarrow> string list \<Rightarrow> string list \<Rightarrow> RetryConfig" where
  "enabled_retries attempts methods retry_on =
     \<lparr>re_enabled = True, re_attempts = attempts, re_methods = methods, re_retry_on = retry_on\<rparr>"

text \<open>The edits: \<open>cfg.listeners[0]\<close>, \<open>cfg.listeners[0].routes[0]\<close>, \<open>cfg.upstreams[0]\<close>.\<close>

definition with_listener :: "(ListenerConfig \<Rightarrow> ListenerConfig) \<Rightarrow> GatePupConfig" where
  "with_listener f = valid_config\<lparr>cf_listeners := map f (cf_listeners valid_config)\<rparr>"

definition with_route :: "(RouteConfig \<Rightarrow> RouteConfig) \<Rightarrow> GatePupConfig" where
  "with_route f = with_listener (\<lambda>l. l\<lparr>ls_routes := map f (ls_routes l)\<rparr>)"

definition with_upstream :: "(UpstreamConfig \<Rightarrow> UpstreamConfig) \<Rightarrow> GatePupConfig" where
  "with_upstream f = valid_config\<lparr>cf_upstreams := map f (cf_upstreams valid_config)\<rparr>"

definition passes_validation :: "GatePupConfig \<Rightarrow> bool" where
  "passes_validation cfg = (validate prefix_nets tests_url_parse cfg = Ok ())"

definition validation_fails :: "(ValidationError list \<Rightarrow> bool) \<Rightarrow> GatePupConfig \<Rightarrow> bool" where
  "validation_fails P cfg = (case validate prefix_nets tests_url_parse cfg of Err errors \<Rightarrow> P errors | Ok _ \<Rightarrow> False)"

definition rejected_with :: "ValidationError \<Rightarrow> GatePupConfig \<Rightarrow> bool" where
  "rejected_with e = validation_fails (\<lambda>errors. e \<in> set errors)"


section \<open>Tests\<close>

definition accepts_a_valid_config :: bool where
  "accepts_a_valid_config \<longleftrightarrow>
     (passes_validation valid_config)"

definition rejects_unknown_upstream :: bool where
  "rejects_unknown_upstream \<longleftrightarrow>
     (rejected_with (UnknownUpstream ''api'' ''missing'') (with_route (\<lambda>r. r\<lparr>rt_upstream := ''missing''\<rparr>)))"

definition rejects_duplicate_upstream_names :: bool where
  "rejects_duplicate_upstream_names \<longleftrightarrow>
     (rejected_with (DuplicateUpstreamName ''api'')
      (valid_config\<lparr>cf_upstreams := cf_upstreams valid_config @ [tests_upstream ''api'' [tests_target ''http://api-2:4000'']]\<rparr>))"

definition rejects_duplicate_route_names_in_listener :: bool where
  "rejects_duplicate_route_names_in_listener \<longleftrightarrow>
     (rejected_with (DuplicateRouteName ''public'' ''api'')
      (with_listener (\<lambda>l. l\<lparr>ls_routes := ls_routes l @ [tests_route ''api'' ''other.example.com'' ''api'']\<rparr>)))"

definition rejects_invalid_bind :: bool where
  "rejects_invalid_bind \<longleftrightarrow>
     (rejected_with (InvalidBind ''public'' ''not-an-address'') (with_listener (\<lambda>l. l\<lparr>ls_bind := ''not-an-address''\<rparr>)))"

definition rejects_empty_targets :: bool where
  "rejects_empty_targets \<longleftrightarrow>
     (rejected_with (EmptyTargets ''api'') (with_upstream (\<lambda>u. u\<lparr>us_targets := []\<rparr>)))"

definition rejects_invalid_target_url :: bool where
  "rejects_invalid_target_url \<longleftrightarrow>
     (rejected_with (InvalidTargetUrl ''api'' ''://broken'')
      (with_upstream (\<lambda>u. u\<lparr>us_targets := map (\<lambda>t. t\<lparr>tg_url := ''://broken''\<rparr>) (us_targets u)\<rparr>)))"

definition rejects_empty_route_match :: bool where
  "rejects_empty_route_match \<longleftrightarrow>
     (rejected_with (EmptyRouteMatch ''public'' ''api'')
      (with_route (\<lambda>r. r\<lparr>rt_matcher := \<lparr>mt_host = None, mt_path_prefix = None\<rparr>\<rparr>)))"

definition rejects_health_timeout_not_less_than_interval :: bool where
  "rejects_health_timeout_not_less_than_interval \<longleftrightarrow>
     (rejected_with (HealthTimeoutNotLessThanInterval ''api'' 2000 1000)
      (with_upstream (\<lambda>u. u\<lparr>us_health_check := Some \<lparr>hc_enabled = True, hc_path = ''/health'', hc_interval_seconds = 1,
         hc_timeout_ms = 2000, hc_healthy_threshold = 2, hc_unhealthy_threshold = 3\<rparr>\<rparr>)))"

definition rejects_invalid_log_level :: bool where
  "rejects_invalid_log_level \<longleftrightarrow>
     (rejected_with (InvalidLogLevel ''verbose'')
      (valid_config\<lparr>cf_app := (cf_app valid_config)\<lparr>app_log_level := ''verbose''\<rparr>\<rparr>))"

definition accepts_log_level_case_insensitively :: bool where
  "accepts_log_level_case_insensitively \<longleftrightarrow>
     (passes_validation (valid_config\<lparr>cf_app := (cf_app valid_config)\<lparr>app_log_level := ''INFO''\<rparr>\<rparr>))"

definition rejects_path_prefix_without_leading_slash :: bool where
  "rejects_path_prefix_without_leading_slash \<longleftrightarrow>
     (rejected_with (InvalidPathPrefix ''public'' ''api'' ''api'')
      (with_route (\<lambda>r. r\<lparr>rt_matcher := (rt_matcher r)\<lparr>mt_path_prefix := Some ''api''\<rparr>\<rparr>)))"

definition accepts_valid_wildcard_host :: bool where
  "accepts_valid_wildcard_host \<longleftrightarrow>
     (passes_validation (with_route (\<lambda>r. r\<lparr>rt_matcher := (rt_matcher r)\<lparr>mt_host := Some ''*.example.com''\<rparr>\<rparr>)))"

definition rejects_invalid_wildcard_host :: bool where
  "rejects_invalid_wildcard_host \<longleftrightarrow>
     (rejected_with (InvalidWildcardHost ''public'' ''api'' ''api.*.com'')
      (with_route (\<lambda>r. r\<lparr>rt_matcher := (rt_matcher r)\<lparr>mt_host := Some ''api.*.com''\<rparr>\<rparr>)))"

definition rejects_conflicting_routes_with_same_match :: bool where
  "rejects_conflicting_routes_with_same_match \<longleftrightarrow>
     (rejected_with (ConflictingRoutes ''public'' ''api'' ''api2'')
      (with_listener (\<lambda>l. l\<lparr>ls_routes := ls_routes l @ [tests_route ''api2'' ''api.example.com'' ''api'']\<rparr>)))"

definition rejects_zero_weight_target :: bool where
  "rejects_zero_weight_target \<longleftrightarrow>
     (rejected_with (ZeroWeight ''api'' ''http://api-1:4000'')
      (with_upstream (\<lambda>u. u\<lparr>us_targets := map (\<lambda>t. t\<lparr>tg_weight := 0\<rparr>) (us_targets u)\<rparr>)))"

definition accepts_https_listener_with_tls :: bool where
  "accepts_https_listener_with_tls \<longleftrightarrow>
     (passes_validation
      (with_listener (\<lambda>l. l\<lparr>ls_protocol := Https, ls_tls := Some \<lparr>tls_cert = ''/c.pem'', tls_key = ''/k.pem''\<rparr>\<rparr>)))"

definition rejects_https_without_tls :: bool where
  "rejects_https_without_tls \<longleftrightarrow>
     (rejected_with (MissingTls ''public'') (with_listener (\<lambda>l. l\<lparr>ls_protocol := Https\<rparr>)))"

definition rejects_http_listener_with_tls :: bool where
  "rejects_http_listener_with_tls \<longleftrightarrow>
     (rejected_with (UnexpectedTls ''public'')
      (with_listener (\<lambda>l. l\<lparr>ls_tls := Some \<lparr>tls_cert = ''/c.pem'', tls_key = ''/k.pem''\<rparr>\<rparr>)))"

definition rejects_empty_tls_paths :: bool where
  "rejects_empty_tls_paths \<longleftrightarrow>
     (let cfg = with_listener (\<lambda>l. l\<lparr>ls_protocol := Https, ls_tls := Some \<lparr>tls_cert = [], tls_key = []\<rparr>\<rparr>)
      in rejected_with (EmptyTlsPath ''public'' ''cert'') cfg \<and> rejected_with (EmptyTlsPath ''public'' ''key'') cfg)"

definition accepts_valid_retries :: bool where
  "accepts_valid_retries \<longleftrightarrow>
     (passes_validation (with_upstream (\<lambda>u. u\<lparr>us_retries :=
      Some (enabled_retries 2 [''GET'', ''HEAD''] [''connect_error'', ''upstream_5xx''])\<rparr>)))"

definition disabled_retries_skip_validation :: bool where
  "disabled_retries_skip_validation \<longleftrightarrow>
     (passes_validation (with_upstream (\<lambda>u. u\<lparr>us_retries :=
      Some \<lparr>re_enabled = False, re_attempts = 0, re_methods = [''NOPE''], re_retry_on = [''bogus'']\<rparr>\<rparr>)))"

definition rejects_zero_retry_attempts :: bool where
  "rejects_zero_retry_attempts \<longleftrightarrow>
     (rejected_with (InvalidRetryAttempts ''api'')
      (with_upstream (\<lambda>u. u\<lparr>us_retries := Some (enabled_retries 0 [''GET''] [''connect_error''])\<rparr>)))"

definition rejects_invalid_retry_method :: bool where
  "rejects_invalid_retry_method \<longleftrightarrow>
     (rejected_with (InvalidRetryMethod ''api'' ''FETCH'')
      (with_upstream (\<lambda>u. u\<lparr>us_retries := Some (enabled_retries 2 [''FETCH''] [''connect_error''])\<rparr>)))"

definition rejects_invalid_retry_on_condition :: bool where
  "rejects_invalid_retry_on_condition \<longleftrightarrow>
     (rejected_with (InvalidRetryOn ''api'' ''upstream_4xx'')
      (with_upstream (\<lambda>u. u\<lparr>us_retries := Some (enabled_retries 2 [''GET''] [''upstream_4xx''])\<rparr>)))"

definition rejects_zero_timeouts :: bool where
  "rejects_zero_timeouts \<longleftrightarrow>
     (rejected_with (ZeroTimeout ''requestTimeoutMs'')
      (valid_config\<lparr>cf_timeouts := (cf_timeouts valid_config)\<lparr>tmo_request_timeout_ms := 0\<rparr>\<rparr>))"

definition rejects_too_small_max_header_bytes :: bool where
  "rejects_too_small_max_header_bytes \<longleftrightarrow>
     (rejected_with (MaxHeaderBytesTooSmall 4096)
      (valid_config\<lparr>cf_limits := (cf_limits valid_config)\<lparr>lim_max_header_bytes := 4096\<rparr>\<rparr>))"

definition accepts_zero_or_valid_max_header_bytes :: bool where
  "accepts_zero_or_valid_max_header_bytes \<longleftrightarrow>
     (passes_validation (valid_config\<lparr>cf_limits := (cf_limits valid_config)\<lparr>lim_max_header_bytes := 0\<rparr>\<rparr>) \<and>
      passes_validation (valid_config\<lparr>cf_limits := (cf_limits valid_config)\<lparr>lim_max_header_bytes := 8192\<rparr>\<rparr>))"

definition accepts_any_body_and_header_timeout_limits :: bool where
  "accepts_any_body_and_header_timeout_limits \<longleftrightarrow>
     (passes_validation
      (valid_config\<lparr>cf_limits := (cf_limits valid_config)\<lparr>lim_max_body_bytes := 1, lim_header_read_timeout_ms := 0\<rparr>\<rparr>))"

definition rejects_invalid_trusted_proxy :: bool where
  "rejects_invalid_trusted_proxy \<longleftrightarrow>
     (rejected_with (InvalidTrustedProxy ''not-an-ip'') (valid_config\<lparr>cf_trusted_proxies := [''10.0.0.0/8'', ''not-an-ip'']\<rparr>))"

definition accepts_cidr_and_bare_ip_trusted_proxies :: bool where
  "accepts_cidr_and_bare_ip_trusted_proxies \<longleftrightarrow>
     (passes_validation (valid_config\<lparr>cf_trusted_proxies := [''10.0.0.0/8'', ''192.168.1.1'', ''::1'', ''fd00::/8'']\<rparr>))"

definition parse_trusted_proxy_bare_ip_is_single_host :: bool where
  "parse_trusted_proxy_bare_ip_is_single_host \<longleftrightarrow>
     (case parse_trusted_proxy prefix_nets ''203.0.113.7'' of
        None \<Rightarrow> False
      | Some net \<Rightarrow>
          snd net = 32 \<and>
          (case parse_ip ''203.0.113.7'' of Some ip \<Rightarrow> net_contains prefix_nets net ip | None \<Rightarrow> False) \<and>
          (case parse_ip ''203.0.113.8'' of Some ip \<Rightarrow> \<not> net_contains prefix_nets net ip | None \<Rightarrow> False))"

definition rejects_invalid_header_name_and_value :: bool where
  "rejects_invalid_header_name_and_value \<longleftrightarrow>
     (let cfg = with_route (\<lambda>r. r\<lparr>rt_headers := Some \<lparr>
          hr_request = \<lparr>ho_set = [(''bad header'', ''ok''), (''x-ok'', ''bad'' @ [char_of (13::nat), char_of (10::nat)] @ ''value'')], ho_remove = []\<rparr>,
          hr_response = \<lparr>ho_set = [], ho_remove = []\<rparr>\<rparr>\<rparr>)
      in validation_fails (list_ex (\<lambda>e. case e of InvalidHeaderName _ _ _ \<Rightarrow> True | _ \<Rightarrow> False)) cfg \<and>
         validation_fails (list_ex (\<lambda>e. case e of InvalidHeaderValue _ _ _ \<Rightarrow> True | _ \<Rightarrow> False)) cfg)"

definition accepts_valid_header_rules :: bool where
  "accepts_valid_header_rules \<longleftrightarrow>
     (passes_validation (with_route (\<lambda>r. r\<lparr>rt_headers := Some \<lparr>
        hr_request = \<lparr>ho_set = [], ho_remove = []\<rparr>,
        hr_response = \<lparr>ho_set = [(''X-Frame-Options'', ''DENY'')], ho_remove = [''Server'']\<rparr>\<rparr>\<rparr>)))"

definition rejects_invalid_ip_access_cidr :: bool where
  "rejects_invalid_ip_access_cidr \<longleftrightarrow>
     (validation_fails (list_ex (\<lambda>e. case e of InvalidIpAccessCidr _ _ _ _ \<Rightarrow> True | _ \<Rightarrow> False))
      (with_route (\<lambda>r. r\<lparr>rt_ip_access := Some \<lparr>ip_allow = [''10.0.0.0/8''], ip_deny = [''nonsense'']\<rparr>\<rparr>)))"

definition accepts_valid_ip_access :: bool where
  "accepts_valid_ip_access \<longleftrightarrow>
     (passes_validation (with_route (\<lambda>r. r\<lparr>rt_ip_access :=
      Some \<lparr>ip_allow = [''10.0.0.0/8'', ''192.168.1.1''], ip_deny = [''10.0.0.5'', ''fd00::/8'']\<rparr>\<rparr>)))"

definition rejects_nonpositive_rate_limit :: bool where
  "rejects_nonpositive_rate_limit \<longleftrightarrow>
     (validation_fails (list_ex (\<lambda>e. case e of InvalidRateLimit _ _ _ \<Rightarrow> True | _ \<Rightarrow> False))
      (with_route (\<lambda>r. r\<lparr>rt_rate_limit := Some \<lparr>rl_requests_per_second = Fin 0, rl_burst = 5\<rparr>\<rparr>)))"

definition accepts_valid_rate_limit :: bool where
  "accepts_valid_rate_limit \<longleftrightarrow>
     (passes_validation (with_route (\<lambda>r. r\<lparr>rt_rate_limit := Some \<lparr>rl_requests_per_second = Fin 10, rl_burst = 0\<rparr>\<rparr>)))"

definition rejects_empty_admin_token :: bool where
  "rejects_empty_admin_token \<longleftrightarrow>
     (rejected_with EmptyAdminToken
      (valid_config\<lparr>cf_admin := Some \<lparr>ad_enabled = True, ad_bind = ''127.0.0.1:8080'', ad_token = Some []\<rparr>\<rparr>))"

definition rejects_empty_basic_auth :: bool where
  "rejects_empty_basic_auth \<longleftrightarrow>
     (validation_fails (list_ex (\<lambda>e. case e of InvalidBasicAuth _ _ \<Rightarrow> True | _ \<Rightarrow> False))
      (with_route (\<lambda>r. r\<lparr>rt_basic_auth := Some \<lparr>ba_users = []\<rparr>\<rparr>)))"

definition reports_multiple_errors_at_once :: bool where
  "reports_multiple_errors_at_once \<longleftrightarrow>
     (validation_fails (\<lambda>errors. 2 \<le> length errors)
      ((with_listener (\<lambda>l. l\<lparr>ls_bind := ''bad''\<rparr>))\<lparr>cf_upstreams := [tests_upstream ''api'' []]\<rparr>))"


section \<open>Properties\<close>

text \<open>All the unit tests of the validator hold of the model.\<close>

theorem validator_unit_tests:
  "accepts_a_valid_config \<and>
   rejects_unknown_upstream \<and>
   rejects_duplicate_upstream_names \<and>
   rejects_duplicate_route_names_in_listener \<and>
   rejects_invalid_bind \<and>
   rejects_empty_targets \<and>
   rejects_invalid_target_url \<and>
   rejects_empty_route_match \<and>
   rejects_health_timeout_not_less_than_interval \<and>
   rejects_invalid_log_level \<and>
   accepts_log_level_case_insensitively \<and>
   rejects_path_prefix_without_leading_slash \<and>
   accepts_valid_wildcard_host \<and>
   rejects_invalid_wildcard_host \<and>
   rejects_conflicting_routes_with_same_match \<and>
   rejects_zero_weight_target \<and>
   accepts_https_listener_with_tls \<and>
   rejects_https_without_tls \<and>
   rejects_http_listener_with_tls \<and>
   rejects_empty_tls_paths \<and>
   accepts_valid_retries \<and>
   disabled_retries_skip_validation \<and>
   rejects_zero_retry_attempts \<and>
   rejects_invalid_retry_method \<and>
   rejects_invalid_retry_on_condition \<and>
   rejects_zero_timeouts \<and>
   rejects_too_small_max_header_bytes \<and>
   accepts_zero_or_valid_max_header_bytes \<and>
   accepts_any_body_and_header_timeout_limits \<and>
   rejects_invalid_trusted_proxy \<and>
   accepts_cidr_and_bare_ip_trusted_proxies \<and>
   parse_trusted_proxy_bare_ip_is_single_host \<and>
   rejects_invalid_header_name_and_value \<and>
   accepts_valid_header_rules \<and>
   rejects_invalid_ip_access_cidr \<and>
   accepts_valid_ip_access \<and>
   rejects_nonpositive_rate_limit \<and>
   accepts_valid_rate_limit \<and>
   rejects_empty_admin_token \<and>
   rejects_empty_basic_auth \<and>
   reports_multiple_errors_at_once"
  by (intro conjI; code_simp)

end
