(* ===== verification/Proxy_Tests.thy ===== *)
theory Proxy_Tests
  imports Validator_Tests Admin_Api Resolve Prober
begin

text \<open>
  The unit tests of the proxy (\<open>router.rs\<close>, \<open>snapshot.rs\<close>, \<open>compress.rs\<close>, \<open>health.rs\<close>, \<open>proxy.rs\<close>), of
  \<open>gatepup-config/src/resolve.rs\<close> and of \<open>gatepup-admin/src/health.rs\<close>, run on the model: one
  definition per test. Header maps and networks are the executable ones of \<open>Http_Api\<close>; for the
  URI and Base64 libraries and for \<open>serde_json\<close> there are stand-ins that do on the tests'
  inputs what the tests rely on. The tests of \<open>rate_limit.rs\<close> are in \<open>Rate_Tests\<close>, those of \<open>app.rs\<close> in
  \<open>Core_Tests\<close>; those of \<open>tls.rs\<close> and \<open>metrics.rs\<close> test files and rendered text, which are outside
  the model.
\<close>

section \<open>Fixtures\<close>

definition header_map_of :: "(string \<times> string) list \<Rightarrow> header_list" where
  "header_map_of pairs = foldl (\<lambda>h (k, v). hm_insert list_headers h k v) [] pairs"

definition named_route :: "string \<Rightarrow> string option \<Rightarrow> string option \<Rightarrow> RouteConfig" where
  "named_route name_upstream host pfx =
     \<lparr>rt_name = name_upstream, rt_matcher = \<lparr>mt_host = host, mt_path_prefix = pfx\<rparr>, rt_upstream = name_upstream,
      rt_strip_prefix = False, rt_headers = None, rt_ip_access = None, rt_rate_limit = None, rt_basic_auth = None\<rparr>"

definition built :: "RouteConfig list \<Rightarrow> (ip_addr \<times> nat) Router" where
  "built rs = Router_build list_headers prefix_nets rs"

definition routed :: "(ip_addr \<times> nat) Router \<Rightarrow> string \<Rightarrow> string \<Rightarrow> string option" where
  "routed router host path = map_option cr_upstream (match_route router host path)"

definition acl :: "string list \<Rightarrow> string list \<Rightarrow> (ip_addr \<times> nat) IpAccess" where
  "acl allow deny = IpAccess_compile prefix_nets \<lparr>ip_allow = allow, ip_deny = deny\<rparr>"

definition acl_allows :: "(ip_addr \<times> nat) IpAccess \<Rightarrow> string \<Rightarrow> bool" where
  "acl_allows a s = (case parse_ip s of Some ip \<Rightarrow> IpAccess_allows prefix_nets a ip | None \<Rightarrow> False)"

definition weighted_upstream :: "string list \<Rightarrow> u32 list \<Rightarrow> UpstreamRuntime" where
  "weighted_upstream urls weights =
     \<lparr>up_targets = map (\<lambda>u. \<lparr>tr_url = u, tr_state = HealthState_new True 1 1\<rparr>) urls, up_health = None, up_retry = None,
      up_tls_insecure = False, up_schedule = build_schedule weights, up_next = 0\<rparr>"

definition plain_upstream :: "string list \<Rightarrow> UpstreamRuntime" where
  "plain_upstream urls = weighted_upstream urls (replicate (length urls) 1)"

text \<open>\<open>(0..n).filter_map(|_| pick(&u))\<close>.\<close>

fun pick_urls :: "nat \<Rightarrow> UpstreamRuntime \<Rightarrow> string list" where
  "pick_urls 0 u = []"
| "pick_urls (Suc n) u =
     (case pick_target u of
        (Picked i, u') \<Rightarrow> tr_url (up_targets u' ! i) # pick_urls n u'
      | (_, u') \<Rightarrow> pick_urls n u')"

definition comp :: "bool \<Rightarrow> bool \<Rightarrow> u64 \<Rightarrow> Compression" where
  "comp gzip br min_bytes = \<lparr>co_gzip = gzip, co_br = br, co_min_bytes = min_bytes, co_types = {''text/html''}\<rparr>"

definition observe_all :: "bool list \<Rightarrow> health_state \<Rightarrow> health_state" where
  "observe_all results s = foldl (\<lambda>s ok. observe 0 ok s) s results"

definition headers_with_content_length :: "string \<Rightarrow> header_list" where
  "headers_with_content_length len = header_map_of [(''content-length'', len)]"

text \<open>\<open>body.collect().await\<close> within \<open>n\<close> polls.\<close>

fun collect_capped :: "nat \<Rightarrow> CappedBody \<Rightarrow> string option \<times> CappedBody" where
  "collect_capped 0 b = (None, b)"
| "collect_capped (Suc n) b =
     (case poll_frame b of
        (Ended, b') \<Rightarrow> (Some [], b')
      | (Fails _, b') \<Rightarrow> (None, b')
      | (Yields (DataFrame d), b') \<Rightarrow> (case collect_capped n b' of (r, b'') \<Rightarrow> (map_option ((@) d) r, b''))
      | (_, b') \<Rightarrow> collect_capped n b')"

definition client_ip :: "string \<Rightarrow> string option \<Rightarrow> string list \<Rightarrow> ip_addr option" where
  "client_ip peer xff cidrs =
     map_option (\<lambda>ip. resolve_client_ip prefix_nets ip xff (List.map_filter (net_parse prefix_nets) cidrs)) (parse_ip peer)"

text \<open>A stand-in for Base64: encoding adds a mark that decoding demands.\<close>

definition tests_encode :: "string \<Rightarrow> string" where
  "tests_encode s = CHR ''='' # s"

definition tests_decode :: "string \<Rightarrow> string option" where
  "tests_decode s = (case s of [] \<Rightarrow> None | c # cs \<Rightarrow> if c = CHR ''='' then Some cs else None)"

definition basic_users :: "string \<rightharpoonup> string" where
  "basic_users = map_of [(''alice'', ''secret'')]"

definition basic_header :: "string \<Rightarrow> header_list" where
  "basic_header creds = header_map_of [(''authorization'', ''Basic '' @ tests_encode creds)]"

text \<open>A stand-in for URIs: scheme, authority, and path with query; white space is rejected.\<close>

definition tests_uri :: "(string \<times> string \<times> string) uri_api" where
  "tests_uri = \<lparr>
     uri_parse = (\<lambda>raw.
       let scheme = takeWhile (\<lambda>c. c \<noteq> CHR '':'') raw; rest = drop (length scheme) raw
       in if CHR '' '' \<in> set raw \<or> \<not> prefix ''://'' rest then None
          else let auth = takeWhile (\<lambda>c. c \<noteq> CHR ''/'') (drop 3 rest)
               in Some (scheme, auth, drop (length auth) (drop 3 rest))),
     pq_parse = Some,
     uri_with_pq = (\<lambda>(scheme, auth, _) pq. Some (scheme, auth, pq)),
     uri_host = (\<lambda>(_, auth, _). Some (first_piece (CHR '':'') auth)),
     uri_port_u16 = (\<lambda>(_, auth, _).
       case split_once (CHR '':'') auth of None \<Rightarrow> None | Some (_, p) \<Rightarrow> map_option of_nat (parse_unsigned (2 ^ 16) p))\<rparr>"

definition uri_string :: "string \<times> string \<times> string \<Rightarrow> string" where
  "uri_string u = (case u of (scheme, auth, pq) \<Rightarrow> scheme @ ''://'' @ auth @ pq)"

definition inline_loader :: loader where
  "inline_loader = \<lparr>read_to_string = (\<lambda>_. Err ''not found''),
     from_json = (\<lambda>_. Ok (valid_config\<lparr>cf_app := \<lparr>app_name = ''inline'', app_log_level = ''info''\<rparr>\<rparr>))\<rparr>"


section \<open>Tests of \<open>router.rs\<close>\<close>

definition header_ops_remove_then_set :: bool where
  "header_ops_remove_then_set \<longleftrightarrow>
     (let ops = HeaderOps_compile list_headers \<lparr>ho_set = [(''x-a'', ''new'')], ho_remove = [''x-b'']\<rparr>;
          h = HeaderOps_apply list_headers ops (header_map_of [(''x-b'', ''old''), (''x-a'', ''orig'')])
      in \<not> hm_contains list_headers h ''x-b'' \<and> hm_get list_headers h ''x-a'' = Some ''new'')"

definition header_ops_compile_skips_invalid :: bool where
  "header_ops_compile_skips_invalid \<longleftrightarrow>
     (HeaderOps_apply list_headers (HeaderOps_compile list_headers \<lparr>ho_set = [(''bad name'', ''v'')], ho_remove = [''also bad'']\<rparr>) [] = [])"

definition ip_access_empty_allows_all :: bool where
  "ip_access_empty_allows_all \<longleftrightarrow>
     (acl_allows IpAccess_default ''203.0.113.7'')"

definition ip_access_deny_blocks :: bool where
  "ip_access_deny_blocks \<longleftrightarrow>
     (let a = acl [] [''10.0.0.0/8''] in \<not> acl_allows a ''10.1.2.3'' \<and> acl_allows a ''203.0.113.7'')"

definition ip_access_allowlist_restricts :: bool where
  "ip_access_allowlist_restricts \<longleftrightarrow>
     (let a = acl [''192.168.0.0/16''] [] in acl_allows a ''192.168.1.1'' \<and> \<not> acl_allows a ''203.0.113.7'')"

definition ip_access_deny_wins_over_allow :: bool where
  "ip_access_deny_wins_over_allow \<longleftrightarrow>
     (let a = acl [''10.0.0.0/8''] [''10.0.0.5''] in acl_allows a ''10.0.0.1'' \<and> \<not> acl_allows a ''10.0.0.5'')"

definition matches_by_host :: bool where
  "matches_by_host \<longleftrightarrow>
     (let router = built [named_route ''api'' (Some ''api.example.com'') (Some ''/''), named_route ''web'' (Some ''example.com'') (Some ''/'')]
      in routed router ''api.example.com'' ''/users'' = Some ''api'' \<and> routed router ''example.com'' ''/'' = Some ''web'')"

definition returns_none_for_unknown_host :: bool where
  "returns_none_for_unknown_host \<longleftrightarrow>
     (routed (built [named_route ''api'' (Some ''api.example.com'') (Some ''/'')]) ''nope.example.com'' ''/'' = None)"

definition prefers_longest_path_prefix :: bool where
  "prefers_longest_path_prefix \<longleftrightarrow>
     (let router = built [named_route ''root'' (Some ''example.com'') (Some ''/''), named_route ''api'' (Some ''example.com'') (Some ''/api'')]
      in routed router ''example.com'' ''/api/v1'' = Some ''api'' \<and> routed router ''example.com'' ''/other'' = Some ''root'')"

definition wildcard_matches_subdomains_not_bare :: bool where
  "wildcard_matches_subdomains_not_bare \<longleftrightarrow>
     (let router = built [named_route ''wild'' (Some ''*.example.com'') (Some ''/'')]
      in routed router ''api.example.com'' ''/'' = Some ''wild'' \<and> routed router ''a.b.example.com'' ''/'' = Some ''wild'' \<and>
         routed router ''example.com'' ''/'' = None \<and> routed router ''evilexample.com'' ''/'' = None)"

definition exact_beats_wildcard_beats_any :: bool where
  "exact_beats_wildcard_beats_any \<longleftrightarrow>
     (let router = built [named_route ''any'' None (Some ''/''), named_route ''wild'' (Some ''*.example.com'') (Some ''/''),
            named_route ''exact'' (Some ''api.example.com'') (Some ''/'')]
      in routed router ''api.example.com'' ''/'' = Some ''exact'' \<and> routed router ''other.example.com'' ''/'' = Some ''wild'' \<and>
         routed router ''foo.com'' ''/'' = Some ''any'')"

definition strip_prefix_rewrites_forwarded_path :: bool where
  "strip_prefix_rewrites_forwarded_path \<longleftrightarrow>
     (case match_route (built [(named_route ''api'' (Some ''h'') (Some ''/api''))\<lparr>rt_strip_prefix := True\<rparr>]) ''h'' ''/api/users'' of
        None \<Rightarrow> False
      | Some cr \<Rightarrow> rewritten_path_and_query cr (Some ''/api/users?q=1'') = ''/users?q=1'' \<and> rewritten_path_and_query cr (Some ''/api'') = ''/'')"

definition no_strip_keeps_original_path :: bool where
  "no_strip_keeps_original_path \<longleftrightarrow>
     (case match_route (built [named_route ''api'' (Some ''h'') (Some ''/api'')]) ''h'' ''/api/users'' of
        None \<Rightarrow> False
      | Some cr \<Rightarrow> rewritten_path_and_query cr (Some ''/api/users'') = ''/api/users'')"

definition prefers_host_match_over_wildcard :: bool where
  "prefers_host_match_over_wildcard \<longleftrightarrow>
     (let router = built [named_route ''any'' None (Some ''/''), named_route ''exact'' (Some ''example.com'') (Some ''/'')]
      in routed router ''example.com'' ''/'' = Some ''exact'' \<and> routed router ''other.com'' ''/'' = Some ''any'')"

section \<open>Tests of \<open>snapshot.rs\<close>\<close>

definition round_robin_cycles_through_targets :: bool where
  "round_robin_cycles_through_targets \<longleftrightarrow>
     (pick_urls 6 (plain_upstream [''a'', ''b'', ''c'']) = [''a'', ''b'', ''c'', ''a'', ''b'', ''c''])"

definition pick_target_skips_unhealthy :: bool where
  "pick_target_skips_unhealthy \<longleftrightarrow>
     (let xs = pick_urls 4 (observe_target 0 1 False (plain_upstream [''a'', ''b'', ''c'']))
      in list_all (\<lambda>url. url \<noteq> ''b'') xs \<and> ''a'' \<in> set xs \<and> ''c'' \<in> set xs)"

definition pick_target_none_when_all_unhealthy :: bool where
  "pick_target_none_when_all_unhealthy \<longleftrightarrow>
     (fst (pick_target (observe_target 0 1 False (observe_target 0 0 False (plain_upstream [''a'', ''b''])))) = NoneHealthy)"

definition pick_target_none_when_no_targets :: bool where
  "pick_target_none_when_no_targets \<longleftrightarrow>
     (fst (pick_target (plain_upstream [])) = NoneHealthy)"

definition build_schedule_equal_weights_is_plain_round_robin :: bool where
  "build_schedule_equal_weights_is_plain_round_robin \<longleftrightarrow>
     (build_schedule [1, 1, 1] = [0, 1, 2])"

definition build_schedule_reduces_by_gcd :: bool where
  "build_schedule_reduces_by_gcd \<longleftrightarrow>
     (let s = build_schedule [2, 4] in length (filter (\<lambda>i. i = 0) s) = 1 \<and> length (filter (\<lambda>i. i = 1) s) = 2)"

definition build_schedule_interleaves_rather_than_bursting :: bool where
  "build_schedule_interleaves_rather_than_bursting \<longleftrightarrow>
     (let s = build_schedule [3, 1]
      in length (filter (\<lambda>i. i = 0) s) = 3 \<and> length (filter (\<lambda>i. i = 1) s) = 1 \<and> s \<noteq> [0, 0, 0, 1])"

definition weighted_pick_honors_weights :: bool where
  "weighted_pick_honors_weights \<longleftrightarrow>
     (let xs = pick_urls 400 (weighted_upstream [''a'', ''b''] [3, 1])
      in length (filter (\<lambda>x. x = ''a'') xs) = 300 \<and> length (filter (\<lambda>x. x = ''b'') xs) = 100)"

definition retry_policy_parses_methods_and_conditions :: bool where
  "retry_policy_parses_methods_and_conditions \<longleftrightarrow>
     (case RetryPolicy_from_config Some \<lparr>re_enabled = True, re_attempts = 3, re_methods = [''GET'', ''POST''],
          re_retry_on = [''connect_timeout'', ''upstream_5xx'']\<rparr> of
        None \<Rightarrow> False
      | Some policy \<Rightarrow>
          rp_max_attempts policy = 3 \<and> allows_method policy ''GET'' \<and> allows_method policy ''POST'' \<and> \<not> allows_method policy ''PUT'' \<and>
          rp_on_connect_failure policy \<and> rp_on_5xx policy)"

definition retry_policy_none_when_disabled :: bool where
  "retry_policy_none_when_disabled \<longleftrightarrow>
     (case RetryPolicy_from_config Some \<lparr>re_enabled = False, re_attempts = 2, re_methods = [''GET''], re_retry_on = [''connect_error'']\<rparr> of
        None \<Rightarrow> True | Some _ \<Rightarrow> False)"

definition weighted_pick_redistributes_when_a_target_is_unhealthy :: bool where
  "weighted_pick_redistributes_when_a_target_is_unhealthy \<longleftrightarrow>
     (list_all (\<lambda>url. url = ''a'') (pick_urls 100 (observe_target 0 1 False (weighted_upstream [''a'', ''b''] [3, 1]))))"

section \<open>Tests of \<open>compress.rs\<close>\<close>

definition prefers_brotli_when_both_offered_and_enabled :: bool where
  "prefers_brotli_when_both_offered_and_enabled \<longleftrightarrow>
     (choose_encoding ''gzip, br'' (comp True True 0) = Some Br)"

definition falls_back_to_gzip_when_br_disabled :: bool where
  "falls_back_to_gzip_when_br_disabled \<longleftrightarrow>
     (choose_encoding ''gzip, br'' (comp True False 0) = Some Gzip)"

definition none_when_client_accepts_nothing_enabled :: bool where
  "none_when_client_accepts_nothing_enabled \<longleftrightarrow>
     (choose_encoding ''identity'' (comp True True 0) = None \<and> choose_encoding ''gzip'' (comp False True 0) = None)"

definition wildcard_accepts_preferred :: bool where
  "wildcard_accepts_preferred \<longleftrightarrow>
     (choose_encoding ''*'' (comp True True 0) = Some Br)"

definition skips_already_encoded :: bool where
  "skips_already_encoded \<longleftrightarrow>
     (\<not> should_compress list_headers (header_map_of [(''content-type'', ''text/html''), (''content-encoding'', ''gzip'')]) (comp True True 0))"

definition skips_disallowed_type :: bool where
  "skips_disallowed_type \<longleftrightarrow>
     (\<not> should_compress list_headers (header_map_of [(''content-type'', ''application/octet-stream'')]) (comp True True 0))"

definition skips_small_known_length :: bool where
  "skips_small_known_length \<longleftrightarrow>
     (\<not> should_compress list_headers (header_map_of [(''content-type'', ''text/html''), (''content-length'', ''100'')]) (comp True True 1024))"

definition compresses_eligible_type_with_charset_and_unknown_length :: bool where
  "compresses_eligible_type_with_charset_and_unknown_length \<longleftrightarrow>
     (should_compress list_headers (header_map_of [(''content-type'', ''text/html; charset=utf-8'')]) (comp True True 1024))"

section \<open>Tests of \<open>health.rs\<close>\<close>

definition starts_healthy :: bool where
  "starts_healthy \<longleftrightarrow>
     (is_healthy (HealthState_new True 2 3))"

definition unmanaged_never_changes :: bool where
  "unmanaged_never_changes \<longleftrightarrow>
     (is_healthy (observe_all [False, False] (HealthState_new False 1 1)))"

definition goes_unhealthy_after_consecutive_failures :: bool where
  "goes_unhealthy_after_consecutive_failures \<longleftrightarrow>
     (is_healthy (observe_all [False, False] (HealthState_new True 2 3)) \<and> \<not> is_healthy (observe_all [False, False, False] (HealthState_new True 2 3)))"

definition recovers_after_consecutive_successes :: bool where
  "recovers_after_consecutive_successes \<longleftrightarrow>
     (\<not> is_healthy (observe_all [False] (HealthState_new True 2 1)) \<and> \<not> is_healthy (observe_all [False, True] (HealthState_new True 2 1)) \<and>
      is_healthy (observe_all [False, True, True] (HealthState_new True 2 1)))"

definition a_success_resets_the_failure_streak :: bool where
  "a_success_resets_the_failure_streak \<longleftrightarrow>
     (is_healthy (observe_all [False, False, True, False, False] (HealthState_new True 1 3)))"

definition probe_uri_appends_health_path :: bool where
  "probe_uri_appends_health_path \<longleftrightarrow>
     (map_option uri_string (probe_uri tests_uri ''http://backend:4000'' ''/health'') = Some ''http://backend:4000/health'')"

definition probe_uri_defaults_empty_path :: bool where
  "probe_uri_defaults_empty_path \<longleftrightarrow>
     (map_option uri_string (probe_uri tests_uri ''http://backend:4000'' []) = Some ''http://backend:4000/'')"

definition probe_uri_rejects_bad_base :: bool where
  "probe_uri_rejects_bad_base \<longleftrightarrow>
     (probe_uri tests_uri ''not a url'' ''/health'' = None)"

section \<open>Tests of \<open>proxy.rs\<close>\<close>

definition gateway_errors_map_to_expected_status_and_code :: bool where
  "gateway_errors_map_to_expected_status_and_code \<longleftrightarrow>
     (list_all (\<lambda>(err, status, code). parts err = (status, code))
      [(RouteNotFound, 404, ''route_not_found''), (PayloadTooLarge, 413, ''payload_too_large''),
       (NoHealthyUpstream, 503, ''no_healthy_upstream''), (UpstreamTimeout, 504, ''upstream_timeout''),
       (UpstreamConnect, 502, ''upstream_connect_error''), (UpstreamMissing, 502, ''bad_gateway''), (BadGateway, 502, ''bad_gateway'')])"

definition error_response_carries_json_body_and_request_id :: bool where
  "error_response_carries_json_body_and_request_id \<longleftrightarrow>
     (let resp = error_response list_headers RouteNotFound ''rid-123''
      in res_status resp = 404 \<and> hm_get list_headers (res_headers resp) ''content-type'' = Some ''application/json'' \<and>
         hm_get list_headers (res_headers resp) ''x-request-id'' = Some ''rid-123'')"

definition body_limit_zero_means_unlimited :: bool where
  "body_limit_zero_means_unlimited \<longleftrightarrow>
     (\<not> body_exceeds_limit list_headers (headers_with_content_length ''99999999'') 0)"

definition body_within_limit_is_allowed :: bool where
  "body_within_limit_is_allowed \<longleftrightarrow>
     (\<not> body_exceeds_limit list_headers (headers_with_content_length ''10'') 10 \<and>
      \<not> body_exceeds_limit list_headers (headers_with_content_length ''9'') 10)"

definition declared_oversize_body_exceeds_limit :: bool where
  "declared_oversize_body_exceeds_limit \<longleftrightarrow>
     (body_exceeds_limit list_headers (headers_with_content_length ''11'') 10)"

definition undeclared_body_passes_content_length_check :: bool where
  "undeclared_body_passes_content_length_check \<longleftrightarrow>
     (\<not> body_exceeds_limit list_headers [] 10)"

definition capped_body_errors_and_flags_on_overflow :: bool where
  "capped_body_errors_and_flags_on_overflow \<longleftrightarrow>
     (let (result, body) = collect_capped 2 \<lparr>cb_inner = [DataFrame (replicate 100 (CHR ''x''))], cb_limit = 10, cb_seen = 0, cb_exceeded = False\<rparr>
      in result = None \<and> cb_exceeded body)"

definition capped_body_passes_under_limit :: bool where
  "capped_body_passes_under_limit \<longleftrightarrow>
     (let (result, body) = collect_capped 2 \<lparr>cb_inner = [DataFrame (replicate 5 (CHR ''x''))], cb_limit = 10, cb_seen = 0, cb_exceeded = False\<rparr>
      in map_option length result = Some 5 \<and> \<not> cb_exceeded body)"

definition client_ip_is_peer_when_no_trusted_proxies :: bool where
  "client_ip_is_peer_when_no_trusted_proxies \<longleftrightarrow>
     (client_ip ''198.51.100.9'' (Some ''1.2.3.4'') [] = parse_ip ''198.51.100.9'')"

definition client_ip_ignores_xff_from_untrusted_peer :: bool where
  "client_ip_ignores_xff_from_untrusted_peer \<longleftrightarrow>
     (client_ip ''198.51.100.9'' (Some ''1.2.3.4'') [''10.0.0.0/8''] = parse_ip ''198.51.100.9'')"

definition client_ip_from_trusted_peer_uses_rightmost_untrusted_xff :: bool where
  "client_ip_from_trusted_peer_uses_rightmost_untrusted_xff \<longleftrightarrow>
     (client_ip ''10.0.0.1'' (Some ''203.0.113.7, 10.0.0.2'') [''10.0.0.0/8''] = parse_ip ''203.0.113.7'')"

definition client_ip_falls_back_to_peer_when_all_hops_trusted :: bool where
  "client_ip_falls_back_to_peer_when_all_hops_trusted \<longleftrightarrow>
     (client_ip ''10.0.0.1'' (Some ''10.0.0.9, 10.0.0.2'') [''10.0.0.0/8''] = parse_ip ''10.0.0.1'')"

definition client_ip_trusted_peer_no_xff_is_peer :: bool where
  "client_ip_trusted_peer_no_xff_is_peer \<longleftrightarrow>
     (client_ip ''10.0.0.1'' None [''10.0.0.0/8''] = parse_ip ''10.0.0.1'')"

definition client_ip_skips_malformed_xff_entries :: bool where
  "client_ip_skips_malformed_xff_entries \<longleftrightarrow>
     (client_ip ''10.0.0.1'' (Some ''garbage, 203.0.113.7'') [''10.0.0.0/8''] = parse_ip ''203.0.113.7'')"

definition basic_auth_accepts_valid_credentials :: bool where
  "basic_auth_accepts_valid_credentials \<longleftrightarrow>
     (basic_auth_ok list_headers tests_decode (basic_header ''alice:secret'') basic_users)"

definition basic_auth_rejects_wrong_password :: bool where
  "basic_auth_rejects_wrong_password \<longleftrightarrow>
     (\<not> basic_auth_ok list_headers tests_decode (basic_header ''alice:nope'') basic_users)"

definition basic_auth_rejects_unknown_user :: bool where
  "basic_auth_rejects_unknown_user \<longleftrightarrow>
     (\<not> basic_auth_ok list_headers tests_decode (basic_header ''bob:secret'') basic_users)"

definition basic_auth_rejects_missing_and_malformed :: bool where
  "basic_auth_rejects_missing_and_malformed \<longleftrightarrow>
     (\<not> basic_auth_ok list_headers tests_decode [] basic_users \<and>
      \<not> basic_auth_ok list_headers tests_decode (header_map_of [(''authorization'', ''Basic !!notb64'')]) basic_users)"

definition build_upstream_uri_sets_path_and_query :: bool where
  "build_upstream_uri_sets_path_and_query \<longleftrightarrow>
     (map_option uri_string (build_upstream_uri tests_uri ''http://backend:4000'' ''/users?page=2'') = Some ''http://backend:4000/users?page=2'')"

definition build_upstream_uri_rejects_invalid_target :: bool where
  "build_upstream_uri_rejects_invalid_target \<longleftrightarrow>
     (build_upstream_uri tests_uri ''not a url'' ''/'' = None)"

definition rewrite_headers_strips_hop_by_hop_and_host :: bool where
  "rewrite_headers_strips_hop_by_hop_and_host \<longleftrightarrow>
     (let h = rewrite_headers list_headers (header_map_of [(''host'', ''gatepup.local''), (''connection'', ''close''),
            (''transfer-encoding'', ''chunked''), (''upgrade'', ''h2c''), (''x-keep'', ''yes'')]) ''gatepup.local'' ''http'' (V4 203 0 113 7) ''rid-1''
      in hm_get list_headers h ''host'' = None \<and> hm_get list_headers h ''connection'' = None \<and>
         hm_get list_headers h ''transfer-encoding'' = None \<and> hm_get list_headers h ''upgrade'' = None \<and>
         hm_get list_headers h ''x-keep'' = Some ''yes'')"

definition rewrite_headers_sets_forwarding_headers :: bool where
  "rewrite_headers_sets_forwarding_headers \<longleftrightarrow>
     (let h = rewrite_headers list_headers [] ''api.example.com'' ''https'' (V4 203 0 113 7) ''rid-2''
      in hm_get list_headers h ''x-forwarded-for'' = Some ''203.0.113.7'' \<and> hm_get list_headers h ''x-forwarded-host'' = Some ''api.example.com'' \<and>
         hm_get list_headers h ''x-forwarded-proto'' = Some ''https'' \<and> hm_get list_headers h ''x-request-id'' = Some ''rid-2'')"

definition rewrite_headers_appends_to_existing_forwarded_for :: bool where
  "rewrite_headers_appends_to_existing_forwarded_for \<longleftrightarrow>
     (hm_get list_headers (rewrite_headers list_headers (header_map_of [(''x-forwarded-for'', ''198.51.100.1'')]) ''h'' ''http''
        (V4 203 0 113 7) ''rid-3'') ''x-forwarded-for'' = Some ''198.51.100.1, 203.0.113.7'')"

definition generated_request_ids_are_unique :: bool where
  "generated_request_ids_are_unique \<longleftrightarrow>
     (let (a, n) = generate_request_id 5 0; (b, m) = generate_request_id 5 n in a \<noteq> b)"

definition detects_upgrade_requests :: bool where
  "detects_upgrade_requests \<longleftrightarrow>
     (let req = (\<lambda>h. \<lparr>rq_method = ''GET'', rq_path = ''/'', rq_path_and_query = Some ''/'', rq_authority = None, rq_version = ''HTTP/1.1'',
            rq_headers = header_map_of h, rq_body = []\<rparr>)
      in \<not> is_upgrade list_headers (req []) \<and> \<not> is_upgrade list_headers (req [(''connection'', ''keep-alive, Upgrade'')]) \<and>
         is_upgrade list_headers (req [(''connection'', ''keep-alive, Upgrade''), (''upgrade'', ''websocket'')]))"

definition parse_authority_splits_host_and_port :: bool where
  "parse_authority_splits_host_and_port \<longleftrightarrow>
     (parse_authority tests_uri ''http://backend:4000'' = Some (''backend'', 4000) \<and>
      parse_authority tests_uri ''http://1.2.3.4'' = Some (''1.2.3.4'', 80) \<and> parse_authority tests_uri ''not a url'' = None)"

section \<open>Tests of \<open>resolve.rs\<close> and \<open>health.rs\<close> of the admin API\<close>

definition no_source_errors :: bool where
  "no_source_errors \<longleftrightarrow>
     (resolve_with no_files None (env_of []) = Err NoConfigSource)"

definition simple_mode_builds_and_validates :: bool where
  "simple_mode_builds_and_validates \<longleftrightarrow>
     (case resolve_with no_files None (env_of [(''GATEPUP_LISTEN'', ''0.0.0.0:80''), (''GATEPUP_UPSTREAM'', ''http://a:1, http://b:2''),
          (''GATEPUP_ROUTE_HOST'', ''ex.com'')]) of
        Err _ \<Rightarrow> False
      | Ok (cfg, source) \<Rightarrow>
          source = Env \<and> ls_bind (cf_listeners cfg ! 0) = ''0.0.0.0:80'' \<and> length (us_targets (cf_upstreams cfg ! 0)) = 2 \<and>
          mt_host (rt_matcher (ls_routes (cf_listeners cfg ! 0) ! 0)) = Some ''ex.com'' \<and> passes_validation cfg)"

definition scalar_overrides_apply :: bool where
  "scalar_overrides_apply \<longleftrightarrow>
     (case resolve_with no_files None (env_of [(''GATEPUP_UPSTREAM'', ''http://a:1''), (''GATEPUP_LOG'', ''debug''),
          (''GATEPUP_ADMIN'', ''127.0.0.1:9090''), (''GATEPUP_METRICS_PATH'', ''/m''), (''GATEPUP_TIMEOUT_REQUEST_MS'', ''5000'')]) of
        Err _ \<Rightarrow> False
      | Ok (cfg, _) \<Rightarrow>
          app_log_level (cf_app cfg) = ''debug'' \<and> map_option ad_bind (cf_admin cfg) = Some ''127.0.0.1:9090'' \<and>
          map_option me_path (cf_metrics cfg) = Some ''/m'' \<and> tmo_request_timeout_ms (cf_timeouts cfg) = 5000)"

definition simple_mode_https_when_tls_set :: bool where
  "simple_mode_https_when_tls_set \<longleftrightarrow>
     (case resolve_with no_files None (env_of [(''GATEPUP_UPSTREAM'', ''http://a:1''), (''GATEPUP_TLS_CERT'', ''/c.pem''),
          (''GATEPUP_TLS_KEY'', ''/k.pem'')]) of
        Err _ \<Rightarrow> False
      | Ok (cfg, _) \<Rightarrow> ls_protocol (cf_listeners cfg ! 0) = Https \<and> ls_tls (cf_listeners cfg ! 0) \<noteq> None)"

definition inline_json_wins_over_cli_path :: bool where
  "inline_json_wins_over_cli_path \<longleftrightarrow>
     (case resolve_with inline_loader (Some ''/no/such.json'') (env_of [(''GATEPUP_CONFIG_JSON'', ''{}'')]) of
        Err _ \<Rightarrow> False
      | Ok (cfg, source) \<Rightarrow> source = Inline \<and> app_name (cf_app cfg) = ''inline'')"

definition bad_timeout_env_is_named_error :: bool where
  "bad_timeout_env_is_named_error \<longleftrightarrow>
     (case resolve_with no_files None (env_of [(''GATEPUP_UPSTREAM'', ''http://a:1''), (''GATEPUP_TIMEOUT_CONNECT_MS'', ''soon'')]) of
        Err (BadEnvValue var _ _) \<Rightarrow> var = ''GATEPUP_TIMEOUT_CONNECT_MS''
      | _ \<Rightarrow> False)"

definition payload_reports_ok_and_version :: bool where
  "payload_reports_ok_and_version \<longleftrightarrow>
     (case health_payload ''9.9.9'' of
        JObject kvs \<Rightarrow> map_of kvs ''status'' = Some (JString ''ok'') \<and> map_of kvs ''version'' = Some (JString ''9.9.9'')
      | _ \<Rightarrow> False)"


section \<open>The long runs\<close>

text \<open>With all targets healthy the picks run through the schedule.\<close>

lemma pick_urls_schedule:
  assumes "up_wf u" "up_schedule u \<noteq> []" "\<forall>i \<in> set (up_schedule u). healthy_at u i" "k + n < 2 ^ 64"
  shows "pick_urls n (u\<lparr>up_next := of_nat k\<rparr>) =
    map (\<lambda>i. tr_url (up_targets u ! (up_schedule u ! (i mod length (up_schedule u))))) [k..<k + n]"
  using assms(4)
proof (induction n arbitrary: k)
  case (Suc n)
  let ?u = "u\<lparr>up_next := of_nat k\<rparr>"
  have wf: "up_wf ?u" "up_schedule ?u \<noteq> []" "\<forall>i \<in> set (up_schedule ?u). healthy_at ?u i"
    using assms(1-3) by (auto simp: up_wf_def healthy_at_def)
  have "k < 2 ^ LENGTH(64)" using Suc.prems by simp
  then have k: "unat (of_nat k :: usize) = k" unfolding unat_of_nat by (rule mod_less)
  have "of_nat k + 1 = (of_nat (Suc k) :: usize)" by (simp add: add.commute)
  then have "pick_target ?u = (Picked (up_schedule u ! (k mod length (up_schedule u))), u\<lparr>up_next := of_nat (Suc k)\<rparr>)"
    using pick_target_all_healthy[OF wf] k by (simp add: slot_at_def del: of_nat_Suc)
  moreover have "[k..<k + Suc n] = k # [Suc k..<Suc k + n]" by (simp only: upt_conv_Cons add_Suc_shift less_add_Suc1)
  moreover have "pick_urls n (u\<lparr>up_next := of_nat (Suc k)\<rparr>) =
      map (\<lambda>i. tr_url (up_targets u ! (up_schedule u ! (i mod length (up_schedule u))))) [Suc k..<Suc k + n]"
    using Suc.prems by (intro Suc.IH) simp
  moreover have "up_targets (u\<lparr>up_next := w\<rparr>) = up_targets u" for w by simp
  ultimately show ?case by (simp only: pick_urls.simps prod.case pick.case list.map)
qed simp

lemma weighted_picks: weighted_pick_honors_weights
proof -
  let ?u = "weighted_upstream [''a'', ''b''] [3, 1]" and ?url = "\<lambda>i::nat. if i mod 4 = 1 then ''b'' else ''a''"
  have sch: "up_schedule ?u = [0, 1, 0, 0]" by code_simp
  have wf: "up_wf ?u" "\<forall>i \<in> set (up_schedule ?u). healthy_at ?u i" by code_simp+
  have next0: "?u\<lparr>up_next := of_nat 0\<rparr> = ?u" by (simp add: weighted_upstream_def)
  have tg: "tr_url (up_targets ?u ! 0) = ''a''" "tr_url (up_targets ?u ! 1) = ''b''" by (simp_all add: weighted_upstream_def)
  have "[0, 1, 0, 0] ! j = (if j = 1 then 1 else 0 :: nat)" if "j < 4" for j :: nat
    using that by (auto simp: less_Suc_eq numeral_eq_Suc)
  then have "tr_url (up_targets ?u ! (up_schedule ?u ! (i mod length (up_schedule ?u)))) = ?url i" for i
    using tg by (simp add: sch)
  then have "pick_urls 400 ?u = map ?url [0..<400]"
    using pick_urls_schedule[OF wf(1) _ wf(2), of 0 400] by (simp add: sch next0[simplified])
  moreover have "length (filter (\<lambda>x. x = ''a'') (map ?url [0..<400])) = 300" "length (filter (\<lambda>x. x = ''b'') (map ?url [0..<400])) = 100"
    by code_simp+
  ultimately show ?thesis by (simp only: weighted_pick_honors_weights_def Let_def simp_thms)
qed

lemma redistributed_picks: weighted_pick_redistributes_when_a_target_is_unhealthy
proof -
  define u where "u = observe_target 0 1 False (weighted_upstream [''a'', ''b''] [3, 1])"
  have wf: "up_wf u" and url: "tr_url (up_targets u ! 0) = ''a''" unfolding u_def by code_simp+
  have "length (up_targets u) = 2" "\<not> healthy_at u 1" unfolding u_def by code_simp+
  then have only: "healthy_at u i \<Longrightarrow> i < length (up_targets u) \<Longrightarrow> i = 0" for i using less_2_cases by auto
  have "list_all (\<lambda>url. url = ''a'') (pick_urls n (u\<lparr>up_next := w\<rparr>))" for n w
  proof (induction n arbitrary: w)
    case (Suc n)
    have wfw: "up_wf (u\<lparr>up_next := w\<rparr>)" using wf by (simp add: up_wf_def)
    obtain p v where p: "pick_target (u\<lparr>up_next := w\<rparr>) = (p, v)" by (cases "pick_target (u\<lparr>up_next := w\<rparr>)")
    then obtain w' where v: "v = u\<lparr>up_next := w'\<rparr>" using pick_target_frame[OF wfw] by (auto intro: that)
    have "i = 0" if "p = Picked i" for i
      using pick_target_Picked[OF wfw, of i] p that only by (simp add: healthy_at_def)
    then show ?case using p v url Suc.IH[of w'] by (auto split: pick.split)
  qed simp
  from this[of 100 "up_next u"] show ?thesis
    by (simp add: weighted_pick_redistributes_when_a_target_is_unhealthy_def u_def)
qed


section \<open>Properties\<close>

text \<open>The unit tests of the router and of the upstream groups hold of the model.\<close>

theorem routing_unit_tests:
  "header_ops_remove_then_set \<and>
   header_ops_compile_skips_invalid \<and>
   ip_access_empty_allows_all \<and>
   ip_access_deny_blocks \<and>
   ip_access_allowlist_restricts \<and>
   ip_access_deny_wins_over_allow \<and>
   matches_by_host \<and>
   returns_none_for_unknown_host \<and>
   prefers_longest_path_prefix \<and>
   wildcard_matches_subdomains_not_bare \<and>
   exact_beats_wildcard_beats_any \<and>
   strip_prefix_rewrites_forwarded_path \<and>
   no_strip_keeps_original_path \<and>
   prefers_host_match_over_wildcard \<and>
   round_robin_cycles_through_targets \<and>
   pick_target_skips_unhealthy \<and>
   pick_target_none_when_all_unhealthy \<and>
   pick_target_none_when_no_targets \<and>
   build_schedule_equal_weights_is_plain_round_robin \<and>
   build_schedule_reduces_by_gcd \<and>
   build_schedule_interleaves_rather_than_bursting \<and>
   weighted_pick_honors_weights \<and>
   retry_policy_parses_methods_and_conditions \<and>
   retry_policy_none_when_disabled \<and>
   weighted_pick_redistributes_when_a_target_is_unhealthy"
  by (intro conjI; (rule weighted_picks redistributed_picks | code_simp))

text \<open>All the unit tests of compression, health and request handling hold of the model, except those
  that need a running server.\<close>

theorem request_unit_tests:
  "prefers_brotli_when_both_offered_and_enabled \<and>
   falls_back_to_gzip_when_br_disabled \<and>
   none_when_client_accepts_nothing_enabled \<and>
   wildcard_accepts_preferred \<and>
   skips_already_encoded \<and>
   skips_disallowed_type \<and>
   skips_small_known_length \<and>
   compresses_eligible_type_with_charset_and_unknown_length \<and>
   starts_healthy \<and>
   unmanaged_never_changes \<and>
   goes_unhealthy_after_consecutive_failures \<and>
   recovers_after_consecutive_successes \<and>
   a_success_resets_the_failure_streak \<and>
   probe_uri_appends_health_path \<and>
   probe_uri_defaults_empty_path \<and>
   probe_uri_rejects_bad_base \<and>
   gateway_errors_map_to_expected_status_and_code \<and>
   error_response_carries_json_body_and_request_id \<and>
   body_limit_zero_means_unlimited \<and>
   body_within_limit_is_allowed \<and>
   declared_oversize_body_exceeds_limit \<and>
   undeclared_body_passes_content_length_check \<and>
   capped_body_errors_and_flags_on_overflow \<and>
   capped_body_passes_under_limit \<and>
   client_ip_is_peer_when_no_trusted_proxies \<and>
   client_ip_ignores_xff_from_untrusted_peer \<and>
   client_ip_from_trusted_peer_uses_rightmost_untrusted_xff \<and>
   client_ip_falls_back_to_peer_when_all_hops_trusted \<and>
   client_ip_trusted_peer_no_xff_is_peer \<and>
   client_ip_skips_malformed_xff_entries \<and>
   basic_auth_accepts_valid_credentials \<and>
   basic_auth_rejects_wrong_password \<and>
   basic_auth_rejects_unknown_user \<and>
   basic_auth_rejects_missing_and_malformed \<and>
   build_upstream_uri_sets_path_and_query \<and>
   build_upstream_uri_rejects_invalid_target \<and>
   rewrite_headers_strips_hop_by_hop_and_host \<and>
   rewrite_headers_sets_forwarding_headers \<and>
   rewrite_headers_appends_to_existing_forwarded_for \<and>
   generated_request_ids_are_unique \<and>
   detects_upgrade_requests \<and>
   parse_authority_splits_host_and_port"
  by (intro conjI; code_simp)

text \<open>All the unit tests of the configuration sources and of the health payload hold of the model.\<close>

theorem source_unit_tests:
  "no_source_errors \<and>
   simple_mode_builds_and_validates \<and>
   scalar_overrides_apply \<and>
   simple_mode_https_when_tls_set \<and>
   inline_json_wins_over_cli_path \<and>
   bad_timeout_env_is_named_error \<and>
   payload_reports_ok_and_version"
  by (intro conjI; code_simp)

end
