(* ===== verification/Rate_Tests.thy ===== *)
theory Rate_Tests
  imports Rate_Limit Upstream
begin

text \<open>
  The unit tests of \<open>gatepup-proxy/src/rate_limit.rs\<close>, run on the model with any hash function. All
  amounts in them are small whole numbers, on which binary64 is exact.
\<close>

section \<open>Tests\<close>

definition tests_call :: "string \<Rightarrow> string \<Rightarrow> rat \<Rightarrow> rat \<Rightarrow> instant \<Rightarrow> rl_call" where
  "tests_call route ip rate capacity now =
     \<lparr>rc_key = (route, the (parse_ip ip)), rc_rate = Fin rate, rc_capacity = Fin capacity, rc_now = now\<rparr>"

definition tests_checks :: "(string \<Rightarrow> ip_addr \<Rightarrow> u64) \<Rightarrow> rl_call list \<Rightarrow> bool list" where
  "tests_checks hash calls = fst (run_checks hash calls RateLimiter_new)"

definition allows_up_to_burst_then_blocks :: "(string \<Rightarrow> ip_addr \<Rightarrow> u64) \<Rightarrow> bool" where
  "allows_up_to_burst_then_blocks hash \<longleftrightarrow>
     tests_checks hash (replicate 4 (tests_call ''r'' ''1.1.1.1'' 1 3 0)) = [True, True, True, False]"

definition refills_over_time :: "(string \<Rightarrow> ip_addr \<Rightarrow> u64) \<Rightarrow> bool" where
  "refills_over_time hash \<longleftrightarrow>
     tests_checks hash
       [tests_call ''r'' ''1.1.1.1'' 1 1 0, tests_call ''r'' ''1.1.1.1'' 1 1 0, tests_call ''r'' ''1.1.1.1'' 1 1 (from_secs 1)] =
     [True, False, True]"

definition buckets_are_independent_per_ip_and_route :: "(string \<Rightarrow> ip_addr \<Rightarrow> u64) \<Rightarrow> bool" where
  "buckets_are_independent_per_ip_and_route hash \<longleftrightarrow>
     tests_checks hash
       [tests_call ''r'' ''1.1.1.1'' 1 1 0, tests_call ''r'' ''2.2.2.2'' 1 1 0, tests_call ''other'' ''1.1.1.1'' 1 1 0,
        tests_call ''r'' ''1.1.1.1'' 1 1 0] =
     [True, True, True, False]"


section \<open>Whole numbers\<close>

lemma round_whole:
  "round_f64 0 = Fin 0" "round_f64 1 = Fin 1" "round_f64 2 = Fin 2" "round_f64 3 = Fin 3"
  using round_f64_Fin[of 1] rnd_of_nat[of 1] round_f64_Fin[of 2] rnd_of_nat[of 2] round_f64_Fin[of 3] rnd_of_nat[of 3]
  by (simp_all add: round_f64_def rnd_0)

lemma secs_whole: "as_secs_f64 0 = Fin 0" "as_secs_f64 1000000000 = Fin 1"
  by (simp_all add: as_secs_f64_def f64_of_nat_def round_whole)

lemma replicate_four: "replicate 4 x = [x, x, x, x]"
  by (simp add: numeral_eq_Suc)

lemma tests_ips: "parse_ip ''1.1.1.1'' = Some (V4 1 1 1 1)" "parse_ip ''2.2.2.2'' = Some (V4 2 2 2 2)"
  by code_simp+

lemmas whole_checks = bucket_check_def fresh_bucket_def Bucket_refill_def f64_min_def f64_sub_def Let_def round_whole secs_whole

lemma tests_checks_reference:
  assumes "in_time 0 calls" "\<forall>call \<in> set calls. uses (1, of_nat c) call" "c \<le> 2 ^ 53"
  shows "tests_checks hash calls = reference_checks calls Map.empty"
proof -
  have "(of_nat c :: rat) \<le> 2 ^ 53" using assms(3) by (metis of_nat_le_iff of_nat_numeral of_nat_power)
  also have "\<dots> < 2 ^ 1024" by simp
  finally have "params_ok (1, of_nat c)" using rnd_of_nat[OF assms(3)] by (simp add: params_ok_def)
  then show ?thesis unfolding tests_checks_def
    using assms(1,2) by (rule run_checks_reference[where par = "\<lambda>_. (1, of_nat c)"])
qed


section \<open>Properties\<close>

text \<open>The unit tests of the rate limiter hold of the model, whatever the hash function.\<close>

theorem rate_limit_unit_tests:
  "allows_up_to_burst_then_blocks hash \<and> refills_over_time hash \<and> buckets_are_independent_per_ip_and_route hash"
proof (intro conjI)
  show "allows_up_to_burst_then_blocks hash"
    unfolding allows_up_to_burst_then_blocks_def replicate_four
    by (subst tests_checks_reference[where c = 3])
      (simp_all add: tests_call_def uses_def tests_ips whole_checks)
  show "refills_over_time hash"
    unfolding refills_over_time_def
    by (subst tests_checks_reference[where c = 1])
      (simp_all add: tests_call_def uses_def tests_ips whole_checks from_secs_def)
  show "buckets_are_independent_per_ip_and_route hash"
    unfolding buckets_are_independent_per_ip_and_route_def
    by (subst tests_checks_reference[where c = 1])
      (simp_all add: tests_call_def uses_def tests_ips whole_checks)
qed

end
