(* ===== verification/Core_Tests.thy ===== *)
theory Core_Tests
  imports Core_App Validator_Tests
begin

text \<open>
  The unit tests of \<open>gatepup-core/src/app.rs\<close>, run on the model. The files they write and the
  parser that reads them back are stand-ins: a file holds the target URL, and parsing it gives
  the configuration with that target. Pointer identity of snapshots becomes equality.
\<close>

section \<open>Fixtures\<close>

definition write_config :: "string \<Rightarrow> GatePupConfig" where
  "write_config target_url =
     valid_config\<lparr>cf_app := \<lparr>app_name = ''t'', app_log_level = default_log_level\<rparr>,
       cf_listeners := [\<lparr>ls_name = ''l'', ls_bind = ''127.0.0.1:0'', ls_protocol = Http, ls_tls = None,
         ls_routes = [(tests_route ''r'' [] ''u'')\<lparr>rt_matcher := \<lparr>mt_host = None, mt_path_prefix = Some ''/''\<rparr>\<rparr>]\<rparr>],
       cf_upstreams := [tests_upstream ''u'' [tests_target target_url]]\<rparr>"

definition tests_loader :: loader where
  "tests_loader =
     \<lparr>read_to_string = (\<lambda>path. if path = ''a.json'' then Ok ''http://127.0.0.1:1''
                               else if path = ''b.json'' then Ok ''http://127.0.0.1:2'' else Err ''not found''),
      from_json = (\<lambda>raw. Ok (write_config raw))\<rparr>"

definition config_urls :: "GatePupConfig \<Rightarrow> string" where
  "config_urls cfg = concat (map (concat \<circ> map tg_url \<circ> us_targets) (cf_upstreams cfg))"

definition tests_platform :: "(header_list, ip_addr \<times> nat, string, unit) platform" where
  "tests_platform = example_platform\<lparr>pf_url_parse := tests_url_parse, pf_to_string_pretty := (\<lambda>cfg. Ok (config_urls cfg))\<rparr>"

definition shared_from :: "string \<Rightarrow> (ip_addr \<times> nat, unit) service option" where
  "shared_from path =
     (case load_validated tests_platform tests_loader path of
        Err _ \<Rightarrow> None
      | Ok cfg \<Rightarrow> (case serve tests_platform cfg of Err _ \<Rightarrow> None | Ok sv \<Rightarrow> Some (sv\<lparr>sv_effective := ''old''\<rparr>)))"

definition snapshot_urls :: "(ip_addr \<times> nat, unit) service \<Rightarrow> string list" where
  "snapshot_urls sv = concat (map (\<lambda>(_, u). map tr_url (up_targets u)) (sn_upstreams (gw_snapshot (sv_gateway sv))))"


section \<open>Tests\<close>

definition reload_keeps_old_config_on_invalid :: bool where
  "reload_keeps_old_config_on_invalid \<longleftrightarrow>
     (case shared_from ''a.json'' of
        None \<Rightarrow> False
      | Some before \<Rightarrow>
          (let after = reload tests_platform tests_loader (Some ''/no/such/gatepup-config.json'') before
           in gw_snapshot (sv_gateway after) = gw_snapshot (sv_gateway before) \<and> sv_effective after = ''old''))"

definition reload_swaps_snapshot_on_valid :: bool where
  "reload_swaps_snapshot_on_valid \<longleftrightarrow>
     (case shared_from ''a.json'' of
        None \<Rightarrow> False
      | Some before \<Rightarrow>
          (let after = reload tests_platform tests_loader (Some ''b.json'') before
           in snapshot_urls after \<noteq> snapshot_urls before \<and> str_contains ''127.0.0.1:2'' (sv_effective after)))"

lemma shared_from_a: "\<exists>sv. shared_from ''a.json'' = Some sv"
proof -
  have "shared_from ''a.json'' \<noteq> None" by code_simp
  then show ?thesis by simp
qed

lemma missing_file: "reload_attempt tests_platform tests_loader (Some ''/no/such/gatepup-config.json'') =
    Err (Core_Config (Read ''/no/such/gatepup-config.json'' ''not found''))"
  by (simp add: reload_attempt_def resolve_validated_def resolve_with_def base_config_def load_from_file_def
      tests_platform_def example_platform_def tests_loader_def)

theorem reload_unit_tests: "reload_keeps_old_config_on_invalid \<and> reload_swaps_snapshot_on_valid"
proof
  obtain sv where sv: "shared_from ''a.json'' = Some sv" using shared_from_a by blast
  then have "sv_effective sv = ''old''" by (auto simp: shared_from_def split: sum.splits)
  then show reload_keeps_old_config_on_invalid
    using sv by (simp add: reload_keeps_old_config_on_invalid_def reload_def missing_file Let_def)
  show reload_swaps_snapshot_on_valid by code_simp
qed

end
