(* ===== verification/Spec2Isabelle.thy ===== *)
theory Spec2Isabelle
  imports Pick_Concurrent Health_Concurrent Logging Undisturbed Process Shared_Buckets Proxy_Tests Rate_Tests
    Core_Tests
begin

text \<open>
  GatePup is a reverse proxy. A configuration document describes listeners with routes and
  upstream groups of weighted targets; the program validates it, compiles it into an immutable
  snapshot, and serves requests from that snapshot while health probes change the state of the
  targets and a hang-up signal swaps the snapshot for one of a newly read configuration. Paths
  below are relative to \<open>src/crates/\<close>.

  \<^bold>\<open>How the parts interact.\<close> \<open>gatepup-cli\<close> picks a command. \<open>run\<close> resolves the configuration
  sources (\<open>Resolve\<close>), validates the result (\<open>Validator\<close>), installs logging (\<open>Logging\<close>), loads TLS
  material (\<open>Tls\<close>) and builds a snapshot (\<open>Snapshot\<close>: routers, upstream runtimes, trusted
  proxies). Then it binds the listeners and the admin server and runs until a termination signal
  (\<open>Process\<close>). The accept loops (\<open>Server\<close>) hand each request to \<open>handle\<close> (\<open>Forward\<close>), which asks
  the router for a route (\<open>Router\<close>), applies access list, rate limit and basic authentication
  (\<open>Router\<close>, \<open>Rate_Limit\<close>, \<open>Proxy\<close>), picks targets (\<open>Upstream\<close>), rewrites headers (\<open>Proxy\<close>), makes
  the attempts, compresses the answer (\<open>Compress\<close>) and counts (\<open>Metrics_Model\<close>). Forwarded
  requests and probes reach the targets through the connectors of \<open>Upstream_Tls\<close>, upgrade
  requests over plain TCP. The prober (\<open>Prober\<close>, kept
  running across reloads by \<open>Supervisor\<close>) drives the health state (\<open>Health\<close>) that target selection
  reads. The admin endpoints (\<open>Admin_Api\<close>) read the same live snapshot. The composition root
  (\<open>Core_App\<close>) owns all of it and performs reloads. All of this happens at once; \<open>Interleaving\<close>
  says what any interleaving of it can do.

  \<^bold>\<open>Theories.\<close>
  \<^item> \<open>Prelude\<close>: integer types at their width, \<open>Result\<close>, shared facts on lists, maps and
    words, and the locale \<open>invariant_system\<close> (a start predicate, a step relation and an invariant
    kept by the steps) whose conclusions are reused by every state machine below.
  \<^item> \<open>Rust_Str\<close>, \<open>Rust_Net\<close>, \<open>Ip_Round_Trip\<close>, \<open>Rust_F64\<close>: what the source uses of the standard
    library: byte strings, parsing and printing of addresses (every IPv4 and IPv6 address survives
    printing and parsing), and binary64 arithmetic with its rounding. The
    locale \<open>nearest_rounding\<close> states the error bounds of a rounding function; it is interpreted on
    the binary64 one.
  \<^item> \<open>Http_Api\<close>: the interfaces of the crates \<open>http\<close> and \<open>ipnet\<close> as records of operations,
    with their documented behaviour as the locales \<open>header_map\<close> and \<open>ip_net\<close>, and a concrete
    implementation of each that the examples compute with.
  \<^item> \<open>Config_Model\<close> (\<open>gatepup-config/src/model.rs\<close>): a record per struct, a datatype per
    enum.
  \<^item> \<open>Validator\<close> (\<open>validator.rs\<close>, \<open>ValidationError\<close> of \<open>error.rs\<close>): each check as the list
    of errors it appends. \<open>config_wf\<close> reads the rules declaratively, and \<open>validate\<close> returns no
    error exactly on the configurations that satisfy it.
  \<^item> \<open>Resolve\<close> (\<open>resolve.rs\<close>, \<open>loader.rs\<close>): precedence of the sources, the simple mode and
    the overrides from the environment; a source hides every lower one, and the simple mode
    produces a valid configuration exactly when its variables are acceptable.
  \<^item> \<open>Health\<close>, \<open>Health_Concurrent\<close>, \<open>Prober\<close>, \<open>Supervisor\<close> (\<open>gatepup-proxy/src/health.rs\<close>):
    \<open>observe\<close> with wrapping 32-bit counters refines a counter-free specification over the history
    of observations; calls of it that race, cut at their atomic accesses; rounds of probes eject
    and restore targets; the supervisor keeps at most one generation of probe loops through any
    order of stores, reload notices, wake-ups and ticks.
  \<^item> \<open>Upstream\<close>, \<open>Pick_Concurrent\<close>, \<open>Snapshot\<close> (\<open>snapshot.rs\<close>): the interleaved weighted
    schedule, its termination and proportions; \<open>pick_target\<close> called alone, and interleaved with
    other callers and with \<open>observe\<close> as a step relation; building a snapshot from a configuration.
  \<^item> \<open>Router\<close> (\<open>router.rs\<close>): compilation, host and path matching, the choice of the most
    specific route, path rewriting, header rules and access lists.
  \<^item> \<open>Rate_Limit\<close> (\<open>rate_limit.rs\<close>): token buckets in 32 shards that are swept when they
    grow; rate and capacity come with every call. The reference limiter is one map that is never
    swept. The locale \<open>evicting_store\<close> is a store that may drop full buckets: on a key whose calls
    keep their parameters this cannot be observed, and after any history the calls admitted in a
    window are bounded; the sharded store interprets it. The bounds include the rounding of
    binary64. Calls are in time order: an earlier \<open>Instant\<close> after a later one would move a
    bucket's clock back.
  \<^item> \<open>Proxy\<close>, \<open>Compress\<close>, \<open>Forward\<close> (\<open>proxy.rs\<close>, \<open>compress.rs\<close>): the helpers of request
    handling, negotiation and eligibility of compression, then \<open>forward\<close>, \<open>handle_upgrade\<close> and
    \<open>handle\<close> as state-passing functions over the gateway's state. An environment gives the outcome
    of every attempt, and the requests that were sent are recorded.
  \<^item> \<open>Metrics_Model\<close> (\<open>gatepup-observability/src/metrics.rs\<close>): counters, gauges and
    observations.
  \<^item> \<open>Gateway\<close>: the contract \<open>handled\<close> that both handlers meet, and from it what a request
    does: it is sent nowhere unless admitted, the number and kind of its attempts, the body
    limits, the accounting of the metrics.
  \<^item> \<open>Tls\<close> (\<open>tls.rs\<close>), \<open>Server\<close> (\<open>server.rs\<close>, \<open>serve\<close> of \<open>gatepup-admin/src/lib.rs\<close>):
    loading TLS material; starting the listeners in order, the settings of a connection, and one
    accept loop with its connections as a timed state machine in which shutdown ends within the
    drain time.
  \<^item> \<open>Upstream_Tls\<close> (\<open>upstream_tls.rs\<close>, \<open>ProxyClient\<close> of \<open>proxy.rs\<close>, the clients of
    \<open>health.rs\<close>): the verifying and the insecure connector, which of them an attempt or a probe
    uses, and the plain connection of an upgrade.
  \<^item> \<open>Process\<close> (\<open>server.rs\<close>, the end of \<open>serve\<close> in \<open>gatepup-core/src/app.rs\<close>): all accept
    loops, the supervisor and the signal on one clock, from startup to the return of \<open>serve\<close>, and
    the requests of one connection.
  \<^item> \<open>Admin_Api\<close> (\<open>gatepup-admin/src/api.rs\<close>, \<open>health.rs\<close>): routing of the admin endpoints,
    the token guard, the payloads and the scrape.
  \<^item> \<open>Core_App\<close> (\<open>gatepup-core/src/app.rs\<close>): startup, reload and the signal loop; the
    service as a state machine over requests, probes, admin requests and signals. A reload is all
    or nothing, the reported configuration is the one in force, and every request is answered.
  \<^item> \<open>Interleaving\<close>: the request handler and the reload cut at their accesses to shared
    state, and any number of requests, health observations, admin requests and reloads
    interleaved. Every request is answered within a bound on its own steps, keeps the snapshot it
    loaded, and is counted once. \<open>Undisturbed\<close>: a request that runs undisturbed does what \<open>handle\<close>
    does, so the sequential theory describes the interleaved one.
  \<^item> \<open>Cli\<close> (\<open>gatepup-cli/src/main.rs\<close>): commands, exit codes and output; \<open>validate\<close> predicts
    what startup and reload decide. \<open>Logging\<close> (\<open>gatepup-observability/src/logging.rs\<close>): the filter
    that \<open>run\<close> installs.
  \<^item> \<open>Shared_Buckets\<close>: two listeners with equally named routes and one bucket.
  \<^item> \<open>Validator_Tests\<close>, \<open>Proxy_Tests\<close>, \<open>Rate_Tests\<close>, \<open>Core_Tests\<close>: the repository's unit tests of
    the functions modelled, one definition per test, run on the model.

  \<^bold>\<open>State and effects.\<close> Atomics, mutexes and \<open>ArcSwap\<close> cells are fields of records passed through
  the operations. A request runs as one step in \<open>Gateway\<close> and \<open>Core_App\<close>; every access to shared
  state is a step of its own in \<open>Pick_Concurrent\<close>, \<open>Health_Concurrent\<close> and \<open>Interleaving\<close>. There
  an observation of a target and a check of the rate limiter (which holds a lock) are one step
  each, and a piece may run in any environment. Errors are values of \<open>Result\<close> with the source's
  error types. Clock readings and \<open>Instant\<close>s are arguments in nanoseconds. Integer arithmetic
  wraps, as in the release profile.

  \<^bold>\<open>Third-party code\<close> is a parameter wherever it is called: header maps, networks, URIs, URL and
  JSON parsing, base64, the hash function, the encoders, the PEM parser and \<open>rustls\<close>, the file
  system and the process environment. Where a theorem relies on one of them, its documented
  behaviour is a hypothesis (\<open>header_map\<close>, \<open>ip_net\<close>, or a premise written out).

  \<^bold>\<open>Bounds and termination.\<close> No operation uses fuel. The attempt loop recurses on the number of
  attempts left, which the source bounds by \<open>maxAttempts\<close>; the bound \<open>task_cost\<close> on the pieces of
  an interleaved request is computed from its stage, its retry policy and its schedule; the loop
  that builds a schedule is the library's \<open>while\<close> and is proved to end for all weights; every
  other loop is structural recursion over the data it walks. Lists given by an environment (probe
  answers, body frames) are finite but of any length.

  \<^bold>\<open>Not modelled.\<close> What is logged (output only). The bytes relayed on an upgraded connection,
  sockets, and the \<open>hyper\<close> connections themselves. Rendering of error messages and of the
  \<open>prometheus\<close> text format. The benchmark backend (a load generator's peer, not part of the
  gateway), the crate roots (re-exports) and argument parsing. Unit tests of file access, rendered
  text and running servers.

  \<^bold>\<open>Divergences\<close> between the code and its documentation are theorems as well:
  \<open>build_schedule_overflow\<close>, \<open>concurrent_pick_misses_healthy\<close>, \<open>flood_is_kept\<close>,
  \<open>empty_host_conflict_accepted\<close>, \<open>nested_wildcards_follow_order\<close>, \<open>buffered_body_ignores_limit\<close>,
  \<open>unbuffered_body_is_refused\<close>, \<open>retry_may_repeat_target\<close>, \<open>admin_token_needs_admin_bind\<close>,
  \<open>metrics_at_health_unguarded\<close>, \<open>stale_gauge_survives_reload\<close>,
  \<open>swept_bucket_forgets_capacity\<close> and \<open>same_named_routes_share_a_bucket\<close>.
\<close>

end
